(* ===== verification/Fsm.thy ===== *)
theory Fsm
  imports Main
begin

text \<open>
  The table-driven state machines. The regional server, the lamp and the sensor each hold a
  \<^verbatim>\<open>std::multimap<std::string,std::string>\<close> of allowed transitions between state names and the same
  code that consults it (\<^verbatim>\<open>ServerFsm::switch_to\<close>, \<^verbatim>\<open>LuminaireClient::SwitchToState\<close>,
  \<^verbatim>\<open>SensorFsm::switch_to\<close>). The locale \<open>fsm\<close> is the contract of such a machine; each component
  interprets it on its own table and names.
\<close>

section \<open>The table\<close>

type_synonym transition_matrix = "(string \<times> string) list"

text \<open>\<^verbatim>\<open>equal_range(oldS)\<close> and the search for the new name in that range.\<close>

definition allowed :: "transition_matrix \<Rightarrow> string \<Rightarrow> string \<Rightarrow> bool" where
  "allowed transitions oldS newS =
     list_ex (\<lambda>tr. snd tr = newS) (filter (\<lambda>tr. fst tr = oldS) transitions)"

text \<open>The result is the new state and what \<^verbatim>\<open>switch_to\<close> returns; a refused switch changes nothing.\<close>

definition switch_state ::
  "('s \<Rightarrow> string) \<Rightarrow> transition_matrix \<Rightarrow> 's \<Rightarrow> 's \<Rightarrow> 's \<times> bool" where
  "switch_state name transitions state next =
     (if allowed transitions (name state) (name next) then (next, True) else (state, False))"

lemma allowed_iff: "allowed transitions a b \<longleftrightarrow> (a, b) \<in> set transitions"
  by (force simp: allowed_def list_ex_iff)

section \<open>The contract\<close>

text \<open>
  The names are distinct, so that the table over names describes a relation \<open>edge\<close> on states, and
  the machine moves along the table only.
\<close>

locale fsm =
  fixes name :: "'s \<Rightarrow> string"
    and transitions :: transition_matrix
    and edge :: "'s \<Rightarrow> 's \<Rightarrow> bool"
    and switch :: "'s \<Rightarrow> 's \<Rightarrow> 's \<times> bool"
  assumes name_inject: "name s = name t \<Longrightarrow> s = t"
    and edge_iff: "edge s t \<longleftrightarrow> (name s, name t) \<in> set transitions"
    and switch_eq: "switch s t = switch_state name transitions s t"
begin

lemma switch_cases: "switch s t = (if edge s t then (t, True) else (s, False))"
  by (simp add: switch_eq switch_state_def allowed_iff edge_iff)

lemma succeeds_iff: "snd (switch s t) \<longleftrightarrow> edge s t"
  by (simp add: switch_cases)

lemma moves_along_edges: "fst (switch s t) = s \<or> edge s (fst (switch s t))"
  by (simp add: switch_cases)

text \<open>The machine after a sequence of attempted switches, and the states it can get to.\<close>

definition attempts :: "'s \<Rightarrow> 's list \<Rightarrow> 's" where
  "attempts s ts = fold (\<lambda>t s. fst (switch s t)) ts s"

lemma attempts_path: "edge\<^sup>*\<^sup>* s (attempts s ts)"
proof (induction ts rule: rev_induct)
  case (snoc t ts)
  then show ?case
    using moves_along_edges [of "attempts s ts" t]
    by (auto simp: attempts_def intro: rtranclp.rtrancl_into_rtrancl)
qed (simp add: attempts_def)

lemma attempts_closed:
  assumes "\<And>a b. P a \<Longrightarrow> edge a b \<Longrightarrow> P b" "P s"
  shows "P (attempts s ts)"
  using attempts_path [of s ts] assms(2) by (induction rule: rtranclp_induct) (auto intro: assms(1))

text \<open>No edge is dead: every edge of the table is taken by the attempt that names it.\<close>

lemma edge_taken: "edge s t \<Longrightarrow> attempts s [t] = t"
  by (simp add: attempts_def switch_cases)

end

end
