(* ===== verification/Prelude.thy ===== *)
theory Prelude
  imports Main "HOL-Library.Word" "HOL-Library.AList" "HOL-Library.Multiset"
begin

text \<open>
  Vocabulary shared by every component of the Smart Lighting System model: the machine
  integers of \<^verbatim>\<open><cstdint>\<close>, byte buffers, the exceptions that the protocol code throws, the
  combinators for decoders that move a read pointer, and the reading of a
  \<^verbatim>\<open>std::unordered_map\<close> as an association list with distinct keys. The generic lemmas on
  words, characters and association lists that the components share are collected here.
\<close>

unbundle bit_operations_syntax

section \<open>Machine integers and byte buffers\<close>

type_synonym u8 = "8 word"

type_synonym u16 = "16 word"

type_synonym u32 = "32 word"

type_synonym u64 = "64 word"

type_synonym bytes = "u8 list"

text \<open>
  A \<^verbatim>\<open>std::string\<close> is a list of characters; \<open>char\<close> and \<open>u8\<close> are in bijection, which is
  what the code's \<^verbatim>\<open>reinterpret_cast\<close> between \<^verbatim>\<open>char*\<close> and \<^verbatim>\<open>uint8_t*\<close> relies on.
\<close>

definition byte_of_char :: "char \<Rightarrow> u8" where
  "byte_of_char c = word_of_nat (of_char c)"

definition char_of_byte :: "u8 \<Rightarrow> char" where
  "char_of_byte w = char_of (unat w)"

definition bytes_of_string :: "string \<Rightarrow> bytes" where
  "bytes_of_string s = map byte_of_char s"

definition string_of_bytes :: "bytes \<Rightarrow> string" where
  "string_of_bytes bs = map char_of_byte bs"

lemma char_of_byte_of_char [simp]: "char_of_byte (byte_of_char c) = c"
  by (simp add: char_of_byte_def byte_of_char_def unat_of_nat)

lemma byte_of_char_of_byte [simp]: "byte_of_char (char_of_byte w) = w"
proof -
  have "unat w < 2 ^ 8" using unsigned_less [of w] by simp
  then show ?thesis by (simp add: char_of_byte_def byte_of_char_def)
qed

lemma string_of_bytes_of_string [simp]: "string_of_bytes (bytes_of_string s) = s"
  by (simp add: string_of_bytes_def bytes_of_string_def comp_def)

lemma bytes_of_string_of_bytes [simp]: "bytes_of_string (string_of_bytes bs) = bs"
  by (simp add: string_of_bytes_def bytes_of_string_def comp_def)

lemma length_bytes_of_string [simp]: "length (bytes_of_string s) = length s"
  by (simp add: bytes_of_string_def)

lemma length_string_of_bytes [simp]: "length (string_of_bytes bs) = length bs"
  by (simp add: string_of_bytes_def)

lemma byte_of_char_0_iff: "byte_of_char c = 0 \<longleftrightarrow> c = CHR 0x00"
proof -
  have "byte_of_char (CHR 0x00) = 0" by (simp add: byte_of_char_def)
  then show ?thesis by (metis char_of_byte_of_char)
qed

text \<open>The text that C code reads from \<^verbatim>\<open>c_str()\<close>: it ends at the first NUL.\<close>

definition c_str :: "string \<Rightarrow> string" where
  "c_str s = takeWhile (\<lambda>c. c \<noteq> CHR 0x00) s"

lemma NUL_notin_c_str: "CHR 0x00 \<notin> set (c_str s)"
  by (auto simp: c_str_def dest: set_takeWhileD)

lemma c_str_id [simp]: "CHR 0x00 \<notin> set s \<Longrightarrow> c_str s = s"
  by (auto simp: c_str_def takeWhile_eq_all_conv)

section \<open>Bits of the masks and of assembled words\<close>

lemma bit_0xFF_int [simp]: "bit (0xFF :: int) n \<longleftrightarrow> n < 8"
proof -
  have "(0xFF :: int) = mask 8" by (simp add: mask_eq_exp_minus_1)
  then show ?thesis by (simp only: bit_mask_iff possible_bit_int simp_thms)
qed

lemma bit_0xFF_shifted_int [simp]:
  "bit (0xFF00 :: int) n \<longleftrightarrow> 8 \<le> n \<and> n < 16"
  "bit (0xFF0000 :: int) n \<longleftrightarrow> 16 \<le> n \<and> n < 24"
  "bit (0xFF000000 :: int) n \<longleftrightarrow> 24 \<le> n \<and> n < 32"
proof -
  have "(0xFF00 :: int) = push_bit 8 0xFF" "(0xFF0000 :: int) = push_bit 16 0xFF"
    "(0xFF000000 :: int) = push_bit 24 0xFF"
    by (simp_all add: push_bit_eq_mult)
  then show "bit (0xFF00 :: int) n \<longleftrightarrow> 8 \<le> n \<and> n < 16"
    "bit (0xFF0000 :: int) n \<longleftrightarrow> 16 \<le> n \<and> n < 24"
    "bit (0xFF000000 :: int) n \<longleftrightarrow> 24 \<le> n \<and> n < 32"
    by (auto simp only: bit_push_bit_iff_int bit_0xFF_int)
qed

lemma ucast_and_0xFF [simp]: "ucast ((w :: 'a::len word) AND 0xFF) = (ucast w :: u8)"
  by (rule bit_word_eqI) (auto simp: bit_simps dest: bit_imp_le_length)

lemma unat_less_256: "unat (w :: u8) < 256"
  using unsigned_less [of w] by simp

lemma unat_less_65536: "unat (w :: u16) < 65536"
  using unsigned_less [of w] by simp

lemma unat_of_nat_u16: "n < 65536 \<Longrightarrow> unat (word_of_nat n :: u16) = n"
  by (simp add: unat_of_nat)

lemma unat_of_nat_u32: "n < 4294967296 \<Longrightarrow> unat (word_of_nat n :: u32) = n"
  by (simp add: unat_of_nat)

lemma unat_sum_list:
  "unat (sum_list ws :: 'a::len word) = sum_list (map unat ws) mod 2 ^ LENGTH('a)"
  by (induction ws) (simp_all add: unat_word_ariths mod_add_right_eq)

section \<open>Exceptions and results\<close>

text \<open>
  The \<^verbatim>\<open>std::runtime_error\<close>s of \<^verbatim>\<open>proto.hpp\<close>, one constructor per \<^verbatim>\<open>throw\<close>. \<open>what\<close> is the
  message that \<^verbatim>\<open>ex.what()\<close> returns and that the handlers print.
\<close>

datatype exn =
    Underflow_u8
  | Underflow_u16
  | Underflow_u32
  | Underflow_str
  | String_too_long

fun what :: "exn \<Rightarrow> string" where
  "what Underflow_u8 = ''underflow u8''"
| "what Underflow_u16 = ''underflow u16''"
| "what Underflow_u32 = ''underflow u32''"
| "what Underflow_str = ''underflow str''"
| "what String_too_long = ''string too long''"

type_synonym 'a result = "exn + 'a"

definition bind_result :: "'a result \<Rightarrow> ('a \<Rightarrow> 'b result) \<Rightarrow> 'b result" where
  "bind_result r f = (case r of Inl e \<Rightarrow> Inl e | Inr x \<Rightarrow> f x)"

lemma bind_result_simps [simp]:
  "bind_result (Inl e) f = Inl e"
  "bind_result (Inr x) f = f x"
  by (simp_all add: bind_result_def)

lemma bind_result_eq_Inr [simp]:
  "bind_result r f = Inr y \<longleftrightarrow> (\<exists>x. r = Inr x \<and> f x = Inr y)"
  by (simp add: bind_result_def split: sum.splits)

section \<open>Decoders that move a read pointer\<close>

text \<open>
  A decoder of the code takes \<^verbatim>\<open>const uint8_t*& p, const uint8_t* e\<close>: it reads from the bytes
  between \<open>p\<close> and \<open>e\<close> and moves \<open>p\<close>. The model passes the bytes that are left and returns
  the value with the bytes that remain, or the exception.
\<close>

type_synonym 'a parser = "bytes \<Rightarrow> exn + ('a \<times> bytes)"

definition ret :: "'a \<Rightarrow> 'a parser" where
  "ret x bs = Inr (x, bs)"

definition and_then :: "'a parser \<Rightarrow> ('a \<Rightarrow> 'b parser) \<Rightarrow> 'b parser" where
  "and_then p f bs = (case p bs of Inl e \<Rightarrow> Inl e | Inr (x, rest) \<Rightarrow> f x rest)"

definition run_parser :: "'a parser \<Rightarrow> bytes \<Rightarrow> 'a result" where
  "run_parser p bs = (case p bs of Inl e \<Rightarrow> Inl e | Inr (x, _) \<Rightarrow> Inr x)"

text \<open>The counted loops \<^verbatim>\<open>for(uint16_t i=0;i<cnt;i++)\<close> that push one decoded item per round.\<close>

fun get_n :: "'a parser \<Rightarrow> nat \<Rightarrow> 'a list parser" where
  "get_n p 0 = ret []"
| "get_n p (Suc n) = and_then p (\<lambda>x. and_then (get_n p n) (\<lambda>xs. ret (x # xs)))"

lemma ret_eq [simp]: "ret x bs = Inr (y, rest) \<longleftrightarrow> y = x \<and> rest = bs"
  by (auto simp: ret_def)

lemma and_then_ret [simp]: "and_then (ret x) f bs = f x bs"
  by (simp add: and_then_def ret_def)

lemma and_then_Inr: "p bs = Inr (x, rest) \<Longrightarrow> and_then p f bs = f x rest"
  by (simp add: and_then_def)

lemma and_then_Inl: "p bs = Inl e \<Longrightarrow> and_then p f bs = Inl e"
  by (simp add: and_then_def)

lemma and_then_eq_Inr:
  "and_then p f bs = Inr (y, rest) \<longleftrightarrow> (\<exists>x mid. p bs = Inr (x, mid) \<and> f x mid = Inr (y, rest))"
  by (auto simp: and_then_def split: sum.splits)

lemma run_parser_eq_Inr: "run_parser p bs = Inr x \<longleftrightarrow> (\<exists>rest. p bs = Inr (x, rest))"
  by (auto simp: run_parser_def split: sum.splits)

lemma run_parser_eq_Inl: "run_parser p bs = Inl e \<longleftrightarrow> p bs = Inl e"
  by (auto simp: run_parser_def split: sum.splits)

section \<open>Hash maps as association lists\<close>

text \<open>
  A \<^verbatim>\<open>std::unordered_map\<close> is an association list with distinct keys whose order is the order
  in which the code iterates. \<open>AList.update\<close> is \<^verbatim>\<open>m[k] = v\<close>, \<open>map_of\<close> is \<^verbatim>\<open>m.find(k)\<close>,
  \<open>AList.delete\<close> is \<^verbatim>\<open>m.erase(it)\<close>. The standard leaves the iteration order open; results that
  depend on it are stated for every order.
\<close>

abbreviation keys :: "('k \<times> 'v) list \<Rightarrow> 'k list" where
  "keys al \<equiv> map fst al"

definition same_map :: "('k \<times> 'v) list \<Rightarrow> ('k \<times> 'v) list \<Rightarrow> bool" where
  "same_map al al' \<longleftrightarrow> distinct (keys al) \<and> distinct (keys al') \<and> map_of al = map_of al'"

lemma map_of_update [simp]: "map_of (AList.update k v al) = (map_of al)(k \<mapsto> v)"
  by (rule ext) (simp add: update_conv)

lemma set_keys_update [simp]: "fst ` set (AList.update k v al) = insert k (fst ` set al)"
  using dom_update [of k v al] by simp

lemma distinct_keys_update [simp]:
  "distinct (keys al) \<Longrightarrow> distinct (keys (AList.update k v al))"
  by (rule distinct_update)

lemma same_map_set: "same_map al al' \<Longrightarrow> set al = set al'"
  unfolding same_map_def by (metis map_of_eq_Some_iff subrelI subset_antisym)

text \<open>
  \<^verbatim>\<open>auto& v = m[k]; v = f(v)\<close>: the subscript operator inserts the default value when the key
  is absent.
\<close>

definition get_default :: "'v \<Rightarrow> ('k \<times> 'v) list \<Rightarrow> 'k \<Rightarrow> 'v" where
  "get_default d al k = (case map_of al k of None \<Rightarrow> d | Some v \<Rightarrow> v)"

definition upd_default :: "'v \<Rightarrow> 'k \<Rightarrow> ('v \<Rightarrow> 'v) \<Rightarrow> ('k \<times> 'v) list \<Rightarrow> ('k \<times> 'v) list" where
  "upd_default d k f al = AList.update k (f (get_default d al k)) al"

lemma get_default_simps [simp]:
  "map_of al k = None \<Longrightarrow> get_default d al k = d"
  "map_of al k = Some v \<Longrightarrow> get_default d al k = v"
  by (simp_all add: get_default_def)

lemma map_of_upd_default [simp]:
  "map_of (upd_default d k f al) = (map_of al)(k \<mapsto> f (get_default d al k))"
  by (simp add: upd_default_def)

lemma get_default_upd_default:
  "get_default d (upd_default d k f al) j = (if j = k then f (get_default d al k) else get_default d al j)"
  by (simp add: get_default_def upd_default_def)

lemma distinct_keys_upd_default [simp]:
  "distinct (keys al) \<Longrightarrow> distinct (keys (upd_default d k f al))"
  by (simp add: upd_default_def)

lemma set_keys_upd_default [simp]: "fst ` set (upd_default d k f al) = insert k (fst ` set al)"
  by (simp add: upd_default_def)

lemma same_map_mset:
  assumes "same_map al al'"
  shows "mset al = mset al'"
proof -
  from assms have "distinct al" "distinct al'"
    by (auto simp: same_map_def distinct_map)
  with same_map_set [OF assms] show ?thesis by (simp add: set_eq_iff_mset_eq_distinct)
qed

end
