(* ===== verification/Wire.thy ===== *)
theory Wire
  imports Prelude
begin

text \<open>
  The byte level of \<^verbatim>\<open>proto.hpp\<close>: the byte-swapping helpers, the \<^verbatim>\<open>put_*\<close> functions that append
  to a vector and the \<^verbatim>\<open>get_*\<close> functions that read and advance a pointer. The locale \<open>codec\<close>
  is the contract that every message codec keeps, with its consequences proved once; it is
  interpreted here on the primitive codecs and in the theories of the messages.
\<close>

section \<open>Endian helpers\<close>

definition to_be32 :: "u32 \<Rightarrow> u32" where
  "to_be32 x = push_bit 24 (x AND 0x000000FF) OR push_bit 8 (x AND 0x0000FF00)
     OR drop_bit 8 (x AND 0x00FF0000) OR drop_bit 24 (x AND 0xFF000000)"

definition from_be32 :: "u32 \<Rightarrow> u32" where
  "from_be32 x = to_be32 x"

definition to_be16 :: "u16 \<Rightarrow> u16" where
  "to_be16 x = drop_bit 8 x OR push_bit 8 x"

definition from_be16 :: "u16 \<Rightarrow> u16" where
  "from_be16 x = to_be16 x"

section \<open>Appending to a buffer\<close>

definition put_u8 :: "bytes \<Rightarrow> u8 \<Rightarrow> bytes" where
  "put_u8 b v = b @ [v]"

definition put_u16 :: "bytes \<Rightarrow> u16 \<Rightarrow> bytes" where
  "put_u16 b v = b @ [ucast (drop_bit 8 v AND 0xFF)] @ [ucast (v AND 0xFF)]"

definition put_u32 :: "bytes \<Rightarrow> u32 \<Rightarrow> bytes" where
  "put_u32 b v = b @ [ucast (drop_bit 24 v AND 0xFF)] @ [ucast (drop_bit 16 v AND 0xFF)]
     @ [ucast (drop_bit 8 v AND 0xFF)] @ [ucast (v AND 0xFF)]"

definition put_str :: "bytes \<Rightarrow> string \<Rightarrow> bytes result" where
  "put_str b s = (if length s > 65535 then Inl String_too_long
     else Inr (put_u16 b (word_of_nat (length s)) @ bytes_of_string s))"

section \<open>Reading from a buffer\<close>

fun get_u8 :: "u8 parser" where
  "get_u8 (a # bs) = Inr (a, bs)"
| "get_u8 _ = Inl Underflow_u8"

fun get_u16 :: "u16 parser" where
  "get_u16 (a # b # bs) = Inr (push_bit 8 (ucast a) OR ucast b, bs)"
| "get_u16 _ = Inl Underflow_u16"

fun get_u32 :: "u32 parser" where
  "get_u32 (a # b # c # d # bs) =
     Inr (push_bit 24 (ucast a) OR push_bit 16 (ucast b) OR push_bit 8 (ucast c) OR ucast d, bs)"
| "get_u32 _ = Inl Underflow_u32"

definition get_str :: "string parser" where
  "get_str = and_then get_u16 (\<lambda>n bs.
     if unat n > length bs then Inl Underflow_str
     else Inr (string_of_bytes (take (unat n) bs), drop (unat n) bs))"

section \<open>What the primitives append\<close>

definition enc_u8 :: "u8 \<Rightarrow> bytes" where
  "enc_u8 v = put_u8 [] v"

definition enc_u16 :: "u16 \<Rightarrow> bytes" where
  "enc_u16 v = put_u16 [] v"

definition enc_u32 :: "u32 \<Rightarrow> bytes" where
  "enc_u32 v = put_u32 [] v"

definition enc_str :: "string \<Rightarrow> bytes" where
  "enc_str s = put_u16 [] (word_of_nat (length s)) @ bytes_of_string s"

definition short_str :: "string \<Rightarrow> bool" where
  "short_str s \<longleftrightarrow> length s \<le> 65535"

text \<open>
  \<open>put\<close> collects the equations that turn the buffer-passing encoders into plain
  concatenations of encodings.
\<close>

named_theorems put

lemma put_u8_enc [put]: "put_u8 b v = b @ enc_u8 v"
  by (simp add: enc_u8_def put_u8_def)

lemma put_u16_enc [put]: "put_u16 b v = b @ enc_u16 v"
  by (simp add: enc_u16_def put_u16_def)

lemma put_u32_enc [put]: "put_u32 b v = b @ enc_u32 v"
  by (simp add: enc_u32_def put_u32_def)

lemma put_str_enc [put]:
  "put_str b s = (if short_str s then Inr (b @ enc_str s) else Inl String_too_long)"
  by (auto simp: put_str_def enc_str_def short_str_def put_u16_enc)

lemma length_enc [simp]:
  "length (enc_u8 a) = 1" "length (enc_u16 b) = 2" "length (enc_u32 c) = 4"
  "length (enc_str s) = 2 + length s"
  by (simp_all add: enc_u8_def enc_u16_def enc_u32_def enc_str_def put_u8_def put_u16_def
      put_u32_def)

section \<open>Big-endian words\<close>

lemma not_bit_u8: "8 \<le> k \<Longrightarrow> \<not> bit (a :: u8) k"
  using bit_imp_le_length [of a k] by auto

lemma octet_cases [consumes 1, case_names byte0 byte1 byte2 byte3]:
  assumes "n < LENGTH(32)"
  obtains m where "n = m" "m < 8" | m where "n = 8 + m" "m < 8"
    | m where "n = 16 + m" "m < 8" | m where "n = 24 + m" "m < 8"
proof -
  have "n = n mod 8 \<or> n = 8 + n mod 8 \<or> n = 16 + n mod 8 \<or> n = 24 + n mod 8"
    using assms by simp presburger
  with that show thesis by (metis mod_less_divisor zero_less_numeral)
qed

lemma to_be32_bytes:
  "to_be32 (push_bit 24 (ucast a) OR push_bit 16 (ucast b) OR push_bit 8 (ucast c) OR ucast d)
     = push_bit 24 (ucast d) OR push_bit 16 (ucast c) OR push_bit 8 (ucast b) OR ucast a"
  (is "?l = ?r") for a b c d :: u8
proof (rule bit_word_eqI)
  fix n assume "n < LENGTH(32)"
  then show "bit ?l n = bit ?r n"
    by (cases rule: octet_cases) (simp_all add: to_be32_def bit_simps not_bit_u8)
qed

lemma split_u16: "push_bit 8 (ucast (ucast (drop_bit 8 v) :: u8)) OR ucast (ucast v :: u8) = v"
  for v :: u16
  by (rule bit_word_eqI) (auto simp: bit_simps)

lemma split_u32:
  "push_bit 24 (ucast (ucast (drop_bit 24 v) :: u8)) OR push_bit 16 (ucast (ucast (drop_bit 16 v) :: u8))
    OR push_bit 8 (ucast (ucast (drop_bit 8 v) :: u8)) OR ucast (ucast v :: u8) = v"
  (is "?w = v") for v :: u32
proof (rule bit_word_eqI)
  fix n assume "n < LENGTH(32)"
  then show "bit ?w n = bit v n"
    by (cases rule: octet_cases) (simp_all add: bit_simps)
qed

lemma byte_of_u16:
  "ucast (drop_bit 8 (push_bit 8 (ucast a) OR ucast b :: u16)) = a"
  "ucast (push_bit 8 (ucast a) OR ucast b :: u16) = b"
  for a b :: u8
  by (rule bit_word_eqI; auto simp: bit_simps dest: bit_imp_le_length)+

lemma byte_of_u32:
  "ucast (drop_bit 24 (push_bit 24 (ucast a) OR push_bit 16 (ucast b) OR push_bit 8 (ucast c) OR ucast d :: u32)) = a"
  "ucast (drop_bit 16 (push_bit 24 (ucast a) OR push_bit 16 (ucast b) OR push_bit 8 (ucast c) OR ucast d :: u32)) = b"
  "ucast (drop_bit 8 (push_bit 24 (ucast a) OR push_bit 16 (ucast b) OR push_bit 8 (ucast c) OR ucast d :: u32)) = c"
  "ucast (push_bit 24 (ucast a) OR push_bit 16 (ucast b) OR push_bit 8 (ucast c) OR ucast d :: u32) = d"
  for a b c d :: u8
  by (rule bit_word_eqI; auto simp: bit_simps dest: bit_imp_le_length)+

lemma from_to_be32 [simp]: "from_be32 (to_be32 x) = x"
proof -
  have "to_be32 (to_be32 x) = x"
    by (subst (2) split_u32 [symmetric], simp only: to_be32_bytes, simp only: split_u32)
  then show ?thesis by (simp add: from_be32_def)
qed

lemma from_to_be16 [simp]: "from_be16 (to_be16 x) = x"
proof (rule bit_word_eqI)
  fix n assume "n < LENGTH(16)"
  then show "bit (from_be16 (to_be16 x)) n = bit x n"
    by (cases "n < 8") (auto simp: from_be16_def to_be16_def bit_simps dest: bit_imp_le_length)
qed

section \<open>The codec contract\<close>

text \<open>
  A codec pairs the bytes \<open>enc x\<close> that an encoder appends for a value with a decoder \<open>dec\<close>.
  The laws say that the decoder accepts exactly the encodings of the valid values: it reads
  back what was written and leaves the rest (\<open>dec_enc\<close>), and whatever it returns was written
  in front of the rest (\<open>dec_sound\<close>).
\<close>

locale codec =
  fixes enc :: "'a \<Rightarrow> bytes" and dec :: "'a parser" and valid :: "'a \<Rightarrow> bool"
  assumes dec_enc: "valid x \<Longrightarrow> dec (enc x @ rest) = Inr (x, rest)"
    and dec_sound: "dec bs = Inr (x, rest) \<Longrightarrow> valid x \<and> bs = enc x @ rest"
begin

lemma dec_iff: "dec bs = Inr (x, rest) \<longleftrightarrow> valid x \<and> bs = enc x @ rest"
  using dec_enc dec_sound by blast

lemma step: "valid x \<Longrightarrow> and_then dec f (enc x @ rest) = f x rest"
  by (simp add: and_then_Inr dec_enc)

lemma step_last: "valid x \<Longrightarrow> and_then dec f (enc x) = f x []"
  using step [of x f "[]"] by simp

lemma then_iff:
  "and_then dec f bs = Inr (y, rest)
     \<longleftrightarrow> (\<exists>x mid. valid x \<and> bs = enc x @ mid \<and> f x mid = Inr (y, rest))"
  by (auto simp: and_then_eq_Inr dec_iff)

lemma prefix_free:
  assumes "valid x" "valid y" "enc x @ r = enc y @ r'"
  shows "x = y \<and> r = r'"
proof -
  have "dec (enc x @ r) = Inr (x, r)" by (rule dec_enc) fact
  moreover have "dec (enc y @ r') = Inr (y, r')" by (rule dec_enc) fact
  ultimately show ?thesis by (simp only: assms(3)) simp
qed

lemma enc_inject: "valid x \<Longrightarrow> valid y \<Longrightarrow> enc x = enc y \<longleftrightarrow> x = y"
  using prefix_free [of x y "[]" "[]"] by auto

lemma run_iff: "run_parser dec bs = Inr x \<longleftrightarrow> valid x \<and> (\<exists>rest. bs = enc x @ rest)"
  by (auto simp: run_parser_eq_Inr dec_iff)

lemma truncated:
  assumes "valid x" "n < length (enc x)"
  shows "\<exists>e. run_parser dec (take n (enc x)) = Inl e"
proof (cases "run_parser dec (take n (enc x))")
  case (Inr y)
  then obtain rest where y: "valid y" "take n (enc x) = enc y @ rest"
    by (auto simp: run_iff)
  then have "enc x @ [] = enc y @ (rest @ drop n (enc x))"
    by (metis append.assoc append_Nil2 append_take_drop_id)
  from prefix_free [OF assms(1) y(1) this] assms(2) have False by simp
  then show ?thesis ..
qed simp

lemma rejects_iff:
  "(\<exists>e. run_parser dec bs = Inl e) \<longleftrightarrow> (\<forall>x rest. valid x \<longrightarrow> bs \<noteq> enc x @ rest)"
proof -
  have "(\<exists>e. run_parser dec bs = Inl e) \<longleftrightarrow> \<not> (\<exists>x. run_parser dec bs = Inr x)"
    by (cases "run_parser dec bs") simp_all
  then show ?thesis by (simp add: run_iff)
qed

end

text \<open>A counted loop over a codec is again a codec, for each value of the count.\<close>

locale counted_codec = item: codec enc dec valid
  for enc :: "'a \<Rightarrow> bytes" and dec :: "'a parser" and valid :: "'a \<Rightarrow> bool"

sublocale counted_codec \<subseteq> items: codec "\<lambda>xs. concat (map enc xs)" "get_n dec n"
    "\<lambda>xs. length xs = n \<and> list_all valid xs" for n
proof
  show "get_n dec n (concat (map enc xs) @ rest) = Inr (xs, rest)"
    if "length xs = n \<and> list_all valid xs" for xs rest
    using that
  proof (induction xs arbitrary: n)
    case Nil
    then show ?case by (simp add: ret_def)
  next
    case (Cons x xs)
    then obtain m where "n = Suc m" "length xs = m \<and> list_all valid xs" by auto
    with Cons show ?case by (simp add: item.step and_then_Inr)
  qed
next
  show "(length xs = n \<and> list_all valid xs) \<and> bs = concat (map enc xs) @ rest"
    if "get_n dec n bs = Inr (xs, rest)" for bs xs rest
    using that by (induction n arbitrary: bs xs) (auto simp: item.dec_iff and_then_eq_Inr)
qed

text \<open>
  A message adds the two functions that the program calls: an encoder that throws on values it
  cannot write, and a decoder that ignores what follows the message.
\<close>

locale message = codec enc dec valid
  for enc :: "'a \<Rightarrow> bytes" and dec :: "'a parser" and valid :: "'a \<Rightarrow> bool" +
  fixes encode :: "'a \<Rightarrow> bytes result" and decode :: "bytes \<Rightarrow> 'a result"
  assumes encode_eq: "encode x = (if valid x then Inr (enc x) else Inl String_too_long)"
    and decode_eq: "decode bs = run_parser dec bs"
begin

lemma decode_encode: "encode x = Inr bs \<Longrightarrow> decode (bs @ rest) = Inr x"
  by (auto simp: encode_eq decode_eq run_iff split: if_splits)

lemma decode_iff: "decode bs = Inr x \<longleftrightarrow> (\<exists>pre rest. encode x = Inr pre \<and> bs = pre @ rest)"
  by (auto simp: encode_eq decode_eq run_iff)

lemma encode_inject: "encode x = Inr bs \<Longrightarrow> encode y = Inr bs \<Longrightarrow> x = y"
  using enc_inject by (auto simp: encode_eq split: if_splits)

lemma decode_truncated:
  "encode x = Inr bs \<Longrightarrow> n < length bs \<Longrightarrow> \<exists>e. decode (take n bs) = Inl e"
  using truncated by (auto simp: encode_eq decode_eq split: if_splits)

end

section \<open>The primitive codecs\<close>

interpretation u8: codec enc_u8 get_u8 "\<lambda>_. True"
proof
  show "get_u8 (enc_u8 x @ rest) = Inr (x, rest)" for x rest
    by (simp add: enc_u8_def put_u8_def)
  show "True \<and> bs = enc_u8 x @ rest" if "get_u8 bs = Inr (x, rest)" for bs x rest
    using that by (cases bs rule: get_u8.cases) (simp_all add: enc_u8_def put_u8_def)
qed

interpretation u16: codec enc_u16 get_u16 "\<lambda>_. True"
proof
  show "get_u16 (enc_u16 x @ rest) = Inr (x, rest)" for x rest
    by (simp add: enc_u16_def put_u16_def split_u16)
  show "True \<and> bs = enc_u16 x @ rest" if "get_u16 bs = Inr (x, rest)" for bs x rest
    using that by (cases bs rule: get_u16.cases) (auto simp: enc_u16_def put_u16_def byte_of_u16 simp del: drop_bit_or)
qed

interpretation u32: codec enc_u32 get_u32 "\<lambda>_. True"
proof
  show "get_u32 (enc_u32 x @ rest) = Inr (x, rest)" for x rest
    by (simp add: enc_u32_def put_u32_def split_u32)
  show "True \<and> bs = enc_u32 x @ rest" if "get_u32 bs = Inr (x, rest)" for bs x rest
    using that by (cases bs rule: get_u32.cases) (auto simp: enc_u32_def put_u32_def byte_of_u32 simp del: drop_bit_or)
qed

interpretation str: codec enc_str get_str short_str
proof
  show "get_str (enc_str x @ rest) = Inr (x, rest)" if "short_str x" for x rest
    using that
    by (simp add: get_str_def enc_str_def put_u16_enc u16.step short_str_def unat_of_nat_u16)
  show "short_str x \<and> bs = enc_str x @ rest" if "get_str bs = Inr (x, rest)" for bs x rest
  proof -
    from that obtain n mid where n: "bs = enc_u16 n @ mid" "unat n \<le> length mid"
      "x = string_of_bytes (take (unat n) mid)" "rest = drop (unat n) mid"
      by (auto simp: get_str_def u16.then_iff split: if_splits)
    with unat_less_65536 [of n] show ?thesis
      by (simp add: short_str_def enc_str_def put_u16_enc)
  qed
qed

text \<open>\<open>wire\<close>: reading back the encoding that is at the front of the buffer.\<close>

lemmas wire = u8.step u16.step u32.step str.step u8.step_last u16.step_last u32.step_last
  str.step_last

text \<open>\<open>wire_iff\<close>: what a successful read says about the buffer.\<close>

lemmas wire_iff = u8.then_iff u16.then_iff u32.then_iff str.then_iff

text \<open>
  The idiom of the protocol: a 16-bit count, then that many items. \<open>counted_iff\<close> is the whole
  behaviour of a reader of it, \<open>counted_step\<close> the reading back.
\<close>

context counted_codec
begin

lemma counted_iff:
  "and_then get_u16 (\<lambda>n. and_then (get_n dec (unat n)) f) bs = Inr (y, rest)
     \<longleftrightarrow> (\<exists>xs mid. length xs < 65536 \<and> list_all valid xs
           \<and> bs = enc_u16 (word_of_nat (length xs)) @ concat (map enc xs) @ mid
           \<and> f xs mid = Inr (y, rest))" (is "?l \<longleftrightarrow> ?r")
proof
  assume ?l
  then obtain n xs mid where n: "length xs = unat n" and "list_all valid xs"
    "bs = enc_u16 n @ concat (map enc xs) @ mid" "f xs mid = Inr (y, rest)"
    by (auto simp: u16.then_iff items.then_iff)
  moreover from n have "n = word_of_nat (length xs)" by simp
  moreover from n have "length xs < 65536" using unat_less_65536 [of n] by simp
  ultimately show ?r by blast
next
  assume ?r
  then show ?l by (auto simp: u16.step items.step unat_of_nat_u16)
qed

lemma counted_step:
  "length xs < 65536 \<Longrightarrow> list_all valid xs
     \<Longrightarrow> and_then get_u16 (\<lambda>n. and_then (get_n dec (unat n)) f)
           (enc_u16 (word_of_nat (length xs)) @ concat (map enc xs) @ mid) = f xs mid"
  by (simp add: u16.step items.step unat_of_nat_u16)

end

end
