(* ===== verification/Proto.thy ===== *)
theory Proto
  imports Wire
begin

text \<open>
  The messages of \<^verbatim>\<open>proto.hpp\<close>: the message types, one record per message structure, and the
  \<^verbatim>\<open>encode_*\<close> and \<^verbatim>\<open>decode_*\<close> functions in the order of the header. For each message \<open>enc_m\<close> is
  the byte layout and \<open>m_parser\<close> the sequence of reads; the interpretations of \<open>message\<close> show
  that encoder and decoder of each message are inverse to each other.
\<close>

section \<open>Message types\<close>

datatype msg_type =
    REGISTER_REQ
  | REGISTER_ACK
  | REGISTER_NACK
  | STATUS_REPORT
  | CMD
  | FAULT_REPORT
  | FAULT_ACK
  | ALARM_UP
  | ALARM_ACK
  | REGION_SYNC_UP
  | REGION_SYNC_ACK
  | ADMIN_SNAPSHOT_REQ
  | ADMIN_SNAPSHOT_ACK

fun msg_code :: "msg_type \<Rightarrow> u8" where
  "msg_code REGISTER_REQ = 1"
| "msg_code REGISTER_ACK = 2"
| "msg_code REGISTER_NACK = 3"
| "msg_code STATUS_REPORT = 4"
| "msg_code CMD = 5"
| "msg_code FAULT_REPORT = 6"
| "msg_code FAULT_ACK = 7"
| "msg_code ALARM_UP = 22"
| "msg_code ALARM_ACK = 23"
| "msg_code REGION_SYNC_UP = 20"
| "msg_code REGION_SYNC_ACK = 21"
| "msg_code ADMIN_SNAPSHOT_REQ = 40"
| "msg_code ADMIN_SNAPSHOT_ACK = 41"

instantiation msg_type :: enum
begin

definition enum_msg_type :: "msg_type list" where
  "enum_msg_type = [REGISTER_REQ, REGISTER_ACK, REGISTER_NACK, STATUS_REPORT, CMD, FAULT_REPORT,
     FAULT_ACK, ALARM_UP, ALARM_ACK, REGION_SYNC_UP, REGION_SYNC_ACK, ADMIN_SNAPSHOT_REQ,
     ADMIN_SNAPSHOT_ACK]"

definition enum_all_msg_type :: "(msg_type \<Rightarrow> bool) \<Rightarrow> bool" where
  "enum_all_msg_type P \<longleftrightarrow> list_all P Enum.enum"

definition enum_ex_msg_type :: "(msg_type \<Rightarrow> bool) \<Rightarrow> bool" where
  "enum_ex_msg_type P \<longleftrightarrow> list_ex P Enum.enum"

instance
proof
  have all: "t \<in> set (Enum.enum :: msg_type list)" for t
    by (cases t) (simp_all add: enum_msg_type_def)
  then show univ: "(UNIV :: msg_type set) = set Enum.enum" by auto
  show "distinct (Enum.enum :: msg_type list)" by (simp add: enum_msg_type_def)
  show "Enum.enum_all P \<longleftrightarrow> Ball UNIV P" for P :: "msg_type \<Rightarrow> bool"
    by (simp add: enum_all_msg_type_def univ list_all_iff)
  show "Enum.enum_ex P \<longleftrightarrow> Bex UNIV P" for P :: "msg_type \<Rightarrow> bool"
    by (simp add: enum_ex_msg_type_def univ list_ex_iff)
qed

end

text \<open>
  \<^verbatim>\<open>static_cast<MsgType>(b)\<close> followed by a \<^verbatim>\<open>switch\<close>: a byte that is no enumerator falls into
  the \<^verbatim>\<open>default\<close> branch, here \<open>None\<close>.
\<close>

definition msg_type_of :: "u8 \<Rightarrow> msg_type option" where
  "msg_type_of b = find (\<lambda>t. msg_code t = b) Enum.enum"

lemma msg_code_inject: "msg_code s = msg_code t \<longleftrightarrow> s = t"
  by (cases s; cases t) simp_all

lemma msg_type_of_code [simp]: "msg_type_of (msg_code t) = Some t"
  by (cases t) (simp_all add: msg_type_of_def enum_msg_type_def)

lemma msg_type_of_eq_Some: "msg_type_of b = Some t \<longleftrightarrow> b = msg_code t"
  by (auto simp: msg_type_of_def find_Some_iff) (metis msg_type_of_code msg_type_of_def find_Some_iff)

text \<open>
  \<^verbatim>\<open>enum class DeviceType : uint8_t\<close> has two enumerators but every byte is a value of it, and the
  decoder casts without a check.
\<close>

type_synonym device_type = u8

definition LUMINAIRE :: device_type where
  "LUMINAIRE = 1"

definition SENSOR :: device_type where
  "SENSOR = 2"

section \<open>Message structures\<close>

record register_req =
  req_type :: device_type
  req_uri :: string
  req_zone_id :: u32

record register_ack =
  rack_server_time_unix :: u32

record status_report =
  sr_uri :: string
  sr_zone_id :: u32
  sr_on :: u8
  sr_intensity :: u8
  sr_power_mw :: u32

record sls_command =
  cmd_uri :: string
  cmd_cmd :: u8
  cmd_value :: u8

record fault_report =
  flt_uri :: string
  flt_zone_id :: u32
  flt_code :: u8
  flt_text :: string

record zone_device_summary =
  zs_zone_id :: u32
  zs_lamp_total :: u16
  zs_lamp_on :: u16
  zs_lamp_fault :: u16
  zs_sensor_total :: u16
  zs_sensor_fault :: u16

record region_sync_up =
  up_region_id :: u32
  up_version :: u32
  up_zone_power_sum :: "(u32 \<times> u32) list"
  up_zone_device_summary :: "zone_device_summary list"

record region_sync_ack =
  sack_region_id :: u32
  sack_version :: u32
  sack_ok :: u8

record alarm_up =
  al_region_id :: u32
  al_ts_unix :: u32
  al_device_type :: u8
  al_zone_id :: u32
  al_code :: u8
  al_uri :: string
  al_text :: string

record alarm_ack =
  aack_region_id :: u32
  aack_ts_unix :: u32
  aack_ok :: u8

section \<open>Encoders and decoders\<close>

subsection \<open>REGISTER_REQ and REGISTER_ACK\<close>

definition encode_register_req :: "register_req \<Rightarrow> bytes result" where
  "encode_register_req r =
     bind_result (put_str (put_u8 [] (req_type r)) (req_uri r)) (\<lambda>b.
     Inr (put_u32 b (req_zone_id r)))"

definition register_req_parser :: "register_req parser" where
  "register_req_parser =
     and_then get_u8 (\<lambda>t.
     and_then get_str (\<lambda>uri.
     and_then get_u32 (\<lambda>z.
     ret \<lparr>req_type = t, req_uri = uri, req_zone_id = z\<rparr>)))"

definition decode_register_req :: "bytes \<Rightarrow> register_req result" where
  "decode_register_req bs = run_parser register_req_parser bs"

definition encode_register_ack :: "register_ack \<Rightarrow> bytes" where
  "encode_register_ack a = put_u32 [] (rack_server_time_unix a)"

definition register_ack_parser :: "register_ack parser" where
  "register_ack_parser = and_then get_u32 (\<lambda>t. ret \<lparr>rack_server_time_unix = t\<rparr>)"

definition decode_register_ack :: "bytes \<Rightarrow> register_ack result" where
  "decode_register_ack bs = run_parser register_ack_parser bs"

subsection \<open>ALARM_UP and ALARM_ACK\<close>

definition encode_alarm_up :: "alarm_up \<Rightarrow> bytes result" where
  "encode_alarm_up a =
     (let b = put_u32 [] (al_region_id a);
          b = put_u32 b (al_ts_unix a);
          b = put_u8 b (al_device_type a);
          b = put_u32 b (al_zone_id a);
          b = put_u8 b (al_code a)
      in bind_result (put_str b (al_uri a)) (\<lambda>b.
         put_str b (al_text a)))"

definition alarm_up_parser :: "alarm_up parser" where
  "alarm_up_parser =
     and_then get_u32 (\<lambda>rid.
     and_then get_u32 (\<lambda>ts.
     and_then get_u8 (\<lambda>dt.
     and_then get_u32 (\<lambda>z.
     and_then get_u8 (\<lambda>c.
     and_then get_str (\<lambda>uri.
     and_then get_str (\<lambda>text.
     ret \<lparr>al_region_id = rid, al_ts_unix = ts, al_device_type = dt, al_zone_id = z,
          al_code = c, al_uri = uri, al_text = text\<rparr>)))))))"

definition decode_alarm_up :: "bytes \<Rightarrow> alarm_up result" where
  "decode_alarm_up bs = run_parser alarm_up_parser bs"

definition encode_alarm_ack :: "alarm_ack \<Rightarrow> bytes" where
  "encode_alarm_ack a =
     put_u8 (put_u32 (put_u32 [] (aack_region_id a)) (aack_ts_unix a)) (aack_ok a)"

definition alarm_ack_parser :: "alarm_ack parser" where
  "alarm_ack_parser =
     and_then get_u32 (\<lambda>rid.
     and_then get_u32 (\<lambda>ts.
     and_then get_u8 (\<lambda>ok.
     ret \<lparr>aack_region_id = rid, aack_ts_unix = ts, aack_ok = ok\<rparr>)))"

definition decode_alarm_ack :: "bytes \<Rightarrow> alarm_ack result" where
  "decode_alarm_ack bs = run_parser alarm_ack_parser bs"

subsection \<open>STATUS_REPORT, CMD and FAULT_REPORT\<close>

definition encode_status_report :: "status_report \<Rightarrow> bytes result" where
  "encode_status_report s =
     bind_result (put_str [] (sr_uri s)) (\<lambda>b.
     let b = put_u32 b (sr_zone_id s);
         b = put_u8 b (sr_on s);
         b = put_u8 b (sr_intensity s)
     in Inr (put_u32 b (sr_power_mw s)))"

definition status_report_parser :: "status_report parser" where
  "status_report_parser =
     and_then get_str (\<lambda>uri.
     and_then get_u32 (\<lambda>z.
     and_then get_u8 (\<lambda>on.
     and_then get_u8 (\<lambda>i.
     and_then get_u32 (\<lambda>p.
     ret \<lparr>sr_uri = uri, sr_zone_id = z, sr_on = on, sr_intensity = i, sr_power_mw = p\<rparr>)))))"

definition decode_status_report :: "bytes \<Rightarrow> status_report result" where
  "decode_status_report bs = run_parser status_report_parser bs"

definition encode_command :: "sls_command \<Rightarrow> bytes result" where
  "encode_command c =
     bind_result (put_str [] (cmd_uri c)) (\<lambda>b.
     Inr (put_u8 (put_u8 b (cmd_cmd c)) (cmd_value c)))"

definition command_parser :: "sls_command parser" where
  "command_parser =
     and_then get_str (\<lambda>uri.
     and_then get_u8 (\<lambda>c.
     and_then get_u8 (\<lambda>v.
     ret \<lparr>cmd_uri = uri, cmd_cmd = c, cmd_value = v\<rparr>)))"

definition decode_command :: "bytes \<Rightarrow> sls_command result" where
  "decode_command bs = run_parser command_parser bs"

definition encode_fault_report :: "fault_report \<Rightarrow> bytes result" where
  "encode_fault_report f =
     bind_result (put_str [] (flt_uri f)) (\<lambda>b.
     put_str (put_u8 (put_u32 b (flt_zone_id f)) (flt_code f)) (flt_text f))"

definition fault_report_parser :: "fault_report parser" where
  "fault_report_parser =
     and_then get_str (\<lambda>uri.
     and_then get_u32 (\<lambda>z.
     and_then get_u8 (\<lambda>c.
     and_then get_str (\<lambda>text.
     ret \<lparr>flt_uri = uri, flt_zone_id = z, flt_code = c, flt_text = text\<rparr>))))"

definition decode_fault_report :: "bytes \<Rightarrow> fault_report result" where
  "decode_fault_report bs = run_parser fault_report_parser bs"

subsection \<open>REGION_SYNC_UP and REGION_SYNC_ACK\<close>

text \<open>
  The two loops of the encoder append one item per round. The counts in front of them are cast
  to 16 bits without a check.
\<close>

fun put_zone_powers :: "bytes \<Rightarrow> (u32 \<times> u32) list \<Rightarrow> bytes" where
  "put_zone_powers b [] = b"
| "put_zone_powers b (zp # zps) = put_zone_powers (put_u32 (put_u32 b (fst zp)) (snd zp)) zps"

definition put_zone_summary :: "bytes \<Rightarrow> zone_device_summary \<Rightarrow> bytes" where
  "put_zone_summary b zs =
     (let b = put_u32 b (zs_zone_id zs);
          b = put_u16 b (zs_lamp_total zs);
          b = put_u16 b (zs_lamp_on zs);
          b = put_u16 b (zs_lamp_fault zs);
          b = put_u16 b (zs_sensor_total zs)
      in put_u16 b (zs_sensor_fault zs))"

fun put_zone_summaries :: "bytes \<Rightarrow> zone_device_summary list \<Rightarrow> bytes" where
  "put_zone_summaries b [] = b"
| "put_zone_summaries b (zs # rest) = put_zone_summaries (put_zone_summary b zs) rest"

definition encode_region_sync_up :: "region_sync_up \<Rightarrow> bytes" where
  "encode_region_sync_up s =
     (let b = put_u32 [] (up_region_id s);
          b = put_u32 b (up_version s);
          b = put_u16 b (word_of_nat (length (up_zone_power_sum s)));
          b = put_zone_powers b (up_zone_power_sum s);
          b = put_u16 b (word_of_nat (length (up_zone_device_summary s)))
      in put_zone_summaries b (up_zone_device_summary s))"

definition zone_power_parser :: "(u32 \<times> u32) parser" where
  "zone_power_parser = and_then get_u32 (\<lambda>z. and_then get_u32 (\<lambda>pw. ret (z, pw)))"

definition zone_summary_parser :: "zone_device_summary parser" where
  "zone_summary_parser =
     and_then get_u32 (\<lambda>z.
     and_then get_u16 (\<lambda>lt.
     and_then get_u16 (\<lambda>lo.
     and_then get_u16 (\<lambda>lf.
     and_then get_u16 (\<lambda>st.
     and_then get_u16 (\<lambda>sf.
     ret \<lparr>zs_zone_id = z, zs_lamp_total = lt, zs_lamp_on = lo, zs_lamp_fault = lf,
          zs_sensor_total = st, zs_sensor_fault = sf\<rparr>))))))"

text \<open>
  The decoder fills the structure field by field. It returns early when the buffer ends after
  the first block: a peer that sends no device summary is read as sending an empty one.
\<close>

definition region_sync_tail :: "region_sync_up \<Rightarrow> region_sync_up parser" where
  "region_sync_tail s bs =
     (if bs = [] then ret s bs
      else and_then get_u16 (\<lambda>scnt.
        and_then (get_n zone_summary_parser (unat scnt)) (\<lambda>zss.
        ret (s\<lparr>up_zone_device_summary := zss\<rparr>))) bs)"

definition region_sync_up_parser :: "region_sync_up parser" where
  "region_sync_up_parser =
     and_then get_u32 (\<lambda>rid.
     and_then get_u32 (\<lambda>ver.
     and_then get_u16 (\<lambda>cnt.
     and_then (get_n zone_power_parser (unat cnt)) (\<lambda>zps.
     region_sync_tail \<lparr>up_region_id = rid, up_version = ver, up_zone_power_sum = zps,
       up_zone_device_summary = []\<rparr>))))"

definition decode_region_sync_up :: "bytes \<Rightarrow> region_sync_up result" where
  "decode_region_sync_up bs = run_parser region_sync_up_parser bs"

definition encode_region_sync_ack :: "region_sync_ack \<Rightarrow> bytes" where
  "encode_region_sync_ack a =
     put_u8 (put_u32 (put_u32 [] (sack_region_id a)) (sack_version a)) (sack_ok a)"

definition region_sync_ack_parser :: "region_sync_ack parser" where
  "region_sync_ack_parser =
     and_then get_u32 (\<lambda>rid.
     and_then get_u32 (\<lambda>ver.
     and_then get_u8 (\<lambda>ok.
     ret \<lparr>sack_region_id = rid, sack_version = ver, sack_ok = ok\<rparr>)))"

definition decode_region_sync_ack :: "bytes \<Rightarrow> region_sync_ack result" where
  "decode_region_sync_ack bs = run_parser region_sync_ack_parser bs"

section \<open>Byte layouts\<close>

named_theorems layout

definition enc_register_req :: "register_req \<Rightarrow> bytes" where
  [layout]: "enc_register_req r =
     enc_u8 (req_type r) @ enc_str (req_uri r) @ enc_u32 (req_zone_id r)"

definition enc_alarm_up :: "alarm_up \<Rightarrow> bytes" where
  [layout]: "enc_alarm_up a =
     enc_u32 (al_region_id a) @ enc_u32 (al_ts_unix a) @ enc_u8 (al_device_type a)
     @ enc_u32 (al_zone_id a) @ enc_u8 (al_code a) @ enc_str (al_uri a) @ enc_str (al_text a)"

definition enc_status_report :: "status_report \<Rightarrow> bytes" where
  [layout]: "enc_status_report s =
     enc_str (sr_uri s) @ enc_u32 (sr_zone_id s) @ enc_u8 (sr_on s) @ enc_u8 (sr_intensity s)
     @ enc_u32 (sr_power_mw s)"

definition enc_command :: "sls_command \<Rightarrow> bytes" where
  [layout]: "enc_command c = enc_str (cmd_uri c) @ enc_u8 (cmd_cmd c) @ enc_u8 (cmd_value c)"

definition enc_fault_report :: "fault_report \<Rightarrow> bytes" where
  [layout]: "enc_fault_report f =
     enc_str (flt_uri f) @ enc_u32 (flt_zone_id f) @ enc_u8 (flt_code f) @ enc_str (flt_text f)"

definition enc_zone_power :: "u32 \<times> u32 \<Rightarrow> bytes" where
  [layout]: "enc_zone_power zp = enc_u32 (fst zp) @ enc_u32 (snd zp)"

definition enc_zone_summary :: "zone_device_summary \<Rightarrow> bytes" where
  [layout]: "enc_zone_summary zs =
     enc_u32 (zs_zone_id zs) @ enc_u16 (zs_lamp_total zs) @ enc_u16 (zs_lamp_on zs)
     @ enc_u16 (zs_lamp_fault zs) @ enc_u16 (zs_sensor_total zs) @ enc_u16 (zs_sensor_fault zs)"

text \<open>A REGION_SYNC_UP without the device summary, as the decoder also accepts it.\<close>

definition enc_region_sync_head :: "region_sync_up \<Rightarrow> bytes" where
  "enc_region_sync_head s =
     enc_u32 (up_region_id s) @ enc_u32 (up_version s)
     @ enc_u16 (word_of_nat (length (up_zone_power_sum s)))
     @ concat (map enc_zone_power (up_zone_power_sum s))"

definition counts_fit :: "region_sync_up \<Rightarrow> bool" where
  "counts_fit s \<longleftrightarrow>
     length (up_zone_power_sum s) < 65536 \<and> length (up_zone_device_summary s) < 65536"

section \<open>Every message codec keeps the contract\<close>

interpretation register_req: message enc_register_req register_req_parser
    "\<lambda>r. short_str (req_uri r)" encode_register_req decode_register_req
  by unfold_locales
    (auto simp: layout register_req_parser_def wire wire_iff encode_register_req_def put
      decode_register_req_def)

interpretation register_ack: message encode_register_ack register_ack_parser "\<lambda>_. True"
    "\<lambda>a. Inr (encode_register_ack a)" decode_register_ack
  by unfold_locales
    (auto simp: register_ack_parser_def encode_register_ack_def put wire wire_iff
      decode_register_ack_def)

interpretation alarm_up: message enc_alarm_up alarm_up_parser
    "\<lambda>a. short_str (al_uri a) \<and> short_str (al_text a)" encode_alarm_up decode_alarm_up
  by unfold_locales
    (auto simp: layout alarm_up_parser_def wire wire_iff encode_alarm_up_def put Let_def
      decode_alarm_up_def)

interpretation alarm_ack: message encode_alarm_ack alarm_ack_parser "\<lambda>_. True"
    "\<lambda>a. Inr (encode_alarm_ack a)" decode_alarm_ack
  by unfold_locales
    (auto simp: alarm_ack_parser_def encode_alarm_ack_def put wire wire_iff decode_alarm_ack_def)

interpretation status_report: message enc_status_report status_report_parser
    "\<lambda>s. short_str (sr_uri s)" encode_status_report decode_status_report
  by unfold_locales
    (auto simp: layout status_report_parser_def wire wire_iff encode_status_report_def put
      Let_def decode_status_report_def)

interpretation sls_command: message enc_command command_parser
    "\<lambda>c. short_str (cmd_uri c)" encode_command decode_command
  by unfold_locales
    (auto simp: layout command_parser_def wire wire_iff encode_command_def put decode_command_def)

interpretation fault_report: message enc_fault_report fault_report_parser
    "\<lambda>f. short_str (flt_uri f) \<and> short_str (flt_text f)" encode_fault_report decode_fault_report
  by unfold_locales
    (auto simp: layout fault_report_parser_def wire wire_iff encode_fault_report_def put
      decode_fault_report_def)

interpretation region_sync_ack: message encode_region_sync_ack region_sync_ack_parser "\<lambda>_. True"
    "\<lambda>a. Inr (encode_region_sync_ack a)" decode_region_sync_ack
  by unfold_locales
    (auto simp: region_sync_ack_parser_def encode_region_sync_ack_def put wire wire_iff
      decode_region_sync_ack_def)

interpretation zone_power: counted_codec enc_zone_power zone_power_parser "\<lambda>_. True"
  by unfold_locales (auto simp: layout zone_power_parser_def wire wire_iff)

interpretation zone_summary: counted_codec enc_zone_summary zone_summary_parser "\<lambda>_. True"
  by unfold_locales (auto simp: layout zone_summary_parser_def wire wire_iff)

section \<open>REGION_SYNC_UP\<close>

lemma put_zone_powers_eq [put]: "put_zone_powers b zps = b @ concat (map enc_zone_power zps)"
  by (induction b zps rule: put_zone_powers.induct) (simp_all add: put layout)

lemma put_zone_summaries_eq [put]: "put_zone_summaries b zss = b @ concat (map enc_zone_summary zss)"
  by (induction b zss rule: put_zone_summaries.induct)
    (simp_all add: put layout put_zone_summary_def Let_def)

lemma encode_region_sync_up_eq:
  "encode_region_sync_up s = enc_region_sync_head s
     @ enc_u16 (word_of_nat (length (up_zone_device_summary s)))
     @ concat (map enc_zone_summary (up_zone_device_summary s))"
  by (simp add: encode_region_sync_up_def enc_region_sync_head_def put Let_def)

lemma list_all_True [simp]: "list_all (\<lambda>_. True) xs"
  by (simp add: list_all_iff)

lemma enc_u16_nonempty [simp]: "enc_u16 n \<noteq> []"
  by (simp add: enc_u16_def put_u16_def)

lemma region_sync_tail_iff:
  "region_sync_tail s0 bs = Inr (s, rest) \<longleftrightarrow>
     bs = [] \<and> rest = [] \<and> s = s0
     \<or> (\<exists>zss. length zss < 65536 \<and> s = s0\<lparr>up_zone_device_summary := zss\<rparr>
          \<and> bs = enc_u16 (word_of_nat (length zss)) @ concat (map enc_zone_summary zss) @ rest)"
  by (auto simp: region_sync_tail_def zone_summary.counted_iff)

lemma region_sync_up_parser_cases:
  assumes "region_sync_up_parser bs = Inr (s, rest)"
  obtains rid ver zps mid where "length zps < 65536"
    "bs = enc_u32 rid @ enc_u32 ver @ enc_u16 (word_of_nat (length zps))
       @ concat (map enc_zone_power zps) @ mid"
    "region_sync_tail \<lparr>up_region_id = rid, up_version = ver, up_zone_power_sum = zps,
       up_zone_device_summary = []\<rparr> mid = Inr (s, rest)"
  using assms unfolding region_sync_up_parser_def u32.then_iff zone_power.counted_iff
  by (elim exE conjE) (rule that; simp)

lemma region_sync_up_parser_head:
  "length (up_zone_power_sum s) < 65536 \<Longrightarrow>
     region_sync_up_parser (enc_region_sync_head s @ mid)
       = region_sync_tail (s\<lparr>up_zone_device_summary := []\<rparr>) mid"
  by (cases s) (simp add: region_sync_up_parser_def enc_region_sync_head_def u32.step
      zone_power.counted_step)

lemma region_sync_up_parser_iff:
  "region_sync_up_parser bs = Inr (s, rest) \<longleftrightarrow>
     counts_fit s \<and> (bs = encode_region_sync_up s @ rest
       \<or> up_zone_device_summary s = [] \<and> rest = [] \<and> bs = enc_region_sync_head s)" (is "?l \<longleftrightarrow> ?r")
proof
  assume ?l
  then show ?r
    by (rule region_sync_up_parser_cases)
      (auto simp: region_sync_tail_iff encode_region_sync_up_eq enc_region_sync_head_def counts_fit_def)
next
  assume r: ?r
  then have fit: "length (up_zone_power_sum s) < 65536" "length (up_zone_device_summary s) < 65536"
    by (auto simp: counts_fit_def)
  from r consider "bs = encode_region_sync_up s @ rest"
    | "up_zone_device_summary s = []" "rest = []" "bs = enc_region_sync_head s @ []"
    by auto
  then show ?l
    by cases (simp_all add: encode_region_sync_up_eq region_sync_up_parser_head fit
        region_sync_tail_def zone_summary.counted_step
        region_sync_up_parser_head [of s "[]", simplified])
qed

lemma region_sync_up_decode_iff:
  "decode_region_sync_up bs = Inr s \<longleftrightarrow>
     counts_fit s
     \<and> ((\<exists>junk. bs = encode_region_sync_up s @ junk)
        \<or> up_zone_device_summary s = [] \<and> bs = enc_region_sync_head s)"
  by (auto simp: decode_region_sync_up_def run_parser_eq_Inr region_sync_up_parser_iff)

lemma decode_encode_region_sync_up:
  "counts_fit s \<Longrightarrow> decode_region_sync_up (encode_region_sync_up s @ junk) = Inr s"
  by (auto simp: region_sync_up_decode_iff)

lemma enc_region_sync_head_summary [simp]:
  "enc_region_sync_head (s\<lparr>up_zone_device_summary := zss\<rparr>) = enc_region_sync_head s"
  by (simp add: enc_region_sync_head_def)

lemma region_sync_truncated:
  assumes "counts_fit up" "n < length (encode_region_sync_up up)"
    and "decode_region_sync_up (take n (encode_region_sync_up up)) = Inr s"
  shows "n = length (enc_region_sync_head up) \<and> s = up\<lparr>up_zone_device_summary := []\<rparr>"
proof -
  let ?E = "encode_region_sync_up up"
  have E: "region_sync_up_parser ?E = Inr (up, [])"
    using assms(1) by (simp add: region_sync_up_parser_iff)
  from assms(3) consider junk where "take n ?E = encode_region_sync_up s @ junk" "counts_fit s"
    | "up_zone_device_summary s = []" "take n ?E = enc_region_sync_head s" "counts_fit s"
    by (auto simp: region_sync_up_decode_iff)
  then show ?thesis
  proof cases
    case 1
    then have "?E = encode_region_sync_up s @ (junk @ drop n ?E)"
      by (metis append.assoc append_take_drop_id)
    then have "decode_region_sync_up ?E = Inr s"
      using 1(2) by (metis decode_encode_region_sync_up)
    moreover have "decode_region_sync_up ?E = Inr up"
      using decode_encode_region_sync_up [OF assms(1), of "[]"] by simp
    ultimately have "s = up" by simp
    with 1(1) assms(2) show ?thesis by (metis append_take_drop_id leD length_append length_take
        le_add1 min.absorb2 nat_less_le)
  next
    case 2
    then have "?E = enc_region_sync_head s @ drop n ?E" by (metis append_take_drop_id)
    then have "region_sync_tail (s\<lparr>up_zone_device_summary := []\<rparr>) (drop n ?E) = Inr (up, [])"
      using 2(3) E region_sync_up_parser_head [of s "drop n ?E"] by (simp add: counts_fit_def)
    then have "s = up\<lparr>up_zone_device_summary := []\<rparr>"
      using 2(1) by (auto simp: region_sync_tail_iff)
    with 2(2) assms(2) show ?thesis by (metis enc_region_sync_head_summary length_take min.absorb2 nat_less_le)
  qed
qed

section \<open>Properties\<close>

text \<open>
  C20: The four messages between devices and the regional server, and the alarm, are read back
  exactly: a decoder returns a message if and only if the bytes begin with what the encoder writes
  for it; so every encoded message is recovered whatever follows it, no two messages share an
  encoding, and every other byte sequence is rejected with an exception.
\<close>

theorem message_codecs_exact:
  "(decode_register_req bs = Inr r
      \<longleftrightarrow> (\<exists>pre junk. encode_register_req r = Inr pre \<and> bs = pre @ junk))
   \<and> (decode_status_report bs = Inr s
      \<longleftrightarrow> (\<exists>pre junk. encode_status_report s = Inr pre \<and> bs = pre @ junk))
   \<and> (decode_command bs = Inr c
      \<longleftrightarrow> (\<exists>pre junk. encode_command c = Inr pre \<and> bs = pre @ junk))
   \<and> (decode_fault_report bs = Inr f
      \<longleftrightarrow> (\<exists>pre junk. encode_fault_report f = Inr pre \<and> bs = pre @ junk))
   \<and> (decode_alarm_up bs = Inr a
      \<longleftrightarrow> (\<exists>pre junk. encode_alarm_up a = Inr pre \<and> bs = pre @ junk))"
  by (intro conjI register_req.decode_iff status_report.decode_iff sls_command.decode_iff
      fault_report.decode_iff alarm_up.decode_iff)

text \<open>
  C21: The complete behaviour of the decoder of REGION_SYNC_UP: it returns \<open>s\<close> if and only if the
  counts of \<open>s\<close> fit in 16 bits and the buffer begins with the encoding of \<open>s\<close>, or \<open>s\<close> has no
  device summary and the buffer is exactly the older layout without one.
\<close>

theorem region_sync_up_exact:
  "decode_region_sync_up bs = Inr s \<longleftrightarrow>
     counts_fit s
     \<and> ((\<exists>junk. bs = encode_region_sync_up s @ junk)
        \<or> up_zone_device_summary s = [] \<and> bs = enc_region_sync_head s)"
  by (rule region_sync_up_decode_iff)

text \<open>
  The casts of the two counts to 16 bits lose information silently: a synchronisation with
  65536 or more zones never decodes to what was encoded.
\<close>

theorem region_sync_up_overflow:
  assumes "65536 \<le> length (up_zone_power_sum s) \<or> 65536 \<le> length (up_zone_device_summary s)"
  shows "decode_region_sync_up (encode_region_sync_up s @ junk) \<noteq> Inr s"
  using assms by (auto simp: region_sync_up_decode_iff counts_fit_def)

lemma region_sync_up_overflow_witness:
  "let s = \<lparr>up_region_id = 1, up_version = 1, up_zone_power_sum = replicate 65536 (1, 5),
       up_zone_device_summary = []\<rparr>
   in decode_region_sync_up (encode_region_sync_up s @ []) \<noteq> Inr s"
  unfolding Let_def by (rule region_sync_up_overflow) simp

text \<open>
  A REGION_SYNC_UP that loses its tail is rejected at every length but one: cut exactly
  before the count of the device summary, it is accepted as a synchronisation whose summary is
  empty.
\<close>

theorem region_sync_up_cut:
  assumes "counts_fit up" "n < length (encode_region_sync_up up)"
  shows "case decode_region_sync_up (take n (encode_region_sync_up up)) of
      Inl e \<Rightarrow> n \<noteq> length (enc_region_sync_head up)
    | Inr s \<Rightarrow> n = length (enc_region_sync_head up) \<and> s = up\<lparr>up_zone_device_summary := []\<rparr>"
proof (cases "decode_region_sync_up (take n (encode_region_sync_up up))")
  case (Inl e)
  have "take (length (enc_region_sync_head up)) (encode_region_sync_up up)
      = enc_region_sync_head (up\<lparr>up_zone_device_summary := []\<rparr>)"
    by (simp add: encode_region_sync_up_eq)
  moreover have "counts_fit (up\<lparr>up_zone_device_summary := []\<rparr>)"
    using assms(1) by (simp add: counts_fit_def)
  ultimately have "decode_region_sync_up (take (length (enc_region_sync_head up))
      (encode_region_sync_up up)) = Inr (up\<lparr>up_zone_device_summary := []\<rparr>)"
    by (simp only: region_sync_up_decode_iff) simp
  with Inl show ?thesis by auto
next
  case (Inr s)
  with region_sync_truncated [OF assms Inr] show ?thesis by simp
qed

definition example_sync :: region_sync_up where
  "example_sync = \<lparr>up_region_id = 1, up_version = 7, up_zone_power_sum = [(1, 94000)],
     up_zone_device_summary = [\<lparr>zs_zone_id = 1, zs_lamp_total = 1, zs_lamp_on = 1,
       zs_lamp_fault = 0, zs_sensor_total = 1, zs_sensor_fault = 0\<rparr>]\<rparr>"

lemma region_sync_up_cut_witness:
  "decode_region_sync_up (take 18 (encode_region_sync_up example_sync))
     = Inr (example_sync\<lparr>up_zone_device_summary := []\<rparr>)
   \<and> (\<exists>e. decode_region_sync_up (take 19 (encode_region_sync_up example_sync)) = Inl e)"
proof -
  have fit: "counts_fit example_sync" by (simp add: counts_fit_def example_sync_def)
  have len: "length (enc_region_sync_head example_sync) = 18"
    by (simp add: enc_region_sync_head_def example_sync_def enc_zone_power_def)
  then have "18 < length (encode_region_sync_up example_sync)"
    "19 < length (encode_region_sync_up example_sync)"
    by (simp_all add: encode_region_sync_up_eq example_sync_def enc_zone_summary_def)
  from this [THEN region_sync_up_cut [OF fit]] len show ?thesis
    by (simp split: sum.splits)
qed

end
