(* ===== verification/Frame.thy ===== *)
theory Frame
  imports Proto "HOL-Library.Sublist"
begin

text \<open>
  The framing of \<^verbatim>\<open>framed_tls.hpp\<close> and the two-stage readers (\<^verbatim>\<open>read_header\<close>, then \<^verbatim>\<open>read_body\<close>)
  that the sessions share: a frame is a 32-bit big-endian length, one type byte and the payload.
  The TLS stream itself is the sequence of bytes that asio delivers; \<^verbatim>\<open>async_read\<close> with a buffer
  of \<open>n\<close> bytes completes with exactly \<open>n\<close> bytes or with an error.
\<close>

section \<open>Host byte order\<close>

text \<open>
  The code copies integers with \<^verbatim>\<open>memcpy\<close>. The helpers of \<^verbatim>\<open>proto.hpp\<close> swap bytes
  unconditionally, so they are written for a little-endian host; \<open>mem32\<close> and \<open>load32\<close> are that
  host's memory layout of a \<^verbatim>\<open>uint32_t\<close>.
\<close>

definition mem32 :: "u32 \<Rightarrow> bytes" where
  "mem32 w = [ucast w, ucast (drop_bit 8 w), ucast (drop_bit 16 w), ucast (drop_bit 24 w)]"

fun load32 :: "bytes \<Rightarrow> u32" where
  "load32 (a # b # c # d # _) =
     push_bit 24 (ucast d) OR push_bit 16 (ucast c) OR push_bit 8 (ucast b) OR ucast a"
| "load32 _ = 0"

section \<open>Writing a frame\<close>

definition write_frame :: "msg_type \<Rightarrow> bytes \<Rightarrow> bytes" where
  "write_frame t payload =
     (let len = word_of_nat (1 + length payload);
          len_be = to_be32 len
      in mem32 len_be @ [msg_code t] @ payload)"

definition body_of :: "msg_type \<Rightarrow> bytes \<Rightarrow> bytes" where
  "body_of t payload = msg_code t # payload"

section \<open>Reading a frame\<close>

text \<open>
  \<open>read_frame\<close> is the blocking reader of the admin client, which accepts any length; \<open>None\<close> is
  the exception that \<^verbatim>\<open>asio::read\<close> throws at the end of the stream.
\<close>

definition read_frame :: "bytes \<Rightarrow> (bytes \<times> bytes) option" where
  "read_frame stream =
     (if length stream < 4 then None
      else let len = unat (from_be32 (load32 (take 4 stream))); rest = drop 4 stream
        in if length rest < len then None else Some (take len rest, drop len rest))"

text \<open>
  The server sessions and the lamp read the header first, refuse a length outside
  \<open>1 .. 1024*1024\<close>, and then read the body.
\<close>

definition max_body :: nat where
  "max_body = 1024 * 1024"

datatype recv =
    Read_error
  | Bad_length
  | Got_body bytes bytes

definition read_body :: "u32 \<Rightarrow> bytes \<Rightarrow> recv" where
  "read_body body_len stream =
     (if length stream < unat body_len then Read_error
      else Got_body (take (unat body_len) stream) (drop (unat body_len) stream))"

definition read_header :: "bytes \<Rightarrow> recv" where
  "read_header stream =
     (if length stream < 4 then Read_error
      else let body_len = from_be32 (load32 (take 4 stream))
        in if body_len < 1 \<or> body_len > 1024 * 1024 then Bad_length
           else read_body body_len (drop 4 stream))"

text \<open>
  The read loop of a session over the bytes that its peer sends: the bodies that reach
  \<^verbatim>\<open>on_message\<close>, in order, and whether the loop ended with an error of the stream or with a
  refused length.
\<close>

lemma read_header_shorter: "read_header s = Got_body b r \<Longrightarrow> length r < length s"
  by (auto simp: read_header_def read_body_def Let_def split: if_splits)

function read_loop :: "bytes \<Rightarrow> bytes list \<times> bool" where
  "read_loop stream =
     (case read_header stream of
        Read_error \<Rightarrow> ([], True)
      | Bad_length \<Rightarrow> ([], False)
      | Got_body body rest \<Rightarrow> (let (bodies, at_end) = read_loop rest in (body # bodies, at_end)))"
  by pat_completeness auto
termination
  by (relation "measure length") (auto dest: read_header_shorter)

declare read_loop.simps [simp del]

section \<open>Lemmas\<close>

lemma mem32_to_be32: "mem32 (to_be32 w) = enc_u32 w"
proof -
  have "to_be32 w = push_bit 24 (ucast (ucast w :: u8)) OR push_bit 16 (ucast (ucast (drop_bit 8 w) :: u8))
    OR push_bit 8 (ucast (ucast (drop_bit 16 w) :: u8)) OR ucast (ucast (drop_bit 24 w) :: u8)"
    by (subst split_u32 [of w, symmetric]) (rule to_be32_bytes)
  then show ?thesis
    by (simp add: mem32_def enc_u32_def put_u32_def byte_of_u32 del: drop_bit_or)
qed

lemma load32_mem32: "load32 (mem32 w @ rest) = w"
  by (simp add: mem32_def split_u32)

lemma write_frame_layout:
  "write_frame t payload = enc_u32 (word_of_nat (1 + length payload)) @ body_of t payload"
  by (simp add: write_frame_def mem32_to_be32 body_of_def Let_def)

lemma take_mem32: "take 4 (mem32 w @ rest) = mem32 w" "drop 4 (mem32 w @ rest) = rest"
  "length (mem32 w) = 4" "load32 (mem32 w) = w"
  using load32_mem32 [of w "[]"] by (simp_all add: mem32_def)

lemma length_body_of: "length (body_of t p) = Suc (length p)"
  by (simp add: body_of_def)

lemma body_of_nonempty [simp]: "body_of t p \<noteq> []"
  by (simp add: body_of_def)

lemma unat_length_body_of:
  "length p < 2 ^ 32 - 1 \<Longrightarrow> unat (word_of_nat (length (body_of t p)) :: u32) = length (body_of t p)"
  by (rule unat_of_nat_u32) (simp add: length_body_of)

lemma write_frame_eq:
  "write_frame t payload = mem32 (to_be32 (word_of_nat (length (body_of t payload)))) @ body_of t payload"
  by (simp add: write_frame_def body_of_def Let_def)

lemma read_header_frame:
  assumes "length payload < max_body"
  shows "read_header (write_frame t payload @ rest) = Got_body (body_of t payload) rest"
proof -
  let ?n = "word_of_nat (length (body_of t payload)) :: u32"
  have n: "unat ?n = length (body_of t payload)"
    by (rule unat_length_body_of) (use assms in \<open>simp add: max_body_def\<close>)
  then have "\<not> ?n < 1" "\<not> ?n > 1024 * 1024"
    using assms by (simp_all add: word_less_nat_alt max_body_def n, simp_all add: length_body_of)
  then show ?thesis
    by (simp add: read_header_def write_frame_eq take_mem32 read_body_def n)
qed

lemma read_header_oversize:
  assumes "max_body \<le> length payload" "length payload < 2 ^ 32 - 1"
  shows "read_header (write_frame t payload @ rest) = Bad_length"
proof -
  let ?n = "word_of_nat (length (body_of t payload)) :: u32"
  have "unat ?n = length (body_of t payload)"
    by (rule unat_length_body_of) fact
  then have "?n > 1024 * 1024"
    using assms by (simp add: word_less_nat_alt max_body_def length_body_of)
  then show ?thesis
    by (simp add: read_header_def write_frame_eq take_mem32)
qed

lemma read_loop_cons:
  "length p < max_body \<Longrightarrow> read_loop (write_frame t p @ rest)
     = (body_of t p # fst (read_loop rest), snd (read_loop rest))"
  by (simp add: read_loop.simps [of "write_frame t p @ rest"] read_header_frame split: prod.splits)

lemma read_loop_Nil [simp]: "read_loop [] = ([], True)"
  by (simp add: read_loop.simps [of "[]"] read_header_def)

lemma read_loop_frames:
  assumes "\<forall>(t, p) \<in> set ms. length p < max_body"
  shows "read_loop (concat (map (\<lambda>(t, p). write_frame t p) ms) @ rest)
    = (map (\<lambda>(t, p). body_of t p) ms @ fst (read_loop rest), snd (read_loop rest))"
  using assms by (induction ms) (auto simp: read_loop_cons)

lemma read_loop_oversize:
  assumes "max_body \<le> length p" "length p < 2 ^ 32 - 1"
  shows "read_loop (write_frame t p @ rest) = ([], False)"
  using read_header_oversize [OF assms, of t rest]
  by (simp add: read_loop.simps [of "write_frame t p @ rest"])

lemma read_frame_write_frame:
  assumes "length p < 2 ^ 32 - 1"
  shows "read_frame (write_frame t p @ rest) = Some (body_of t p, rest)"
  by (simp add: read_frame_def write_frame_eq take_mem32 unat_length_body_of [OF assms])

section \<open>Reading a stream that grows\<close>

lemma read_header_more:
  "read_header s = Got_body b r \<Longrightarrow> read_header (s @ xs) = Got_body b (r @ xs)"
  by (auto simp: read_header_def read_body_def Let_def split: if_splits)

lemma read_header_bad_more: "read_header s = Bad_length \<Longrightarrow> read_header (s @ xs) = Bad_length"
  by (auto simp: read_header_def read_body_def Let_def split: if_splits)

lemma read_loop_got:
  "read_header s = Got_body b r \<Longrightarrow> fst (read_loop s) = b # fst (read_loop r)"
  by (simp add: read_loop.simps [of s] split: prod.split)

lemma read_loop_bad: "read_header s = Bad_length \<Longrightarrow> fst (read_loop s) = []"
  by (simp add: read_loop.simps [of s])

lemma read_loop_mono: "prefix (fst (read_loop s)) (fst (read_loop (s @ xs)))"
proof (induction s rule: read_loop.induct)
  case (1 s)
  show ?case
  proof (cases "read_header s")
    case (Got_body b r)
    with 1 read_loop_got [OF Got_body] read_loop_got [OF read_header_more [OF Got_body], of xs]
    show ?thesis by simp
  qed (simp_all add: read_loop.simps [of s])
qed

lemma read_loop_sent:
  assumes "\<forall>(t, p) \<in> set ms. length p < max_body"
    and "prefix s (concat (map (\<lambda>(t, p). write_frame t p) ms))"
  shows "prefix (fst (read_loop s)) (map (\<lambda>(t, p). body_of t p) ms)"
proof -
  obtain xs where "concat (map (\<lambda>(t, p). write_frame t p) ms) = s @ xs"
    using assms(2) by (auto simp: prefix_def)
  with read_loop_frames [OF assms(1), of "[]"] read_loop_mono [of s xs] show ?thesis by simp
qed

text \<open>
  The contract of a session that reads frames while their bytes arrive: with the bodies \<open>bs\<close> handled so
  far, a state \<open>s\<close> satisfies \<open>ok bs s\<close>, and \<open>received s\<close> are all bytes that arrived.
\<close>

locale framed_reader =
  fixes ok :: "bytes list \<Rightarrow> 's \<Rightarrow> bool" and received :: "'s \<Rightarrow> bytes"
  assumes handled_prefix: "ok bs s \<Longrightarrow> prefix bs (fst (read_loop (received s)))"
begin

lemma handled_sent:
  assumes "ok bs s" "\<forall>(t, p) \<in> set ms. length p < max_body"
    and "prefix (received s) (concat (map (\<lambda>(t, p). write_frame t p) ms))"
  shows "prefix bs (map (\<lambda>(t, p). body_of t p) ms)"
  using handled_prefix [OF assms(1)] read_loop_sent [OF assms(2,3)] by (rule prefix_order.trans)

lemma handled_of_one_frame:
  assumes "ok bs s" "length p < max_body" "prefix (received s) (write_frame t p)"
  shows "length bs \<le> 1"
  using handled_sent [OF assms(1), of "[(t, p)]"] assms(2,3) by (auto dest: prefix_length_le)

end

end
