(* ===== verification/Write_Queue.thy ===== *)
theory Write_Queue
  imports Frame
begin

text \<open>
  The write queue that \<^verbatim>\<open>DeviceSession\<close> (\<^verbatim>\<open>tls_device_server.hpp\<close>) and \<^verbatim>\<open>LuminaireClient\<close>
  (\<^verbatim>\<open>luminaire_client.cpp\<close>) put in front of their TLS stream, because a stream allows one
  outstanding \<^verbatim>\<open>async_write\<close>: \<open>out_q\<close> holds the messages that wait and \<open>writing\<close> says that a
  write is in flight. The ghost field \<open>started\<close> lists the messages handed to
  \<^verbatim>\<open>async_write_frame\<close>, in order; while \<open>writing\<close> holds, its last element is the one in flight.
\<close>

section \<open>The queue\<close>

type_synonym out_msg = "msg_type \<times> bytes"

record write_queue =
  out_q :: "out_msg list"
  writing :: bool
  started :: "out_msg list"

definition new_queue :: write_queue where
  "new_queue = \<lparr>out_q = [], writing = False, started = []\<rparr>"

definition do_write :: "write_queue \<Rightarrow> write_queue" where
  "do_write wq =
     (case out_q wq of
        [] \<Rightarrow> wq\<lparr>writing := False\<rparr>
      | m # ms \<Rightarrow> wq\<lparr>writing := True, out_q := ms, started := started wq @ [m]\<rparr>)"

text \<open>The closure that \<^verbatim>\<open>queue_send\<close> posts to the executor.\<close>

definition push_out :: "out_msg \<Rightarrow> write_queue \<Rightarrow> write_queue" where
  "push_out m wq =
     (let wq = wq\<lparr>out_q := out_q wq @ [m]\<rparr>
      in if \<not> writing wq then do_write wq else wq)"

text \<open>The frames that go over the stream for the messages that were started.\<close>

definition frames_of :: "out_msg list \<Rightarrow> bytes" where
  "frames_of ms = concat (map (\<lambda>(t, p). write_frame t p) ms)"

section \<open>The contract of a serial writer\<close>

text \<open>
  \<open>push\<close> adds a message, \<open>finish\<close> is the completion of the write in flight. A write is started
  only when none is in flight, messages are started in the order in which they were pushed, and an
  idle writer has nothing waiting.
\<close>

locale serial_writer =
  fixes push :: "'m \<Rightarrow> 'q \<Rightarrow> 'q" and finish :: "'q \<Rightarrow> 'q"
    and busy :: "'q \<Rightarrow> bool" and waiting :: "'q \<Rightarrow> 'm list" and begun :: "'q \<Rightarrow> 'm list"
  assumes push_order: "begun (push m q) @ waiting (push m q) = begun q @ waiting q @ [m]"
    and push_busy: "busy q \<Longrightarrow> begun (push m q) = begun q \<and> busy (push m q)"
    and push_idle: "\<not> busy q \<Longrightarrow> waiting q = [] \<Longrightarrow> busy (push m q) \<and> waiting (push m q) = []"
    and finish_next: "waiting q = m # ms
      \<Longrightarrow> begun (finish q) = begun q @ [m] \<and> waiting (finish q) = ms \<and> busy (finish q)"
    and finish_last: "waiting q = []
      \<Longrightarrow> begun (finish q) = begun q \<and> waiting (finish q) = [] \<and> \<not> busy (finish q)"
begin

definition ok :: "'q \<Rightarrow> bool" where
  "ok q \<longleftrightarrow> (\<not> busy q \<longrightarrow> waiting q = [])"

definition total :: "'q \<Rightarrow> 'm list" where
  "total q = begun q @ waiting q"

lemma ok_push: "ok q \<Longrightarrow> ok (push m q)"
  unfolding ok_def using push_busy push_idle by metis

lemma ok_finish: "ok (finish q)"
  unfolding ok_def using finish_next finish_last by (metis list.exhaust)

lemma total_push: "total (push m q) = total q @ [m]"
  by (simp add: total_def push_order)

lemma total_finish: "total (finish q) = total q"
  unfolding total_def using finish_next finish_last by (cases "waiting q") simp_all

lemma finish_drains:
  "(finish ^^ length (waiting q)) q = q' \<Longrightarrow> waiting q' = [] \<and> begun q' = total q"
proof (induction "waiting q" arbitrary: q)
  case Nil
  then show ?case by (simp add: total_def)
next
  case (Cons m ms)
  have next_q: "waiting (finish q) = ms" using finish_next [OF Cons.hyps(2) [symmetric]] by simp
  have "(finish ^^ length (waiting (finish q))) (finish q) = q'"
    using Cons.prems by (simp add: next_q Cons.hyps(2) [symmetric] funpow_Suc_right del: funpow.simps)
  from Cons.hyps(1) [OF next_q [symmetric] this] show ?case by (simp add: total_finish)
qed

lemma run_total:
  "total (fold (\<lambda>x q. case x of None \<Rightarrow> finish q | Some m \<Rightarrow> push m q) xs q)
     = total q @ map the (filter (\<lambda>x. x \<noteq> None) xs)"
  by (induction xs arbitrary: q) (auto simp: total_push total_finish)

lemma run_ok:
  "ok q \<Longrightarrow> ok (fold (\<lambda>x q. case x of None \<Rightarrow> finish q | Some m \<Rightarrow> push m q) xs q)"
  by (induction xs arbitrary: q) (auto simp: ok_push ok_finish split: option.splits)

end

interpretation outbox: serial_writer push_out do_write writing out_q started
  by unfold_locales (auto simp: push_out_def do_write_def Let_def split: list.splits)

lemma outbox_ok_new: "outbox.ok new_queue"
  by (simp add: outbox.ok_def new_queue_def)

lemma total_new_queue [simp]: "outbox.total new_queue = []"
  by (simp add: outbox.total_def new_queue_def)

section \<open>The closure in steps\<close>

text \<open>
  The closure of \<^verbatim>\<open>queue_send\<close> is posted to the executor of the socket, which is the
  \<^verbatim>\<open>io_context\<close> itself and no strand, and the regional server runs that on several threads. Two
  closures of one session, or a closure and the completion of a write, may therefore overlap. Below
  a closure goes in three steps: it appends its message, it tests \<^verbatim>\<open>writing_\<close>, and where that was
  false it calls \<^verbatim>\<open>do_write\<close>. Where no other step comes between them they are \<open>push_out\<close>; the
  lamp's client, with its one thread, only has such runs. (In the memory model of C++ an overlap is
  a data race already; the steps show that it goes wrong even where each access is atomic.)
\<close>

datatype closure_pc = To_push out_msg | To_test | To_write | Closure_finished

record closures =
  cs_queue :: write_queue
  cs_pcs :: "closure_pc list"
  cs_in_flight :: nat

definition writes_begun :: "write_queue \<Rightarrow> write_queue \<Rightarrow> nat" where
  "writes_begun wq wq' = length (started wq') - length (started wq)"

definition closure_step :: "nat \<Rightarrow> closures \<Rightarrow> closures" where
  "closure_step i c =
     (let wq = cs_queue c
      in if i < length (cs_pcs c) then
           (case cs_pcs c ! i of
              To_push m \<Rightarrow> c\<lparr>cs_queue := wq\<lparr>out_q := out_q wq @ [m]\<rparr>,
                             cs_pcs := (cs_pcs c)[i := To_test]\<rparr>
            | To_test \<Rightarrow> c\<lparr>cs_pcs := (cs_pcs c)[i := (if writing wq then Closure_finished else To_write)]\<rparr>
            | To_write \<Rightarrow> c\<lparr>cs_queue := do_write wq, cs_pcs := (cs_pcs c)[i := Closure_finished],
                            cs_in_flight := cs_in_flight c + writes_begun wq (do_write wq)\<rparr>
            | Closure_finished \<Rightarrow> c)
         else c)"

definition closure_run :: "nat list \<Rightarrow> closures \<Rightarrow> closures" where
  "closure_run is c = fold closure_step is c"

definition posted_closures :: "out_msg list \<Rightarrow> write_queue \<Rightarrow> closures" where
  "posted_closures ms wq = \<lparr>cs_queue = wq, cs_pcs = map To_push ms, cs_in_flight = 0\<rparr>"

lemma closure_alone_is_push_out:
  assumes "i < length (cs_pcs c)" "cs_pcs c ! i = To_push m"
  shows "closure_run [i, i, i] c
    = c\<lparr>cs_queue := push_out m (cs_queue c), cs_pcs := (cs_pcs c)[i := Closure_finished],
        cs_in_flight := cs_in_flight c + writes_begun (cs_queue c) (push_out m (cs_queue c))\<rparr>"
  using assms
  by (simp add: closure_run_def closure_step_def push_out_def Let_def writes_begun_def)

text \<open>Two overlapping closures: both find no write under way, and both start one.\<close>

lemma two_writes_in_flight:
  "cs_in_flight (closure_run [0, 0, 1, 1, 0, 1] (posted_closures [m, m'] new_queue)) = 2"
  "cs_in_flight (closure_run [0, 0, 0, 1, 1, 1] (posted_closures [m, m'] new_queue)) = 1"
  by (simp_all add: closure_run_def closure_step_def posted_closures_def new_queue_def do_write_def
      writes_begun_def)

section \<open>Properties\<close>

text \<open>
  The queue with its stream: \<open>qi_in_flight\<close> counts the asynchronous writes that were started and
  have not completed. A completion handler exists only for a write in flight; a successful one
  calls \<^verbatim>\<open>do_write\<close>, a failed one closes the socket and starts nothing. Closures are
  \<open>push_out\<close>, that is, they do not overlap with one another or with a completion.
\<close>

datatype queue_event = Post_message out_msg | Message_written | Message_failed

record queue_io =
  qi_queue :: write_queue
  qi_in_flight :: nat
  qi_failed :: bool

definition new_queue_io :: queue_io where
  "new_queue_io = \<lparr>qi_queue = new_queue, qi_in_flight = 0, qi_failed = False\<rparr>"

fun queue_step :: "queue_event \<Rightarrow> queue_io \<Rightarrow> queue_io" where
  "queue_step (Post_message m) s =
     (let wq' = push_out m (qi_queue s)
      in s\<lparr>qi_queue := wq', qi_in_flight := qi_in_flight s + writes_begun (qi_queue s) wq'\<rparr>)"
| "queue_step Message_written s =
     (let wq' = do_write (qi_queue s)
      in if qi_in_flight s = 0 then s
         else s\<lparr>qi_queue := wq', qi_in_flight := qi_in_flight s - 1 + writes_begun (qi_queue s) wq'\<rparr>)"
| "queue_step Message_failed s =
     (if qi_in_flight s = 0 then s else s\<lparr>qi_in_flight := qi_in_flight s - 1, qi_failed := True\<rparr>)"

definition queue_run :: "queue_event list \<Rightarrow> queue_io \<Rightarrow> queue_io" where
  "queue_run es s = fold queue_step es s"

fun posted :: "queue_event list \<Rightarrow> out_msg list" where
  "posted [] = []"
| "posted (Post_message m # es) = m # posted es"
| "posted (_ # es) = posted es"

definition queue_ok :: "queue_io \<Rightarrow> bool" where
  "queue_ok s \<longleftrightarrow> outbox.ok (qi_queue s)
     \<and> qi_in_flight s = (if writing (qi_queue s) \<and> \<not> qi_failed s then 1 else 0)
     \<and> (qi_failed s \<longrightarrow> writing (qi_queue s))"

lemma writes_begun_push_out:
  "outbox.ok wq \<Longrightarrow> writes_begun wq (push_out m wq) = (if writing wq then 0 else 1)"
  by (auto simp: writes_begun_def push_out_def do_write_def outbox.ok_def Let_def)

lemma writes_begun_do_write:
  "writes_begun wq (do_write wq) = (if writing (do_write wq) then 1 else 0)"
  by (simp add: writes_begun_def do_write_def split: list.splits)

lemma writing_push_out: "writing (push_out m wq)"
  by (simp add: push_out_def do_write_def Let_def split: list.splits)

lemma queue_ok_new: "queue_ok new_queue_io"
  by (simp add: queue_ok_def new_queue_io_def outbox_ok_new) (simp add: new_queue_def)

lemma queue_ok_step: "queue_ok s \<Longrightarrow> queue_ok (queue_step e s)"
  by (cases e) (auto simp: queue_ok_def Let_def outbox.ok_push outbox.ok_finish writing_push_out
      writes_begun_push_out writes_begun_do_write split: if_splits)

lemma queue_ok_run: "queue_ok s \<Longrightarrow> queue_ok (queue_run es s)"
  by (induction es arbitrary: s) (simp_all add: queue_run_def queue_ok_step)

lemma total_step:
  "outbox.total (qi_queue (queue_step e s)) = outbox.total (qi_queue s) @ posted [e]"
  by (cases e) (simp_all add: Let_def outbox.total_push outbox.total_finish)

lemma total_run: "outbox.total (qi_queue (queue_run es s)) = outbox.total (qi_queue s) @ posted es"
proof (induction es arbitrary: s)
  case (Cons e es)
  have "posted (e # es) = posted [e] @ posted es" by (cases e) simp_all
  with Cons show ?case by (simp add: queue_run_def total_step)
qed (simp add: queue_run_def)

text \<open>Once a write failed, no other is ever started.\<close>

lemma nothing_after_failure:
  "queue_ok s \<Longrightarrow> qi_failed s
     \<Longrightarrow> qi_failed (queue_step e s) \<and> started (qi_queue (queue_step e s)) = started (qi_queue s)"
  by (cases e) (auto simp: queue_ok_def Let_def push_out_def)

lemma completions_drain:
  "queue_ok s \<Longrightarrow> \<not> qi_failed s \<Longrightarrow> n = Suc (length (out_q (qi_queue s)))
     \<Longrightarrow> s' = queue_run (replicate n Message_written) s
     \<Longrightarrow> qi_in_flight s' = 0 \<and> started (qi_queue s') = outbox.total (qi_queue s)"
proof (induction n arbitrary: s)
  case (Suc n)
  let ?t = "queue_step Message_written s"
  have run: "s' = queue_run (replicate n Message_written) ?t"
    using Suc.prems(4) by (simp add: queue_run_def)
  have same: "outbox.total (qi_queue ?t) = outbox.total (qi_queue s)"
    by (simp only: total_step) simp
  show ?case
  proof (cases "out_q (qi_queue s)")
    case Nil
    then have "n = 0" using Suc.prems(3) by simp
    then show ?thesis
      using Nil run Suc.prems(1, 2)
      by (cases "writing (qi_queue s)")
        (auto simp: queue_run_def queue_ok_def outbox.ok_def outbox.total_def do_write_def
          writes_begun_def)
  next
    case (Cons m ms)
    then have "n = Suc (length (out_q (qi_queue ?t)))" "\<not> qi_failed ?t"
      using Suc.prems(1, 2, 3)
      by (auto simp: queue_ok_def outbox.ok_def do_write_def Let_def)
    from Suc.IH [OF queue_ok_step [OF Suc.prems(1)] this(2, 1) run] show ?thesis
      by (simp only: same)
  qed
qed simp

text \<open>
  C22: Whatever the order of posts, completed and failed writes, at most one write is in flight, and
  one is exactly while \<open>writing\<close> holds and none failed; the messages handed to the stream are the
  first of those that were posted, in that order, each once; a queue with no write in flight and
  no failure holds none back; and where none failed, once the remaining writes complete no write is
  in flight and the peer's reader sees exactly the posted messages. Closures are taken not to
  overlap: \<open>two_writes_in_flight\<close> shows what happens where they do.
\<close>

theorem write_queue_serial:
  assumes "s = queue_run es new_queue_io" "\<forall>(t, p) \<in> set (posted es). length p < max_body"
    and "s' = queue_run (replicate (Suc (length (out_q (qi_queue s)))) Message_written) s"
  shows "qi_in_flight s = (if writing (qi_queue s) \<and> \<not> qi_failed s then 1 else 0)
    \<and> started (qi_queue s) @ out_q (qi_queue s) = posted es
    \<and> (qi_in_flight s = 0 \<and> \<not> qi_failed s \<longrightarrow> started (qi_queue s) = posted es)
    \<and> (\<not> qi_failed s \<longrightarrow> qi_in_flight s' = 0
         \<and> fst (read_loop (frames_of (started (qi_queue s')))) = map (\<lambda>(t, p). body_of t p) (posted es))"
proof -
  have total: "started (qi_queue s) @ out_q (qi_queue s) = posted es"
    using total_run [of es new_queue_io]
    by (simp add: assms(1) outbox.total_def new_queue_io_def new_queue_def)
  have ok: "queue_ok s" using queue_ok_run [OF queue_ok_new] by (simp add: assms(1))
  have "\<not> qi_failed s \<longrightarrow> qi_in_flight s' = 0 \<and> started (qi_queue s') = posted es"
    using completions_drain [OF ok _ refl assms(3)] total by (simp add: outbox.total_def)
  then show ?thesis
    using total ok read_loop_frames [OF assms(2), of "[]"]
    by (auto simp: frames_of_def queue_ok_def outbox.ok_def)
qed

lemma write_queue_serial_witness:
  "let s = queue_run [Post_message (CMD, [1]), Message_written, Post_message (CMD, [2]), Post_message (FAULT_ACK, [])]
             new_queue_io
   in qi_in_flight s = 1
      \<and> fst (read_loop (frames_of (started (qi_queue (queue_run [Message_written, Message_written] s)))))
          = [[5, 1], [5, 2], [7]]"
proof -
  let ?es = "[Post_message (CMD, [1]), Message_written, Post_message (CMD, [2]), Post_message (FAULT_ACK, [])]"
  let ?s = "queue_run ?es new_queue_io"
  have q: "length (out_q (qi_queue ?s)) = 1" "writing (qi_queue ?s)" "\<not> qi_failed ?s"
    by (simp_all add: queue_run_def push_out_def do_write_def new_queue_io_def new_queue_def Let_def
        writes_begun_def)
  have "\<forall>(t, p) \<in> set (posted ?es). length p < max_body" by (simp add: max_body_def)
  from write_queue_serial [OF refl this refl] show ?thesis
    using q by (simp add: body_of_def numeral_2_eq_2)
qed

end
