(* ===== verification/Luminaire.thy ===== *)
theory Luminaire
  imports Fsm Write_Queue
begin

text \<open>
  The lamp (\<^verbatim>\<open>luminaire_client.cpp\<close>): its state machine, the write queue with a pending fault
  report, registration, commands, heartbeat and reconnection. The lamp runs on one thread; one
  completion handler of the \<^verbatim>\<open>io_context\<close> is one step. Timers are modelled by whether a wait is
  pending, the connection by whether an attempt is under way and whether a handshake has completed
  on the present socket, and the random number of the fault simulation is an argument of the step.
\<close>

section \<open>The state machine\<close>

datatype lamp_state =
    IDLE
  | UNREGISTERED
  | REGISTERING
  | OFF
  | ON
  | FAULT

fun lamp_name :: "lamp_state \<Rightarrow> string" where
  "lamp_name IDLE = ''IDLE''"
| "lamp_name UNREGISTERED = ''UNREGISTERED''"
| "lamp_name REGISTERING = ''REGISTERING''"
| "lamp_name OFF = ''OFF''"
| "lamp_name ON = ''ON''"
| "lamp_name FAULT = ''FAULT''"

definition lamp_transitions :: transition_matrix where
  "lamp_transitions =
     [(''IDLE'', ''UNREGISTERED''),
      (''UNREGISTERED'', ''REGISTERING''),
      (''REGISTERING'', ''OFF''),
      (''REGISTERING'', ''UNREGISTERED''),
      (''OFF'', ''ON''),
      (''ON'', ''OFF''),
      (''ON'', ''FAULT''),
      (''OFF'', ''FAULT''),
      (''FAULT'', ''IDLE'')]"

definition lamp_switch :: "lamp_state \<Rightarrow> lamp_state \<Rightarrow> lamp_state \<times> bool" where
  "lamp_switch state next = switch_state lamp_name lamp_transitions state next"

section \<open>The lamp\<close>

record lamp_config =
  cf_uri :: string
  cf_zone :: u32
  cf_heartbeat_s :: int
  cf_fault_prob_per_mille :: int

text \<open>
  \<open>lp_posted\<close>: the closures of \<open>queue_send\<close> that the executor has not run yet, in order.
  \<open>lp_connected\<close>: the handshake on the present socket succeeded and it was not closed since.
\<close>

record lamp =
  lp_state :: lamp_state
  lp_intensity :: u8
  lp_has_sock :: bool
  lp_connecting :: bool
  lp_connected :: bool
  lp_posted :: "out_msg list"
  lp_box :: write_queue
  lp_pending_fault :: bool
  lp_pending_msg :: fault_report
  lp_register_timer :: bool
  lp_heartbeat_timer :: bool
  lp_reconnect_timer :: bool

definition no_fault :: fault_report where
  "no_fault = \<lparr>flt_uri = [], flt_zone_id = 0, flt_code = 0, flt_text = []\<rparr>"

definition new_lamp :: lamp where
  "new_lamp = \<lparr>lp_state = IDLE, lp_intensity = 0, lp_has_sock = False,
     lp_connecting = False, lp_connected = False, lp_posted = [], lp_box = new_queue, lp_pending_fault = False, lp_pending_msg = no_fault,
     lp_register_timer = False, lp_heartbeat_timer = False, lp_reconnect_timer = False\<rparr>"

text \<open>\<^verbatim>\<open>SwitchToState\<close> returns whether the transition was allowed.\<close>

definition SwitchToState :: "lamp_state \<Rightarrow> lamp \<Rightarrow> lamp \<times> bool" where
  "SwitchToState next lp =
     (let (s, ok) = lamp_switch (lp_state lp) next in (lp\<lparr>lp_state := s\<rparr>, ok))"

definition make_socket :: "lamp \<Rightarrow> lamp" where
  "make_socket lp = lp\<lparr>lp_has_sock := True, lp_connected := False\<rparr>"

definition close_socket :: "lamp \<Rightarrow> lamp" where
  "close_socket lp = (if \<not> lp_has_sock lp then lp else lp\<lparr>lp_connected := False\<rparr>)"

definition do_connect :: "lamp \<Rightarrow> lamp" where
  "do_connect lp = (make_socket lp)\<lparr>lp_connecting := True\<rparr>"

definition schedule_reconnect :: "lamp \<Rightarrow> lamp" where
  "schedule_reconnect lp =
     (let lp = close_socket lp;
          lp = lp\<lparr>lp_register_timer := False, lp_heartbeat_timer := False\<rparr>;
          lp = lp\<lparr>lp_box := (lp_box lp)\<lparr>out_q := [], writing := False\<rparr>\<rparr>;
          lp = (if lp_state lp \<noteq> UNREGISTERED then lp\<lparr>lp_state := UNREGISTERED\<rparr> else lp)
      in lp\<lparr>lp_reconnect_timer := True\<rparr>)"

definition queue_send :: "msg_type \<Rightarrow> bytes \<Rightarrow> lamp \<Rightarrow> lamp" where
  "queue_send t payload lp =
     (if \<not> lp_has_sock lp then lp else lp\<lparr>lp_posted := lp_posted lp @ [(t, payload)]\<rparr>)"

text \<open>
  An encoder throws for a URI of more than 65535 characters. The result of a function that may
  throw is the lamp as it is at that point and the exception, if any.
\<close>

type_synonym lamp_result = "lamp \<times> exn option"

definition fin :: "lamp \<Rightarrow> lamp_result" where
  "fin lp = (lp, None)"

definition seq :: "lamp_result \<Rightarrow> (lamp \<Rightarrow> lamp_result) \<Rightarrow> lamp_result" where
  "seq r f = (case r of (lp, None) \<Rightarrow> f lp | (lp, Some e) \<Rightarrow> (lp, Some e))"

definition send_encoded :: "msg_type \<Rightarrow> bytes result \<Rightarrow> lamp \<Rightarrow> lamp_result" where
  "send_encoded t r lp = (case r of Inl e \<Rightarrow> (lp, Some e) | Inr p \<Rightarrow> fin (queue_send t p lp))"

definition send_register :: "lamp_config \<Rightarrow> lamp \<Rightarrow> lamp_result" where
  "send_register cf lp =
     (let lp = (if lp_state lp \<noteq> UNREGISTERED \<and> lp_state lp \<noteq> REGISTERING
                then lp\<lparr>lp_state := UNREGISTERED\<rparr> else lp);
          (lp, ok) = SwitchToState REGISTERING lp
      in if \<not> ok then fin lp
         else seq (send_encoded REGISTER_REQ (encode_register_req
              \<lparr>req_type = LUMINAIRE, req_uri = cf_uri cf, req_zone_id = cf_zone cf\<rparr>) lp)
           (\<lambda>lp. fin (lp\<lparr>lp_register_timer := True\<rparr>)))"

definition power_of :: "lamp \<Rightarrow> u32" where
  "power_of lp = (if lp_state lp = ON then 70000 + 800 * ucast (lp_intensity lp) else 0)"

definition status_of :: "lamp_config \<Rightarrow> lamp \<Rightarrow> status_report" where
  "status_of cf lp =
     \<lparr>sr_uri = cf_uri cf, sr_zone_id = cf_zone cf, sr_on = (if lp_state lp = ON then 1 else 0),
      sr_intensity = lp_intensity lp, sr_power_mw = power_of lp\<rparr>"

definition send_status :: "lamp_config \<Rightarrow> lamp \<Rightarrow> lamp_result" where
  "send_status cf lp = send_encoded STATUS_REPORT (encode_status_report (status_of cf lp)) lp"

definition schedule_heartbeat :: "lamp_config \<Rightarrow> lamp \<Rightarrow> lamp" where
  "schedule_heartbeat cf lp =
     (if cf_heartbeat_s cf \<le> 0 then lp else lp\<lparr>lp_heartbeat_timer := True\<rparr>)"

definition request_fault :: "lamp_config \<Rightarrow> u8 \<Rightarrow> string \<Rightarrow> lamp \<Rightarrow> lamp_result" where
  "request_fault cf code text lp =
     (let f = \<lparr>flt_uri = cf_uri cf, flt_zone_id = cf_zone cf, flt_code = code, flt_text = text\<rparr>
      in if writing (lp_box lp) \<or> out_q (lp_box lp) \<noteq> []
         then fin (lp\<lparr>lp_pending_fault := True, lp_pending_msg := f\<rparr>)
         else send_encoded FAULT_REPORT (encode_fault_report f) lp)"

text \<open>\<open>rnd\<close> is what \<^verbatim>\<open>urand(0,999)\<close> returns.\<close>

definition maybe_simulate_fault :: "lamp_config \<Rightarrow> int \<Rightarrow> lamp \<Rightarrow> lamp_result" where
  "maybe_simulate_fault cf rnd lp =
     (if cf_fault_prob_per_mille cf \<le> 0 then fin lp
      else if lp_state lp \<noteq> ON \<and> lp_state lp \<noteq> OFF then fin lp
      else if rnd < cf_fault_prob_per_mille cf
      then let (lp, ok) = SwitchToState FAULT lp
           in if ok then request_fault cf 1 ''fault_detected'' lp else fin lp
      else fin lp)"

definition manual_reset :: "lamp \<Rightarrow> lamp" where
  "manual_reset lp =
     (if lp_state lp = FAULT
      then let (lp, ok) = SwitchToState IDLE lp
           in if ok then schedule_reconnect (fst (SwitchToState UNREGISTERED lp)) else lp
      else lp)"

section \<open>Messages\<close>

definition on_register_ack :: "lamp_config \<Rightarrow> lamp \<Rightarrow> lamp_result" where
  "on_register_ack cf lp =
     (let (lp, ok) = SwitchToState OFF (lp\<lparr>lp_register_timer := False\<rparr>)
      in if ok
         then seq (send_status cf (lp\<lparr>lp_intensity := 0\<rparr>)) (\<lambda>lp. fin (schedule_heartbeat cf lp))
         else fin lp)"

definition on_register_nack :: "lamp \<Rightarrow> lamp" where
  "on_register_nack lp =
     schedule_reconnect (fst (SwitchToState UNREGISTERED (lp\<lparr>lp_register_timer := False\<rparr>)))"

definition cmd_switch_on :: "lamp_config \<Rightarrow> int \<Rightarrow> lamp \<Rightarrow> lamp_result" where
  "cmd_switch_on cf rnd lp =
     (if lp_state lp = OFF
      then let (lp, ok) = SwitchToState ON lp
           in if ok
              then seq (send_status cf (lp\<lparr>lp_intensity := max (lp_intensity lp) 30\<rparr>))
                (maybe_simulate_fault cf rnd)
              else fin lp
      else fin lp)"

definition cmd_switch_off :: "lamp_config \<Rightarrow> lamp \<Rightarrow> lamp_result" where
  "cmd_switch_off cf lp =
     (if lp_state lp = ON
      then let (lp, ok) = SwitchToState OFF lp
           in if ok then send_status cf (lp\<lparr>lp_intensity := 0\<rparr>) else fin lp
      else fin lp)"

definition cmd_set_intensity :: "lamp_config \<Rightarrow> int \<Rightarrow> u8 \<Rightarrow> lamp \<Rightarrow> lamp_result" where
  "cmd_set_intensity cf rnd val lp =
     (let lp = lp\<lparr>lp_intensity := val\<rparr>;
          lp = (if lp_intensity lp = 0 \<and> lp_state lp = ON then fst (SwitchToState OFF lp)
                else if lp_intensity lp > 0 \<and> lp_state lp = OFF then fst (SwitchToState ON lp)
                else lp)
      in if lp_state lp = ON \<or> lp_state lp = OFF
         then seq (send_status cf lp) (maybe_simulate_fault cf rnd)
         else fin lp)"

definition on_command :: "lamp_config \<Rightarrow> int \<Rightarrow> sls_command \<Rightarrow> lamp \<Rightarrow> lamp_result" where
  "on_command cf rnd c lp =
     (if cmd_cmd c = 1 then cmd_switch_on cf rnd lp
      else if cmd_cmd c = 2 then cmd_switch_off cf lp
      else if cmd_cmd c = 3 then cmd_set_intensity cf rnd (cmd_value c) lp
      else fin lp)"

text \<open>The \<^verbatim>\<open>catch(...)\<close> around the commands: what was changed before the exception stays changed.\<close>

definition on_message :: "lamp_config \<Rightarrow> int \<Rightarrow> bytes \<Rightarrow> lamp \<Rightarrow> lamp_result" where
  "on_message cf rnd body lp =
     (case body of
        [] \<Rightarrow> fin lp
      | t # p \<Rightarrow>
          (case msg_type_of t of
             Some REGISTER_ACK \<Rightarrow> on_register_ack cf lp
           | Some REGISTER_NACK \<Rightarrow> fin (on_register_nack lp)
           | Some CMD \<Rightarrow> (case decode_command p of
                 Inl _ \<Rightarrow> fin lp
               | Inr c \<Rightarrow> fin (fst (on_command cf rnd c lp)))
           | _ \<Rightarrow> fin lp))"

section \<open>Completions\<close>

text \<open>A connection attempt fails, or the handshake completes and the lamp registers.\<close>

definition connect_done :: "lamp_config \<Rightarrow> bool \<Rightarrow> lamp \<Rightarrow> lamp_result" where
  "connect_done cf ec lp =
     (let lp = lp\<lparr>lp_connecting := False\<rparr>
      in if ec then fin (schedule_reconnect lp) else send_register cf (lp\<lparr>lp_connected := True\<rparr>))"

definition run_posted :: "lamp \<Rightarrow> lamp" where
  "run_posted lp =
     (case lp_posted lp of
        [] \<Rightarrow> lp
      | m # ms \<Rightarrow> lp\<lparr>lp_posted := ms, lp_box := push_out m (lp_box lp)\<rparr>)"

definition write_done :: "bool \<Rightarrow> lamp \<Rightarrow> lamp_result" where
  "write_done ec lp =
     (if ec then fin (schedule_reconnect lp)
      else seq (if lp_pending_fault lp
           then send_encoded FAULT_REPORT (encode_fault_report (lp_pending_msg lp))
             (lp\<lparr>lp_pending_fault := False\<rparr>)
           else fin lp)
         (\<lambda>lp. fin (lp\<lparr>lp_box := do_write (lp_box lp)\<rparr>)))"

definition register_timeout :: "lamp \<Rightarrow> lamp" where
  "register_timeout lp =
     (let lp = lp\<lparr>lp_register_timer := False\<rparr>
      in if lp_state lp = REGISTERING
         then schedule_reconnect (fst (SwitchToState UNREGISTERED lp)) else lp)"

definition heartbeat :: "lamp_config \<Rightarrow> lamp \<Rightarrow> lamp_result" where
  "heartbeat cf lp =
     (let lp = lp\<lparr>lp_heartbeat_timer := False\<rparr>
      in seq (if lp_state lp = ON \<or> lp_state lp = OFF \<or> lp_state lp = FAULT
              then send_status cf lp else fin lp)
           (\<lambda>lp. fin (schedule_heartbeat cf lp)))"

definition reconnect :: "lamp \<Rightarrow> lamp" where
  "reconnect lp = do_connect (lp\<lparr>lp_reconnect_timer := False\<rparr>)"

definition start :: "lamp \<Rightarrow> lamp" where
  "start lp = do_connect (fst (SwitchToState UNREGISTERED (lp\<lparr>lp_state := IDLE\<rparr>)))"

text \<open>
  The events, each with the condition under which it can happen: timers fire only while their wait
  is pending, a connection attempt ends once, bodies arrive only over a connection, and a write
  completes while one is in flight, or with the error of an operation that closing the socket
  aborted. \<open>Reset\<close> is the reset timer.
\<close>

datatype lamp_event =
    Connect_done bool
  | Run_posted
  | Write_done bool
  | Message int bytes
  | Read_failed
  | Register_timeout
  | Heartbeat
  | Reconnect
  | Reset

fun lamp_enabled :: "lamp_event \<Rightarrow> lamp \<Rightarrow> bool" where
  "lamp_enabled (Connect_done ec) lp \<longleftrightarrow> lp_connecting lp"
| "lamp_enabled Run_posted lp \<longleftrightarrow> lp_posted lp \<noteq> []"
| "lamp_enabled (Write_done ec) lp \<longleftrightarrow> writing (lp_box lp) \<or> ec \<and> lp_has_sock lp"
| "lamp_enabled (Message rnd body) lp \<longleftrightarrow> lp_connected lp"
| "lamp_enabled Read_failed lp \<longleftrightarrow> lp_has_sock lp"
| "lamp_enabled Register_timeout lp \<longleftrightarrow> lp_register_timer lp"
| "lamp_enabled Heartbeat lp \<longleftrightarrow> lp_heartbeat_timer lp"
| "lamp_enabled Reconnect lp \<longleftrightarrow> lp_reconnect_timer lp"
| "lamp_enabled Reset lp \<longleftrightarrow> True"

fun lamp_handle :: "lamp_config \<Rightarrow> lamp_event \<Rightarrow> lamp \<Rightarrow> lamp_result" where
  "lamp_handle cf (Connect_done ec) lp = connect_done cf ec lp"
| "lamp_handle cf Run_posted lp = fin (run_posted lp)"
| "lamp_handle cf (Write_done ec) lp = write_done ec lp"
| "lamp_handle cf (Message rnd body) lp = on_message cf rnd body lp"
| "lamp_handle cf Read_failed lp = fin (schedule_reconnect lp)"
| "lamp_handle cf Register_timeout lp = fin (register_timeout lp)"
| "lamp_handle cf Heartbeat lp = heartbeat cf lp"
| "lamp_handle cf Reconnect lp = fin (reconnect lp)"
| "lamp_handle cf Reset lp = fin (manual_reset lp)"

text \<open>An exception that leaves a handler ends the process: there is no step.\<close>

inductive lamp_step :: "lamp_config \<Rightarrow> lamp \<Rightarrow> lamp_event \<Rightarrow> lamp \<Rightarrow> bool" for cf where
  step: "lamp_enabled e lp \<Longrightarrow> lamp_handle cf e lp = (lp', None) \<Longrightarrow> lamp_step cf lp e lp'"

inductive_cases lamp_stepE [elim]: "lamp_step cf lp e lp'"

inductive lamp_reachable :: "lamp_config \<Rightarrow> lamp \<Rightarrow> bool" for cf where
  started: "lamp_reachable cf (start new_lamp)"
| stepped: "lamp_reachable cf lp \<Longrightarrow> lamp_step cf lp e lp' \<Longrightarrow> lamp_reachable cf lp'"

section \<open>The state machine keeps its contract\<close>

inductive lamp_edge :: "lamp_state \<Rightarrow> lamp_state \<Rightarrow> bool" where
  "lamp_edge IDLE UNREGISTERED"
| "lamp_edge UNREGISTERED REGISTERING"
| "lamp_edge REGISTERING OFF"
| "lamp_edge REGISTERING UNREGISTERED"
| "lamp_edge OFF ON"
| "lamp_edge ON OFF"
| "lamp_edge ON FAULT"
| "lamp_edge OFF FAULT"
| "lamp_edge FAULT IDLE"

inductive_simps lamp_edge_simps [simp]:
  "lamp_edge IDLE t" "lamp_edge UNREGISTERED t" "lamp_edge REGISTERING t" "lamp_edge OFF t"
  "lamp_edge ON t" "lamp_edge FAULT t"

interpretation lamp_fsm: fsm lamp_name lamp_transitions lamp_edge lamp_switch
proof
  show "s = t" if "lamp_name s = lamp_name t" for s t
    using that by (cases s; cases t) simp_all
  show "lamp_edge s t \<longleftrightarrow> (lamp_name s, lamp_name t) \<in> set lamp_transitions" for s t
    by (cases s; cases t) (simp_all add: lamp_transitions_def)
qed (simp add: lamp_switch_def)

lemma SwitchToState_eq:
  "SwitchToState next lp =
     (if lamp_edge (lp_state lp) next then (lp\<lparr>lp_state := next\<rparr>, True) else (lp, False))"
  by (simp add: SwitchToState_def lamp_fsm.switch_cases)

section \<open>Simplification\<close>

named_theorems lamp

lemma seq_simps [simp]: "seq (lp, None) f = f lp" "seq (lp, Some e) f = (lp, Some e)" "seq (fin lp) f = f lp"
  by (simp_all add: seq_def fin_def)

lemma fin_eq [simp]: "fin lp = (lp', r) \<longleftrightarrow> lp' = lp \<and> r = None" "fst (fin lp) = lp" "snd (fin lp) = None"
  by (auto simp: fin_def)

lemma case_fin [simp]: "(case fin lp of (lp, e) \<Rightarrow> f lp e) = f lp None"
  by (simp add: fin_def)

lemma lamp_queue_send_simps [simp]:
  "lp_state (queue_send t p lp) = lp_state lp" "lp_intensity (queue_send t p lp) = lp_intensity lp"
  "lp_has_sock (queue_send t p lp) = lp_has_sock lp"
  "lp_connecting (queue_send t p lp) = lp_connecting lp"
  "lp_connected (queue_send t p lp) = lp_connected lp"
  "lp_box (queue_send t p lp) = lp_box lp"
  "lp_pending_fault (queue_send t p lp) = lp_pending_fault lp"
  "lp_pending_msg (queue_send t p lp) = lp_pending_msg lp"
  "lp_register_timer (queue_send t p lp) = lp_register_timer lp"
  "lp_heartbeat_timer (queue_send t p lp) = lp_heartbeat_timer lp"
  "lp_reconnect_timer (queue_send t p lp) = lp_reconnect_timer lp"
  by (simp_all add: queue_send_def)

lemma send_short [lamp]:
  "short_str (cf_uri cf) \<Longrightarrow> send_status cf lp = fin (queue_send STATUS_REPORT (enc_status_report (status_of cf lp)) lp)"
  "short_str (flt_uri f) \<Longrightarrow> short_str (flt_text f)
     \<Longrightarrow> send_encoded FAULT_REPORT (encode_fault_report f) lp = fin (queue_send FAULT_REPORT (enc_fault_report f) lp)"
  "short_str (req_uri r)
     \<Longrightarrow> send_encoded REGISTER_REQ (encode_register_req r) lp = fin (queue_send REGISTER_REQ (enc_register_req r) lp)"
  by (simp_all add: send_status_def send_encoded_def status_report.encode_eq status_of_def
      fault_report.encode_eq register_req.encode_eq)

section \<open>The invariant of the lamp\<close>

text \<open>
  A working lamp is lit exactly if it is ON; a lamp that is registering has its timeout pending; one
  that is unregistered has a connection attempt under way or its reconnection pending; one that is
  registered has its heartbeat pending, if it has one; and there is always something that will
  happen next.
\<close>

definition lamp_ok :: "lamp_config \<Rightarrow> lamp \<Rightarrow> bool" where
  "lamp_ok cf lp \<longleftrightarrow>
     lp_state lp \<noteq> IDLE \<and> lp_has_sock lp \<and> outbox.ok (lp_box lp)
     \<and> (lp_state lp = ON \<longrightarrow> lp_intensity lp \<noteq> 0) \<and> (lp_state lp = OFF \<longrightarrow> lp_intensity lp = 0)
     \<and> (lp_state lp = REGISTERING \<longrightarrow> lp_register_timer lp)
     \<and> (lp_state lp = UNREGISTERED \<longrightarrow> lp_connecting lp \<or> lp_reconnect_timer lp)
     \<and> (lp_connected lp \<or> lp_connecting lp \<or> lp_reconnect_timer lp)
     \<and> (0 < cf_heartbeat_s cf \<and> lp_state lp \<in> {ON, OFF, FAULT} \<longrightarrow> lp_heartbeat_timer lp)
     \<and> (lp_pending_fault lp \<longrightarrow> short_str (flt_uri (lp_pending_msg lp)) \<and> short_str (flt_text (lp_pending_msg lp)))"

definition good :: "lamp_config \<Rightarrow> lamp_result \<Rightarrow> bool" where
  "good cf r \<longleftrightarrow> snd r = None \<and> lamp_ok cf (fst r)"

lemma good_fin [simp]: "good cf (fin lp) \<longleftrightarrow> lamp_ok cf lp"
  by (simp add: good_def)

lemma lamp_ok_queue_send [simp]: "lamp_ok cf (queue_send t p lp) = lamp_ok cf lp"
  by (simp add: lamp_ok_def)

lemma schedule_reconnect_simps [simp]:
  "lp_state (schedule_reconnect lp) = UNREGISTERED"
  "lp_intensity (schedule_reconnect lp) = lp_intensity lp"
  "lp_has_sock (schedule_reconnect lp) = lp_has_sock lp"
  "lp_connecting (schedule_reconnect lp) = lp_connecting lp"
  "lp_posted (schedule_reconnect lp) = lp_posted lp"
  "lp_box (schedule_reconnect lp) = (lp_box lp)\<lparr>out_q := [], writing := False\<rparr>"
  "lp_pending_fault (schedule_reconnect lp) = lp_pending_fault lp"
  "lp_pending_msg (schedule_reconnect lp) = lp_pending_msg lp"
  "lp_reconnect_timer (schedule_reconnect lp) = True"
  by (simp_all add: schedule_reconnect_def close_socket_def Let_def)

lemma lamp_ok_reconnect:
  "lp_has_sock lp \<Longrightarrow> (lp_pending_fault lp \<Longrightarrow> short_str (flt_uri (lp_pending_msg lp))
     \<and> short_str (flt_text (lp_pending_msg lp))) \<Longrightarrow> lamp_ok cf (schedule_reconnect lp)"
  by (simp add: lamp_ok_def outbox.ok_def)

lemma lamp_ok_schedule_reconnect: "lamp_ok cf lp \<Longrightarrow> lamp_ok cf (schedule_reconnect lp)"
  by (rule lamp_ok_reconnect) (simp_all add: lamp_ok_def)

lemma short_fault_detected [simp]: "short_str ''fault_detected''"
  by (simp add: short_str_def)

lemma good_simulate:
  assumes "lamp_ok cf lp" "short_str (cf_uri cf)"
  shows "good cf (maybe_simulate_fault cf rnd lp)"
proof -
  have "lamp_ok cf (lp\<lparr>lp_state := FAULT\<rparr>)" if "lp_state lp \<in> {ON, OFF}"
    using that assms(1) by (auto simp: lamp_ok_def)
  then show ?thesis
    using assms
    by (auto simp: maybe_simulate_fault_def SwitchToState_eq request_fault_def Let_def lamp)
      (simp_all add: lamp_ok_def)
qed

lemma good_status: "lamp_ok cf lp \<Longrightarrow> short_str (cf_uri cf) \<Longrightarrow> good cf (send_status cf lp)"
  by (simp add: lamp)

lemma good_seq: "good cf r \<Longrightarrow> (\<And>lp. lamp_ok cf lp \<Longrightarrow> good cf (f lp)) \<Longrightarrow> good cf (seq r f)"
  by (auto simp: good_def seq_def split: prod.split option.split)

lemma heartbeat_pending: "schedule_heartbeat cf lp =
    (if 0 < cf_heartbeat_s cf then lp\<lparr>lp_heartbeat_timer := True\<rparr> else lp)"
  by (simp add: schedule_heartbeat_def)

lemma good_register_ack:
  assumes "lamp_ok cf lp" "short_str (cf_uri cf)"
  shows "good cf (on_register_ack cf lp)"
  using assms
  by (auto simp: on_register_ack_def SwitchToState_eq Let_def lamp heartbeat_pending)
    (auto simp: lamp_ok_def)

lemma SwitchToState_keeps [simp]:
  "lp_has_sock (fst (SwitchToState s lp)) = lp_has_sock lp"
  "lp_pending_fault (fst (SwitchToState s lp)) = lp_pending_fault lp"
  "lp_pending_msg (fst (SwitchToState s lp)) = lp_pending_msg lp"
  by (simp_all add: SwitchToState_eq)

lemma lamp_ok_register_nack: "lamp_ok cf lp \<Longrightarrow> lamp_ok cf (on_register_nack lp)"
  unfolding on_register_nack_def
  by (rule lamp_ok_reconnect) (simp_all add: lamp_ok_def)

lemma max_intensity: "max (i :: u8) 30 \<noteq> 0"
  by (cases "i = 0") (auto simp: max_def word_le_nat_alt)

lemma good_switch_on:
  assumes "lamp_ok cf lp" "short_str (cf_uri cf)"
  shows "good cf (cmd_switch_on cf rnd lp)"
proof (cases "lp_state lp = OFF")
  case True
  then have "lamp_ok cf (lp\<lparr>lp_state := ON, lp_intensity := max (lp_intensity lp) 30\<rparr>)"
    using assms(1) max_intensity by (simp add: lamp_ok_def)
  from good_seq [OF good_status [OF this assms(2)] good_simulate [OF _ assms(2)]] True
  show ?thesis by (simp add: cmd_switch_on_def SwitchToState_eq)
qed (simp add: cmd_switch_on_def assms(1))

lemma good_switch_off:
  assumes "lamp_ok cf lp" "short_str (cf_uri cf)"
  shows "good cf (cmd_switch_off cf lp)"
proof (cases "lp_state lp = ON")
  case True
  then have "lamp_ok cf (lp\<lparr>lp_state := OFF, lp_intensity := 0\<rparr>)"
    using assms(1) by (simp add: lamp_ok_def)
  from good_status [OF this assms(2)] True show ?thesis
    by (simp add: cmd_switch_off_def SwitchToState_eq)
qed (simp add: cmd_switch_off_def assms(1))

text \<open>The lamp after SET_INTENSITY, before the status is sent.\<close>

definition with_intensity :: "u8 \<Rightarrow> lamp \<Rightarrow> lamp" where
  "with_intensity v lp = lp\<lparr>lp_intensity := v,
     lp_state := (if lp_state lp \<in> {ON, OFF} then (if v = 0 then OFF else ON) else lp_state lp)\<rparr>"

lemma cmd_set_intensity_eq:
  "cmd_set_intensity cf rnd v lp =
     (if lp_state lp \<in> {ON, OFF}
      then seq (send_status cf (with_intensity v lp)) (maybe_simulate_fault cf rnd)
      else fin (with_intensity v lp))"
proof (cases "lp_state lp")
  case ON
  then have "with_intensity v lp = (if v = 0 then lp\<lparr>lp_intensity := v, lp_state := OFF\<rparr>
      else lp\<lparr>lp_intensity := v\<rparr>)"
    by (cases lp) (simp add: with_intensity_def)
  with ON show ?thesis
    by (cases "v = 0") (simp_all add: cmd_set_intensity_def SwitchToState_eq Let_def)
next
  case OFF
  then have "with_intensity v lp = (if v = 0 then lp\<lparr>lp_intensity := v\<rparr>
      else lp\<lparr>lp_intensity := v, lp_state := ON\<rparr>)"
    by (cases lp) (simp add: with_intensity_def)
  with OFF show ?thesis
    by (cases "v = 0") (simp_all add: cmd_set_intensity_def SwitchToState_eq Let_def word_greater_zero_iff)
qed (cases lp; simp add: cmd_set_intensity_def with_intensity_def Let_def)+

lemma good_set_intensity:
  assumes "lamp_ok cf lp" "short_str (cf_uri cf)"
  shows "good cf (cmd_set_intensity cf rnd v lp)"
proof -
  have "lamp_ok cf (with_intensity v lp)"
    using assms(1) by (simp add: lamp_ok_def with_intensity_def)
  from good_seq [OF good_status [OF this assms(2)] good_simulate [OF _ assms(2)]] this
  show ?thesis by (simp add: cmd_set_intensity_eq)
qed

lemma good_command:
  "lamp_ok cf lp \<Longrightarrow> short_str (cf_uri cf) \<Longrightarrow> good cf (on_command cf rnd c lp)"
  by (simp add: on_command_def good_switch_on good_switch_off good_set_intensity)

lemma good_message:
  assumes "lamp_ok cf lp" "short_str (cf_uri cf)"
  shows "good cf (on_message cf rnd body lp)"
  using good_register_ack [OF assms] lamp_ok_register_nack [OF assms(1)] good_command [OF assms] assms(1)
  by (auto simp: on_message_def good_def split: list.split option.split msg_type.split sum.split)

lemma good_connect:
  assumes "lamp_ok cf lp" "short_str (cf_uri cf)"
  shows "good cf (connect_done cf ec lp)"
proof (cases ec)
  case True
  with assms(1) show ?thesis
    by (auto simp: connect_done_def intro!: lamp_ok_reconnect) (simp_all add: lamp_ok_def)
next
  case False
  let ?lp = "lp\<lparr>lp_connecting := False, lp_connected := True\<rparr>"
  have "good cf (send_register cf ?lp)"
    using assms
    by (cases "lp_state lp") (simp_all add: send_register_def SwitchToState_eq Let_def lamp, simp_all add: lamp_ok_def)
  with False show ?thesis by (simp add: connect_done_def)
qed

lemma good_write:
  assumes "lamp_ok cf lp"
  shows "good cf (write_done ec lp)"
proof (cases ec)
  case True
  with assms show ?thesis by (simp add: write_done_def lamp_ok_schedule_reconnect)
next
  case False
  have box: "lamp_ok cf (lp\<lparr>lp_box := do_write (lp_box lp)\<rparr>)" if "lamp_ok cf lp" for lp
    using that outbox.ok_finish by (simp add: lamp_ok_def)
  have "good cf (send_encoded FAULT_REPORT (encode_fault_report (lp_pending_msg lp))
      (lp\<lparr>lp_pending_fault := False\<rparr>))" if "lp_pending_fault lp"
    using that assms by (simp add: lamp lamp_ok_def [of cf lp]) (simp add: lamp_ok_def)
  with assms False show ?thesis by (simp add: write_done_def good_seq box)
qed

lemma good_heartbeat:
  assumes "lamp_ok cf lp" "short_str (cf_uri cf)"
  shows "good cf (heartbeat cf lp)"
  using assms
  by (auto simp: heartbeat_def Let_def lamp heartbeat_pending) (auto simp: lamp_ok_def)

lemma good_handle:
  assumes "lamp_ok cf lp" "short_str (cf_uri cf)"
  shows "good cf (lamp_handle cf e lp)"
proof (cases e)
  case Run_posted
  with assms outbox.ok_push show ?thesis
    by (auto simp: run_posted_def lamp_ok_def split: list.split)
next
  case Register_timeout
  with assms(1) show ?thesis
    by (auto simp: register_timeout_def Let_def SwitchToState_eq intro!: lamp_ok_reconnect)
      (simp_all add: lamp_ok_def)
next
  case Reset
  with assms(1) show ?thesis
    by (auto simp: manual_reset_def Let_def SwitchToState_eq intro!: lamp_ok_reconnect)
      (simp_all add: lamp_ok_def)
next
  case Reconnect
  with assms(1) show ?thesis
    by (simp add: reconnect_def do_connect_def make_socket_def) (simp add: lamp_ok_def)
qed (use assms in \<open>simp_all add: good_connect good_write good_message good_heartbeat
       lamp_ok_schedule_reconnect\<close>)

lemma lamp_ok_start: "lamp_ok cf (start new_lamp)"
  by (simp add: start_def SwitchToState_eq do_connect_def make_socket_def lamp_ok_def new_lamp_def
      outbox_ok_new)

lemma lamp_ok_reachable:
  assumes "lamp_reachable cf lp" "short_str (cf_uri cf)"
  shows "lamp_ok cf lp"
  using assms(1)
proof (induction rule: lamp_reachable.induct)
  case (stepped lp e lp')
  from stepped.hyps(2) have "lamp_handle cf e lp = (lp', None)" by (rule lamp_stepE)
  with good_handle [OF stepped.IH assms(2), of e] show ?case by (simp add: good_def)
qed (rule lamp_ok_start)

section \<open>Properties\<close>

definition example_lamp :: lamp_config where
  "example_lamp = \<lparr>cf_uri = ''lamp1'', cf_zone = 7, cf_heartbeat_s = 10, cf_fault_prob_per_mille = 0\<rparr>"

lemma short_example_lamp [simp]: "short_str (cf_uri example_lamp)"
  by (simp add: example_lamp_def short_str_def)

text \<open>
  C23: In every state a started lamp can reach, whatever frames arrive (malformed ones included),
  connections fail and timers fire: the lamp is lit exactly if it is ON, its retry, timeout and
  heartbeat timers are pending where they have to be, no handler throws, so that every event that
  can happen has a step, and some event other than the manual reset can happen.
\<close>

theorem lamp_keeps_running:
  assumes "lamp_reachable cf lp" "short_str (cf_uri cf)"
  shows "lamp_ok cf lp
    \<and> (\<forall>e. lamp_enabled e lp = (\<exists>lp'. lamp_step cf lp e lp'))
    \<and> (lamp_enabled (Connect_done True) lp \<or> lamp_enabled (Message 0 []) lp \<or> lamp_enabled Reconnect lp)"
proof -
  have ok: "lamp_ok cf lp" by (rule lamp_ok_reachable [OF assms])
  have "\<exists>lp'. lamp_step cf lp e lp'" if "lamp_enabled e lp" for e
    using good_handle [OF ok assms(2), of e] lamp_step.step [OF that, of cf "fst (lamp_handle cf e lp)"]
    by (metis good_def prod.collapse)
  moreover have "lamp_enabled e lp" if "lamp_step cf lp e lp'" for e lp'
    using that by (rule lamp_stepE)
  ultimately show ?thesis using ok by (auto simp: lamp_ok_def)
qed

lemma lamp_keeps_running_witness:
  "lamp_ok example_lamp (start new_lamp)
   \<and> (\<exists>lp'. lamp_step example_lamp (start new_lamp) (Connect_done False) lp')"
proof -
  have "lamp_enabled (Connect_done False) (start new_lamp)"
    by (simp add: start_def do_connect_def)
  with lamp_keeps_running [OF started short_example_lamp] show ?thesis by blast
qed

text \<open>
  C24: The status report of every reachable lamp arrives as it is: it says on exactly in state ON,
  the power is positive exactly when the lamp is on, is 70 W plus 0.8 W for each step of intensity,
  without wrap-around, and never exceeds 274 W; a lamp that is on never reports intensity 0, a lamp
  that is off always does.
\<close>

theorem lamp_status_is_true:
  assumes "lamp_reachable cf lp" "short_str (cf_uri cf)"
  shows "(let s = status_of cf lp in
      lp_posted (fst (send_status cf lp)) = lp_posted lp @ [(STATUS_REPORT, enc_status_report s)]
      \<and> decode_status_report (enc_status_report s) = Inr s
      \<and> (sr_on s = 1) = (lp_state lp = ON) \<and> (sr_power_mw s = 0) = (sr_on s = 0)
      \<and> unat (sr_power_mw s) = (if sr_on s = 1 then 70000 + 800 * unat (sr_intensity s) else 0)
      \<and> unat (sr_power_mw s) \<le> 274000
      \<and> (lp_state lp = ON \<longrightarrow> sr_intensity s \<noteq> 0) \<and> (lp_state lp = OFF \<longrightarrow> sr_intensity s = 0))"
proof -
  have ok: "lamp_ok cf lp" by (rule lamp_ok_reachable [OF assms])
  have "unat (lp_intensity lp) < 2 ^ LENGTH(8)" by (rule unsigned_less)
  then have i: "unat (lp_intensity lp) \<le> 255" by simp
  have "unat (ucast (lp_intensity lp) :: u32) = unat (lp_intensity lp)"
    using i by (simp add: unsigned_ucast_eq take_bit_nat_eq_self)
  then have "unat (70000 + 800 * ucast (lp_intensity lp) :: u32) = 70000 + 800 * unat (lp_intensity lp)"
    using i by (simp add: unat_word_ariths)
  then have power: "unat (power_of lp) = (if lp_state lp = ON then 70000 + 800 * unat (lp_intensity lp) else 0)"
    by (simp add: power_of_def)
  then have zero: "power_of lp = 0 \<longleftrightarrow> lp_state lp \<noteq> ON"
    by (auto simp flip: unat_eq_zero)
  have "decode_status_report (enc_status_report (status_of cf lp)) = Inr (status_of cf lp)"
    using status_report.decode_encode [of "status_of cf lp" _ "[]"] assms(2)
    by (simp add: status_report.encode_eq status_of_def)
  moreover have "lp_posted (fst (send_status cf lp))
      = lp_posted lp @ [(STATUS_REPORT, enc_status_report (status_of cf lp))]"
    using ok assms(2) by (simp add: lamp queue_send_def lamp_ok_def)
  ultimately show ?thesis
    using ok i power zero by (auto simp: Let_def status_of_def lamp_ok_def)
qed

text \<open>The handlers of a sequence of events, in a lamp for which each of them can happen.\<close>

fun lamp_run :: "lamp_config \<Rightarrow> lamp_event list \<Rightarrow> lamp \<Rightarrow> lamp option" where
  "lamp_run cf [] lp = Some lp"
| "lamp_run cf (e # es) lp =
     (if lamp_enabled e lp
      then (case lamp_handle cf e lp of (lp', None) \<Rightarrow> lamp_run cf es lp' | _ \<Rightarrow> None)
      else None)"

lemma lamp_run_reachable:
  "lamp_reachable cf lp \<Longrightarrow> lamp_run cf es lp = Some lp' \<Longrightarrow> lamp_reachable cf lp'"
  by (induction es arbitrary: lp)
    (auto split: if_splits prod.splits option.splits intro: stepped step)

text \<open>
  C25: What the commands do to a registered lamp (without simulated faults), for every command a
  server can encode, with any trailing bytes: SWITCH_ON lights a dark lamp at 30 and leaves a lit
  one as it is, SWITCH_OFF darkens it, SET_INTENSITY takes the value as it is (100 is not an upper
  bound), and switches a lamp on or off when needed, any other command does nothing; the state
  follows the intensity, and a status report is queued exactly for SET_INTENSITY and for the commands that
  switch.
\<close>

theorem command_effects:
  assumes "lamp_reachable cf lp" "short_str (cf_uri cf)" "cf_fault_prob_per_mille cf \<le> 0"
    and "lp_state lp \<in> {ON, OFF}" "encode_command c = Inr p"
  shows "(let (lp', e) = on_message cf rnd (body_of CMD (p @ junk)) lp;
        v = (if cmd_cmd c = 1 then (if lp_state lp = ON then lp_intensity lp else 30)
             else if cmd_cmd c = 2 then 0
             else if cmd_cmd c = 3 then cmd_value c else lp_intensity lp);
        state = (if v = 0 then OFF else ON)
      in e = None \<and> lp_intensity lp' = v \<and> lp_state lp' = state
         \<and> lp_posted lp' = lp_posted lp @ (if cmd_cmd c = 3 \<or> cmd_cmd c \<in> {1, 2} \<and> state \<noteq> lp_state lp
             then [(STATUS_REPORT, enc_status_report (status_of cf lp'))] else []))"
proof -
  have ok: "lamp_ok cf lp" by (rule lamp_ok_reachable [OF assms(1,2)])
  have decoded: "decode_command (p @ junk) = Inr c"
    by (rule sls_command.decode_encode [OF assms(5)])
  have handled: "on_message cf rnd (body_of CMD (p @ junk)) lp = fin (fst (on_command cf rnd c lp))"
    by (simp add: on_message_def body_of_def decoded del: msg_code.simps)
  have quiet: "maybe_simulate_fault cf rnd lp = fin lp" for lp
    using assms(3) by (simp add: maybe_simulate_fault_def)
  consider "lp_state lp = ON" "lp_intensity lp \<noteq> 0" "lp_has_sock lp"
    | "lp_state lp = OFF" "lp_intensity lp = 0" "lp_has_sock lp"
    using ok assms(4) by (auto simp: lamp_ok_def)
  then show ?thesis
    by cases (auto simp: handled quiet fin_def on_command_def cmd_switch_on_def cmd_switch_off_def
      cmd_set_intensity_eq with_intensity_def SwitchToState_eq lamp assms(2)
      queue_send_def status_of_def power_of_def)
qed

lemmas lamp_exec = start_def do_connect_def make_socket_def SwitchToState_eq new_lamp_def
  connect_done_def send_register_def queue_send_def run_posted_def push_out_def do_write_def
  new_queue_def on_message_def on_register_ack_def schedule_heartbeat_def on_command_def
  cmd_switch_on_def maybe_simulate_fault_def request_fault_def lamp body_of_def Let_def

definition faulty_lamp :: lamp_config where
  "faulty_lamp = example_lamp\<lparr>cf_fault_prob_per_mille := 1000\<rparr>"

text \<open>The lamp registers: the request is sent, then acknowledged while its write is in flight.\<close>

definition registration :: "lamp_event list" where
  "registration = [Connect_done False, Run_posted, Message 0 (body_of REGISTER_ACK [])]"

lemma example_registered:
  "\<exists>lp. lamp_run example_lamp registration (start new_lamp) = Some lp \<and> lp_state lp = OFF \<and> lp_intensity lp = 0"
  by (simp add: registration_def lamp_exec del: msg_code.simps)

lemma command_effects_witness:
  "\<exists>lp. lamp_reachable example_lamp lp \<and>
     lp_intensity (fst (on_message example_lamp 0 (body_of CMD (enc_command
       \<lparr>cmd_uri = ''lamp1'', cmd_cmd = 3, cmd_value = 60\<rparr> @ [])) lp)) = 60"
proof -
  obtain lp where run: "lamp_run example_lamp registration (start new_lamp) = Some lp"
    and off: "lp_state lp = OFF" using example_registered by blast
  let ?c = "\<lparr>cmd_uri = ''lamp1'', cmd_cmd = 3, cmd_value = 60\<rparr> :: sls_command"
  have "lamp_reachable example_lamp lp" by (rule lamp_run_reachable [OF started run])
  moreover have "encode_command ?c = Inr (enc_command ?c)"
    by (simp add: sls_command.encode_eq short_str_def)
  ultimately show ?thesis
    using command_effects [of example_lamp lp ?c "enc_command ?c" 0 "[]"] off
    by (intro exI [of _ lp]) (simp add: Let_def case_prod_beta example_lamp_def short_str_def)
qed

text \<open>
  A fault report that is waiting for the write in flight survives the loss of the connection.
  When a lamp with a pending report loses its connection, reconnects and registers again, it is OFF
  and works, but the report goes out right after the registration, before the first status, so that
  the server marks the working lamp as faulty.
\<close>

theorem stale_fault_reported:
  assumes "lamp_reachable cf lp" "short_str (cf_uri cf)" "lp_pending_fault lp" "lp_posted lp = []"
  shows "\<exists>lp'. lamp_run cf [Write_done True, Reconnect, Connect_done False, Run_posted,
      Write_done False, Message rnd (body_of REGISTER_ACK [])] lp = Some lp'
    \<and> lp_state lp' = OFF \<and> \<not> lp_pending_fault lp'
    \<and> lp_posted lp' = [(FAULT_REPORT, enc_fault_report (lp_pending_msg lp)),
        (STATUS_REPORT, enc_status_report (status_of cf lp'))]"
proof -
  have "lamp_ok cf lp" by (rule lamp_ok_reachable [OF assms(1,2)])
  then have "lp_has_sock lp" "short_str (flt_uri (lp_pending_msg lp))" "short_str (flt_text (lp_pending_msg lp))"
    using assms(3) by (simp_all add: lamp_ok_def)
  then show ?thesis
    using assms(2-4)
    by (simp add: write_done_def reconnect_def lamp_exec del: msg_code.simps)
      (simp add: status_of_def power_of_def)
qed

definition faulting :: "lamp_event list" where
  "faulting = registration @ [Message 0 (body_of CMD (enc_command
     \<lparr>cmd_uri = ''lamp1'', cmd_cmd = 1, cmd_value = 0\<rparr>)), Run_posted, Run_posted]"

lemma example_faulting:
  "\<exists>lp. lamp_run faulty_lamp faulting (start new_lamp) = Some lp \<and> lp_state lp = FAULT
     \<and> lp_pending_fault lp \<and> lp_posted lp = []"
proof -
  let ?c = "\<lparr>cmd_uri = ''lamp1'', cmd_cmd = 1, cmd_value = 0\<rparr> :: sls_command"
  have "decode_command (enc_command ?c) = Inr ?c"
    using sls_command.decode_encode [of ?c _ "[]"] by (simp add: sls_command.encode_eq short_str_def)
  then show ?thesis
    by (simp add: faulting_def registration_def faulty_lamp_def lamp_exec del: msg_code.simps)
qed

lemma stale_fault_reported_witness:
  "\<exists>lp lp'. lp_state lp = FAULT \<and> lamp_reachable faulty_lamp lp
     \<and> lamp_run faulty_lamp [Write_done True, Reconnect, Connect_done False, Run_posted,
         Write_done False, Message 0 (body_of REGISTER_ACK [])] lp = Some lp' \<and> lp_state lp' = OFF"
proof -
  obtain lp where run: "lamp_run faulty_lamp faulting (start new_lamp) = Some lp"
    and lp: "lp_state lp = FAULT" "lp_pending_fault lp" "lp_posted lp = []"
    using example_faulting by blast
  have "lamp_reachable faulty_lamp lp" by (rule lamp_run_reachable [OF started run])
  moreover have "short_str (cf_uri faulty_lamp)" by (simp add: faulty_lamp_def)
  ultimately show ?thesis using stale_fault_reported [of faulty_lamp lp 0] lp by blast
qed

lemma example_lit:
  "\<exists>lp. lamp_run example_lamp (registration @ [Message 0 (body_of CMD (enc_command
      \<lparr>cmd_uri = ''lamp1'', cmd_cmd = 1, cmd_value = 0\<rparr>))]) (start new_lamp) = Some lp
    \<and> lp_state lp = ON \<and> lp_intensity lp = 30"
proof -
  let ?c = "\<lparr>cmd_uri = ''lamp1'', cmd_cmd = 1, cmd_value = 0\<rparr> :: sls_command"
  have "decode_command (enc_command ?c) = Inr ?c"
    using sls_command.decode_encode [of ?c _ "[]"] by (simp add: sls_command.encode_eq short_str_def)
  moreover have "cf_fault_prob_per_mille example_lamp = 0" by (simp add: example_lamp_def)
  ultimately show ?thesis by (simp add: registration_def lamp_exec max_def del: msg_code.simps)
qed

lemma lamp_status_is_true_witness:
  "\<exists>lp. lp_state lp = ON \<and> unat (sr_power_mw (status_of example_lamp lp)) = 94000"
proof -
  obtain lp where run: "lamp_run example_lamp (registration @ [Message 0 (body_of CMD (enc_command
      \<lparr>cmd_uri = ''lamp1'', cmd_cmd = 1, cmd_value = 0\<rparr>))]) (start new_lamp) = Some lp"
    and lp: "lp_state lp = ON" "lp_intensity lp = 30" using example_lit by blast
  have "sr_intensity (status_of example_lamp lp) = 30" by (simp add: status_of_def lp)
  with lamp_status_is_true [OF lamp_run_reachable [OF started run] short_example_lamp] lp show ?thesis
    by (intro exI [of _ lp]) (simp add: Let_def)
qed

end
