(* ===== verification/Registry.thy ===== *)
theory Registry
  imports Proto
begin

text \<open>
  The device registry of a regional server (\<^verbatim>\<open>registry.hpp\<close>): the last known state of every
  device, the lamps of each zone for the automatic commands, the two aggregations that are sent
  to the central server, and the detection of devices that fell silent. Every operation holds
  the registry's mutex, so each is one atomic step. Time (\<^verbatim>\<open>now_ms()\<close>) is an argument.
\<close>

section \<open>State\<close>

record device_state =
  ds_type :: device_type
  ds_zone_id :: u32
  ds_on :: u8
  ds_intensity :: u8
  ds_power_mw :: u32
  ds_fault :: bool
  ds_last_seen_ms :: u64

definition new_device :: device_state where
  "new_device = \<lparr>ds_type = LUMINAIRE, ds_zone_id = 0, ds_on = 0, ds_intensity = 0,
     ds_power_mw = 0, ds_fault = False, ds_last_seen_ms = 0\<rparr>"

record registry =
  dev :: "(string \<times> device_state) list"
  zone_to_lamps :: "(u32 \<times> string list) list"

definition empty_registry :: registry where
  "empty_registry = \<lparr>dev = [], zone_to_lamps = []\<rparr>"

section \<open>Operations\<close>

definition push_if_absent :: "string \<Rightarrow> string list \<Rightarrow> string list" where
  "push_if_absent uri v = (if List.member v uri then v else v @ [uri])"

definition register_lamp :: "registry \<Rightarrow> string \<Rightarrow> u32 \<Rightarrow> registry" where
  "register_lamp r uri zone_id =
     r\<lparr>zone_to_lamps := upd_default [] zone_id (push_if_absent uri) (zone_to_lamps r)\<rparr>"

definition upsert :: "registry \<Rightarrow> string \<Rightarrow> device_state \<Rightarrow> registry" where
  "upsert r uri st =
     (let r = r\<lparr>dev := AList.update uri st (dev r)\<rparr>
      in if ds_type st = LUMINAIRE \<and> ds_zone_id st \<noteq> 0
         then r\<lparr>zone_to_lamps :=
                upd_default [] (ds_zone_id st) (push_if_absent uri) (zone_to_lamps r)\<rparr>
         else r)"

definition reg_get :: "registry \<Rightarrow> string \<Rightarrow> device_state option" where
  "reg_get r uri = map_of (dev r) uri"

definition snapshot :: "registry \<Rightarrow> (string \<times> device_state) list" where
  "snapshot r = dev r"

definition get_lamps_in_zone :: "registry \<Rightarrow> u32 \<Rightarrow> string list" where
  "get_lamps_in_zone r zone_id =
     (case map_of (zone_to_lamps r) zone_id of None \<Rightarrow> [] | Some v \<Rightarrow> v)"

subsection \<open>Aggregation: power per zone\<close>

fun zone_power_loop ::
  "(u32 \<times> u32) list \<Rightarrow> (string \<times> device_state) list \<Rightarrow> (u32 \<times> u32) list" where
  "zone_power_loop sums [] = sums"
| "zone_power_loop sums (kv # kvs) =
     (let st = snd kv in
      if ds_zone_id st = 0 then zone_power_loop sums kvs
      else if ds_type st = LUMINAIRE then
        zone_power_loop (upd_default 0 (ds_zone_id st) (\<lambda>s. s + ds_power_mw st) sums) kvs
      else zone_power_loop sums kvs)"

definition zone_power_sum :: "registry \<Rightarrow> (u32 \<times> u32) list" where
  "zone_power_sum r = zone_power_loop [] (dev r)"

subsection \<open>Aggregation: devices per zone\<close>

record zone_acc =
  acc_lamp_total :: u16
  acc_lamp_on :: u16
  acc_lamp_fault :: u16
  acc_sensor_total :: u16
  acc_sensor_fault :: u16

definition zero_acc :: zone_acc where
  "zero_acc = \<lparr>acc_lamp_total = 0, acc_lamp_on = 0, acc_lamp_fault = 0,
     acc_sensor_total = 0, acc_sensor_fault = 0\<rparr>"

definition count_device :: "device_state \<Rightarrow> zone_acc \<Rightarrow> zone_acc" where
  "count_device st a =
     (if ds_type st = LUMINAIRE then
        a\<lparr>acc_lamp_total := acc_lamp_total a + 1,
          acc_lamp_on := (if ds_on st \<noteq> 0 then acc_lamp_on a + 1 else acc_lamp_on a),
          acc_lamp_fault := (if ds_fault st then acc_lamp_fault a + 1 else acc_lamp_fault a)\<rparr>
      else
        a\<lparr>acc_sensor_total := acc_sensor_total a + 1,
          acc_sensor_fault := (if ds_fault st then acc_sensor_fault a + 1 else acc_sensor_fault a)\<rparr>)"

fun zone_summary_loop ::
  "(u32 \<times> zone_acc) list \<Rightarrow> (string \<times> device_state) list \<Rightarrow> (u32 \<times> zone_acc) list" where
  "zone_summary_loop acc [] = acc"
| "zone_summary_loop acc (kv # kvs) =
     (let st = snd kv in
      if ds_zone_id st = 0 then zone_summary_loop acc kvs
      else zone_summary_loop (upd_default zero_acc (ds_zone_id st) (count_device st) acc) kvs)"

definition summary_of :: "u32 \<times> zone_acc \<Rightarrow> zone_device_summary" where
  "summary_of kv =
     \<lparr>zs_zone_id = fst kv,
      zs_lamp_total = acc_lamp_total (snd kv),
      zs_lamp_on = acc_lamp_on (snd kv),
      zs_lamp_fault = acc_lamp_fault (snd kv),
      zs_sensor_total = acc_sensor_total (snd kv),
      zs_sensor_fault = acc_sensor_fault (snd kv)\<rparr>"

definition zone_device_summary :: "registry \<Rightarrow> zone_device_summary list" where
  "zone_device_summary r =
     sort_key zs_zone_id (map summary_of (zone_summary_loop [] (dev r)))"

subsection \<open>Detection of silent devices\<close>

text \<open>
  The subtraction of the two 64-bit times wraps around when \<open>last_seen_ms\<close> is later than \<open>now\<close>.
\<close>

definition is_lost :: "u64 \<Rightarrow> u64 \<Rightarrow> device_state \<Rightarrow> bool" where
  "is_lost now timeout_ms st \<longleftrightarrow>
     \<not> ds_fault st \<and> ds_last_seen_ms st > 0 \<and> now - ds_last_seen_ms st > timeout_ms"

fun comm_lost_loop ::
  "u64 \<Rightarrow> u64 \<Rightarrow> (string \<times> device_state) list \<Rightarrow> (string \<times> device_state) list \<times> string list" where
  "comm_lost_loop now timeout_ms [] = ([], [])"
| "comm_lost_loop now timeout_ms ((uri, st) # kvs) =
     (let (d, lost) = comm_lost_loop now timeout_ms kvs in
      if is_lost now timeout_ms st then ((uri, st\<lparr>ds_fault := True\<rparr>) # d, uri # lost)
      else ((uri, st) # d, lost))"

definition detect_comm_lost :: "registry \<Rightarrow> u64 \<Rightarrow> u64 \<Rightarrow> registry \<times> string list" where
  "detect_comm_lost r now timeout_ms =
     (let (d, lost) = comm_lost_loop now timeout_ms (dev r) in (r\<lparr>dev := d\<rparr>, lost))"

section \<open>The table contract\<close>

text \<open>
  What the handlers of the regional server rely on: a lookup sees the last write, a lamp with a
  zone is listed in that zone, and lists only grow. \<open>keeps_faults f\<close> says that no device that
  is marked faulty before \<open>f\<close> is unmarked by it; the lemmas of the locale are the closure rules
  from which the handlers' facts follow.
\<close>

locale device_table =
  fixes get :: "'r \<Rightarrow> string \<Rightarrow> device_state option"
    and put :: "'r \<Rightarrow> string \<Rightarrow> device_state \<Rightarrow> 'r"
    and lamps :: "'r \<Rightarrow> u32 \<Rightarrow> string list"
    and inv :: "'r \<Rightarrow> bool"
  assumes get_put: "get (put r u st) v = (if v = u then Some st else get r v)"
    and inv_put: "inv r \<Longrightarrow> inv (put r u st)"
    and lamps_put: "set (lamps (put r u st) z) = set (lamps r z)
      \<union> (if ds_type st = LUMINAIRE \<and> ds_zone_id st = z \<and> z \<noteq> 0 then {u} else {})"
    and lamp_listed: "inv r \<Longrightarrow> get r u = Some st \<Longrightarrow> ds_type st = LUMINAIRE
      \<Longrightarrow> ds_zone_id st \<noteq> 0 \<Longrightarrow> u \<in> set (lamps r (ds_zone_id st))"
begin

definition keeps_faults :: "('r \<Rightarrow> 'r) \<Rightarrow> bool" where
  "keeps_faults f \<longleftrightarrow> (\<forall>r u st. get r u = Some st \<and> ds_fault st
     \<longrightarrow> (\<exists>st'. get (f r) u = Some st' \<and> ds_fault st'))"

lemma keeps_faults_id [intro]: "keeps_faults (\<lambda>r. r)"
  by (simp add: keeps_faults_def)

lemma keeps_faults_comp [intro]:
  "keeps_faults f \<Longrightarrow> keeps_faults g \<Longrightarrow> keeps_faults (\<lambda>r. g (f r))"
  unfolding keeps_faults_def by meson

lemma keeps_faults_put:
  "(\<And>r st. get r u = Some st \<Longrightarrow> ds_fault st \<Longrightarrow> ds_fault (s r)) \<Longrightarrow> keeps_faults (\<lambda>r. put r u (s r))"
  by (auto simp: keeps_faults_def get_put)

lemma keeps_faults_fold:
  "(\<And>x. x \<in> set xs \<Longrightarrow> keeps_faults (f x)) \<Longrightarrow> keeps_faults (fold f xs)"
  by (induction xs) (auto simp: keeps_faults_def)

lemma get_fold_put:
  "u \<notin> fst ` set ws \<Longrightarrow> get (fold (\<lambda>(u, st) r. put r u st) ws r) u = get r u"
  by (induction ws arbitrary: r) (auto simp: get_put)

lemma lamps_mono: "set (lamps r z) \<subseteq> set (lamps (put r u st) z)"
  by (auto simp: lamps_put)

end

section \<open>Well-formed registries\<close>

definition registry_ok :: "registry \<Rightarrow> bool" where
  "registry_ok r \<longleftrightarrow>
     distinct (keys (dev r)) \<and> distinct (keys (zone_to_lamps r))
     \<and> (\<forall>z. distinct (get_lamps_in_zone r z))
     \<and> (\<forall>u st. reg_get r u = Some st \<and> ds_type st = LUMINAIRE \<and> ds_zone_id st \<noteq> 0
          \<longrightarrow> u \<in> set (get_lamps_in_zone r (ds_zone_id st)))"

lemma set_push_if_absent [simp]: "set (push_if_absent u v) = insert u (set v)"
  by (auto simp: push_if_absent_def)

lemma distinct_push_if_absent [simp]: "distinct v \<Longrightarrow> distinct (push_if_absent u v)"
  by (simp add: push_if_absent_def)

lemma get_lamps_default: "get_lamps_in_zone r z = get_default [] (zone_to_lamps r) z"
  by (simp add: get_lamps_in_zone_def get_default_def)

lemma reg_get_upsert [simp]: "reg_get (upsert r u st) v = (if v = u then Some st else reg_get r v)"
  by (simp add: reg_get_def upsert_def Let_def)

lemma reg_get_register_lamp [simp]: "reg_get (register_lamp r u z) = reg_get r"
  by (simp add: fun_eq_iff reg_get_def register_lamp_def)

lemma lamps_register_lamp: "get_lamps_in_zone (register_lamp r u z) y
    = (if y = z then push_if_absent u (get_lamps_in_zone r z) else get_lamps_in_zone r y)"
  by (simp add: get_lamps_default register_lamp_def get_default_upd_default)

lemma lamps_upsert: "get_lamps_in_zone (upsert r u st) z
    = (if ds_type st = LUMINAIRE \<and> ds_zone_id st = z \<and> z \<noteq> 0
       then push_if_absent u (get_lamps_in_zone r z) else get_lamps_in_zone r z)"
  by (auto simp: get_lamps_default upsert_def Let_def get_default_upd_default)

lemma registry_ok_empty: "registry_ok empty_registry"
  by (simp add: registry_ok_def empty_registry_def reg_get_def get_lamps_in_zone_def)

lemma registry_ok_register_lamp: "registry_ok r \<Longrightarrow> registry_ok (register_lamp r u z)"
  by (auto simp: registry_ok_def lamps_register_lamp) (simp_all add: register_lamp_def)

lemma registry_ok_upsert: "registry_ok r \<Longrightarrow> registry_ok (upsert r u st)"
  by (auto simp: registry_ok_def lamps_upsert) (simp_all add: upsert_def Let_def)

interpretation table: device_table reg_get upsert get_lamps_in_zone registry_ok
  by unfold_locales
    (auto simp: registry_ok_upsert lamps_upsert, auto simp: registry_ok_def)

section \<open>Aggregations\<close>

definition lamps_of :: "u32 \<Rightarrow> (string \<times> device_state) list \<Rightarrow> device_state list" where
  "lamps_of z kvs = filter (\<lambda>st. ds_zone_id st = z \<and> ds_type st = LUMINAIRE) (map snd kvs)"

definition devices_of :: "u32 \<Rightarrow> (string \<times> device_state) list \<Rightarrow> device_state list" where
  "devices_of z kvs = filter (\<lambda>st. ds_zone_id st = z) (map snd kvs)"

lemma lamps_of_simps [simp]:
  "lamps_of z [] = []"
  "lamps_of z (kv # kvs) = (if ds_zone_id (snd kv) = z \<and> ds_type (snd kv) = LUMINAIRE
     then snd kv # lamps_of z kvs else lamps_of z kvs)"
  by (simp_all add: lamps_of_def)

lemma devices_of_simps [simp]:
  "devices_of z [] = []"
  "devices_of z (kv # kvs) = (if ds_zone_id (snd kv) = z
     then snd kv # devices_of z kvs else devices_of z kvs)"
  by (simp_all add: devices_of_def)

lemma zone_power_loop_lookup:
  "map_of (zone_power_loop sums kvs) z =
     (if z \<noteq> 0 \<and> lamps_of z kvs \<noteq> []
      then Some (get_default 0 sums z + sum_list (map ds_power_mw (lamps_of z kvs)))
      else map_of sums z)"
  by (induction kvs arbitrary: sums) (auto simp: Let_def get_default_upd_default algebra_simps)

lemma zone_power_loop_distinct:
  "distinct (keys sums) \<Longrightarrow> distinct (keys (zone_power_loop sums kvs))"
  by (induction sums kvs rule: zone_power_loop.induct) (auto simp: Let_def)

lemma zone_power_sum_lookup:
  "map_of (zone_power_sum r) z =
     (if z \<noteq> 0 \<and> lamps_of z (dev r) \<noteq> []
      then Some (sum_list (map ds_power_mw (lamps_of z (dev r)))) else None)"
  by (simp add: zone_power_sum_def zone_power_loop_lookup get_default_def)

lemma zone_power_sum_distinct: "distinct (keys (zone_power_sum r))"
  by (simp add: zone_power_sum_def zone_power_loop_distinct)

definition accumulate :: "device_state list \<Rightarrow> zone_acc \<Rightarrow> zone_acc" where
  "accumulate sts a = fold count_device sts a"

lemma zone_summary_loop_lookup:
  "map_of (zone_summary_loop acc kvs) z =
     (if z \<noteq> 0 \<and> devices_of z kvs \<noteq> []
      then Some (accumulate (devices_of z kvs) (get_default zero_acc acc z))
      else map_of acc z)"
  by (induction kvs arbitrary: acc) (auto simp: Let_def get_default_upd_default accumulate_def)

lemma zone_summary_loop_distinct:
  "distinct (keys acc) \<Longrightarrow> distinct (keys (zone_summary_loop acc kvs))"
  by (induction acc kvs rule: zone_summary_loop.induct) (auto simp: Let_def)

lemma accumulate_counts:
  "accumulate sts a =
     a\<lparr>acc_lamp_total := acc_lamp_total a + of_nat (length (filter (\<lambda>s. ds_type s = LUMINAIRE) sts)),
       acc_lamp_on := acc_lamp_on a
         + of_nat (length (filter (\<lambda>s. ds_type s = LUMINAIRE \<and> ds_on s \<noteq> 0) sts)),
       acc_lamp_fault := acc_lamp_fault a
         + of_nat (length (filter (\<lambda>s. ds_type s = LUMINAIRE \<and> ds_fault s) sts)),
       acc_sensor_total := acc_sensor_total a
         + of_nat (length (filter (\<lambda>s. ds_type s \<noteq> LUMINAIRE) sts)),
       acc_sensor_fault := acc_sensor_fault a
         + of_nat (length (filter (\<lambda>s. ds_type s \<noteq> LUMINAIRE \<and> ds_fault s) sts))\<rparr>"
  by (induction sts arbitrary: a) (auto simp: accumulate_def count_device_def)

definition count_where :: "(device_state \<Rightarrow> bool) \<Rightarrow> u32 \<Rightarrow> registry \<Rightarrow> nat" where
  "count_where P z r = length (filter P (devices_of z (dev r)))"

lemma length_filter_mono:
  "(\<And>x. P x \<Longrightarrow> Q x) \<Longrightarrow> length (filter P xs) \<le> length (filter Q xs)"
  by (induction xs) (auto intro: le_SucI)

lemma length_devices_of: "length (devices_of z kvs) \<le> length kvs"
  using length_filter_le [of _ "map snd kvs"] by (simp add: devices_of_def)

lemma count_where_le: "count_where P z r \<le> length (dev r)"
  unfolding count_where_def by (rule le_trans [OF length_filter_le length_devices_of])

lemma count_where_partition: "count_where P z r + count_where (\<lambda>s. \<not> P s) z r \<le> length (dev r)"
  using length_devices_of [of z "dev r"] by (simp add: count_where_def sum_length_filter_compl)

text \<open>The summary of a zone, with its counters taken modulo \<open>2 ^ 16\<close>.\<close>

definition zone_summary_spec :: "registry \<Rightarrow> u32 \<Rightarrow> zone_device_summary" where
  "zone_summary_spec r z =
     \<lparr>zs_zone_id = z,
      zs_lamp_total = of_nat (count_where (\<lambda>s. ds_type s = LUMINAIRE) z r),
      zs_lamp_on = of_nat (count_where (\<lambda>s. ds_type s = LUMINAIRE \<and> ds_on s \<noteq> 0) z r),
      zs_lamp_fault = of_nat (count_where (\<lambda>s. ds_type s = LUMINAIRE \<and> ds_fault s) z r),
      zs_sensor_total = of_nat (count_where (\<lambda>s. ds_type s \<noteq> LUMINAIRE) z r),
      zs_sensor_fault = of_nat (count_where (\<lambda>s. ds_type s \<noteq> LUMINAIRE \<and> ds_fault s) z r)\<rparr>"

lemma zs_zone_id_spec [simp]: "zs_zone_id (zone_summary_spec r z) = z"
  by (simp add: zone_summary_spec_def)

definition zones_of :: "registry \<Rightarrow> u32 set" where
  "zones_of r = {z. z \<noteq> 0 \<and> devices_of z (dev r) \<noteq> []}"

lemma summary_loop_entry:
  "(z, a) \<in> set (zone_summary_loop [] (dev r)) \<longleftrightarrow>
     z \<in> zones_of r \<and> a = accumulate (devices_of z (dev r)) zero_acc"
proof -
  have d: "distinct (keys (zone_summary_loop [] (dev r)))"
    by (simp add: zone_summary_loop_distinct)
  have "map_of (zone_summary_loop [] (dev r)) z = Some a \<longleftrightarrow>
      z \<in> zones_of r \<and> a = accumulate (devices_of z (dev r)) zero_acc"
    by (auto simp: zone_summary_loop_lookup zones_of_def get_default_def)
  with d show ?thesis by (simp add: map_of_eq_Some_iff)
qed

lemma summary_of_accumulate:
  "summary_of (z, accumulate (devices_of z (dev r)) zero_acc) = zone_summary_spec r z"
  by (simp add: summary_of_def accumulate_counts zero_acc_def zone_summary_spec_def count_where_def)

lemma set_zone_device_summary: "set (zone_device_summary r) = zone_summary_spec r ` zones_of r"
proof -
  have "set (zone_device_summary r) = summary_of ` set (zone_summary_loop [] (dev r))"
    by (simp add: zone_device_summary_def)
  also have "\<dots> = zone_summary_spec r ` zones_of r"
  proof -
    have "set (zone_summary_loop [] (dev r))
        = (\<lambda>z. (z, accumulate (devices_of z (dev r)) zero_acc)) ` zones_of r"
      by (auto simp: summary_loop_entry)
    then show ?thesis by (simp add: image_image summary_of_accumulate)
  qed
  finally show ?thesis .
qed

lemma zone_device_summary_sorted: "sorted (map zs_zone_id (zone_device_summary r))"
  by (simp add: zone_device_summary_def)

lemma zone_device_summary_distinct: "distinct (map zs_zone_id (zone_device_summary r))"
proof -
  have "mset (map zs_zone_id (zone_device_summary r)) = mset (keys (zone_summary_loop [] (dev r)))"
    by (simp add: zone_device_summary_def mset_map [symmetric] del: mset_map)
      (simp add: summary_of_def multiset.map_comp comp_def)
  moreover have "distinct (keys (zone_summary_loop [] (dev r)))"
    by (simp add: zone_summary_loop_distinct)
  ultimately show ?thesis by (metis mset_eq_imp_distinct_iff)
qed

section \<open>Independence of the iteration order\<close>

lemma mset_devices_of:
  "same_map kvs kvs' \<Longrightarrow> mset (devices_of z kvs) = mset (devices_of z kvs')"
  by (drule same_map_mset) (simp add: devices_of_def)

lemma mset_lamps_of:
  "same_map kvs kvs' \<Longrightarrow> mset (lamps_of z kvs) = mset (lamps_of z kvs')"
  by (drule same_map_mset) (simp add: lamps_of_def)

lemma zones_of_same: "same_map (dev r) (dev r') \<Longrightarrow> zones_of r = zones_of r'"
  using mset_devices_of [of "dev r" "dev r'"] unfolding zones_of_def
  by (metis mset_zero_iff)

lemma count_where_same: "same_map (dev r) (dev r') \<Longrightarrow> count_where P z r = count_where P z r'"
  using mset_devices_of [of "dev r" "dev r'" z] unfolding count_where_def
  by (metis mset_filter size_mset)

lemma zone_summary_spec_same:
  "same_map (dev r) (dev r') \<Longrightarrow> zone_summary_spec r z = zone_summary_spec r' z"
  by (simp add: zone_summary_spec_def count_where_same)

lemma zone_device_summary_same:
  assumes "same_map (dev r) (dev r')"
  shows "zone_device_summary r = zone_device_summary r'"
proof (rule map_sorted_distinct_set_unique)
  show "inj_on zs_zone_id (set (zone_device_summary r) \<union> set (zone_device_summary r'))"
    by (auto simp: set_zone_device_summary zones_of_same [OF assms] zone_summary_spec_same [OF assms]
        inj_on_def)
  show "set (zone_device_summary r) = set (zone_device_summary r')"
    by (simp add: set_zone_device_summary zones_of_same [OF assms] zone_summary_spec_same [OF assms])
qed (simp_all add: zone_device_summary_sorted zone_device_summary_distinct)

section \<open>Silent devices\<close>

definition mark_lost :: "u64 \<Rightarrow> u64 \<Rightarrow> device_state \<Rightarrow> device_state" where
  "mark_lost now timeout_ms st = (if is_lost now timeout_ms st then st\<lparr>ds_fault := True\<rparr> else st)"

lemma comm_lost_loop_eq:
  "comm_lost_loop now t kvs =
     (map (\<lambda>(u, st). (u, mark_lost now t st)) kvs,
      keys (filter (\<lambda>(u, st). is_lost now t st) kvs))"
  by (induction now t kvs rule: comm_lost_loop.induct) (auto simp: mark_lost_def)

lemma detect_comm_lost_eq:
  "detect_comm_lost r now t =
     (r\<lparr>dev := map (\<lambda>(u, st). (u, mark_lost now t st)) (dev r)\<rparr>,
      keys (filter (\<lambda>(u, st). is_lost now t st) (dev r)))"
  by (simp add: detect_comm_lost_def comm_lost_loop_eq)

lemma map_of_map_snd: "map_of (map (\<lambda>(u, st). (u, f st)) kvs) v = map_option f (map_of kvs v)"
  by (induction kvs) auto

lemma reg_get_detect:
  "reg_get (fst (detect_comm_lost r now t)) u = map_option (mark_lost now t) (reg_get r u)"
  by (simp add: detect_comm_lost_eq reg_get_def map_of_map_snd)

lemma lamps_detect [simp]:
  "get_lamps_in_zone (fst (detect_comm_lost r now t)) z = get_lamps_in_zone r z"
  by (simp add: detect_comm_lost_eq get_lamps_in_zone_def)

lemma mark_lost_simps [simp]:
  "ds_type (mark_lost now t st) = ds_type st"
  "ds_zone_id (mark_lost now t st) = ds_zone_id st"
  "ds_fault (mark_lost now t st) \<longleftrightarrow> ds_fault st \<or> is_lost now t st"
  "ds_last_seen_ms (mark_lost now t st) = ds_last_seen_ms st"
  by (simp_all add: mark_lost_def)

lemma lost_iff:
  "distinct (keys (dev r)) \<Longrightarrow> u \<in> set (snd (detect_comm_lost r now t))
     \<longleftrightarrow> (\<exists>st. reg_get r u = Some st \<and> is_lost now t st)"
  by (force simp: detect_comm_lost_eq reg_get_def map_of_eq_Some_iff)

lemma registry_ok_detect: "registry_ok r \<Longrightarrow> registry_ok (fst (detect_comm_lost r now t))"
  by (auto simp: registry_ok_def reg_get_detect)
    (simp_all add: detect_comm_lost_eq comp_def case_prod_unfold)

lemma distinct_lost: "distinct (keys (dev r)) \<Longrightarrow> distinct (snd (detect_comm_lost r now t))"
  by (simp add: detect_comm_lost_eq distinct_map_filter)

lemma keeps_faults_detect: "table.keeps_faults (\<lambda>r. fst (detect_comm_lost r now t))"
  by (auto simp: table.keeps_faults_def reg_get_detect)

section \<open>Histories of registry operations\<close>

datatype reg_op =
    Op_upsert string device_state
  | Op_register_lamp string u32
  | Op_detect u64 u64

fun reg_step :: "reg_op \<Rightarrow> registry \<Rightarrow> registry" where
  "reg_step (Op_upsert u st) r = upsert r u st"
| "reg_step (Op_register_lamp u z) r = register_lamp r u z"
| "reg_step (Op_detect now t) r = fst (detect_comm_lost r now t)"

lemma registry_ok_step: "registry_ok r \<Longrightarrow> registry_ok (reg_step x r)"
  by (cases x) (simp_all add: registry_ok_upsert registry_ok_register_lamp registry_ok_detect)

lemma registry_ok_fold: "registry_ok r \<Longrightarrow> registry_ok (fold reg_step xs r)"
  by (induction xs arbitrary: r) (simp_all add: registry_ok_step)

lemma lamps_step_mono: "set (get_lamps_in_zone r z) \<subseteq> set (get_lamps_in_zone (reg_step x r) z)"
  by (cases x) (auto simp: lamps_upsert lamps_register_lamp)

lemma lamps_fold_mono: "set (get_lamps_in_zone r z) \<subseteq> set (get_lamps_in_zone (fold reg_step xs r) z)"
  by (induction xs arbitrary: r) (use lamps_step_mono in fastforce)+

section \<open>Properties\<close>

text \<open>
  C18: After any sequence of registry operations from the empty registry, device keys are unique,
  no zone lists a lamp twice, and every lamp with a zone is listed in the zone it was last
  reported in.
\<close>

theorem registry_invariant: "registry_ok (fold reg_step ops empty_registry)"
  by (simp add: registry_ok_fold registry_ok_empty)

text \<open>
  The aggregation of power has one entry per zone; it has an entry exactly for the non-zero
  zones with a lamp, and that entry is the sum of the lamps' power modulo \<open>2 ^ 32\<close>.
\<close>

theorem zone_power_sum_correct:
  "distinct (keys (zone_power_sum r))
   \<and> (case map_of (zone_power_sum r) z of
        None \<Rightarrow> z = 0 \<or> lamps_of z (dev r) = []
      | Some p \<Rightarrow> z \<noteq> 0 \<and> lamps_of z (dev r) \<noteq> []
          \<and> unat p = (\<Sum>st \<leftarrow> lamps_of z (dev r). unat (ds_power_mw st)) mod 2 ^ 32)"
  by (simp add: zone_power_sum_distinct zone_power_sum_lookup unat_sum_list comp_def)

text \<open>
  The device summary is strictly sorted by zone and holds, for exactly the non-zero zones with
  a device, the numbers of lamps, lamps that are on, faulty lamps, sensors and faulty sensors
  (modulo \<open>2 ^ 16\<close>).
\<close>

theorem zone_device_summary_correct:
  "sorted_wrt (<) (map zs_zone_id (zone_device_summary r))
   \<and> set (zone_device_summary r) = zone_summary_spec r ` zones_of r"
  by (simp add: set_zone_device_summary strict_sorted_iff zone_device_summary_sorted
      zone_device_summary_distinct)

text \<open>
  C38: The aggregates of a registry: the power has one entry for exactly the non-zero zones with a lamp,
  the sum of its lamps' power modulo \<open>2 ^ 32\<close>; the device summary is strictly sorted by zone and
  holds, for exactly the non-zero zones with a device, the numbers of lamps, lit lamps, faulty
  lamps, sensors and faulty sensors (modulo \<open>2 ^ 16\<close>); every zone of the power is in the summary.
\<close>

theorem aggregates_correct:
  "distinct (keys (zone_power_sum r))
   \<and> (\<forall>z. map_of (zone_power_sum r) z =
        (if z \<noteq> 0 \<and> lamps_of z (dev r) \<noteq> []
         then Some (word_of_nat (\<Sum>st \<leftarrow> lamps_of z (dev r). unat (ds_power_mw st))) else None))
   \<and> sorted_wrt (<) (map zs_zone_id (zone_device_summary r))
   \<and> set (zone_device_summary r) = zone_summary_spec r ` zones_of r
   \<and> set (keys (zone_power_sum r)) \<subseteq> set (map zs_zone_id (zone_device_summary r))"
proof -
  have "(\<Sum>w \<leftarrow> ws. w) = word_of_nat (\<Sum>w \<leftarrow> ws. unat w)" for ws :: "u32 list"
    by (induction ws) simp_all
  from this [of "map ds_power_mw (lamps_of z (dev r))" for z]
  have look: "map_of (zone_power_sum r) z =
      (if z \<noteq> 0 \<and> lamps_of z (dev r) \<noteq> []
       then Some (word_of_nat (\<Sum>st \<leftarrow> lamps_of z (dev r). unat (ds_power_mw st))) else None)" for z
    by (simp add: zone_power_sum_lookup comp_def)
  have "z \<in> zones_of r" if "map_of (zone_power_sum r) z \<noteq> None" for z
  proof -
    have "z \<noteq> 0" "lamps_of z (dev r) \<noteq> []" using that by (simp_all add: look split: if_splits)
    then show ?thesis by (auto simp: zones_of_def lamps_of_def devices_of_def filter_empty_conv)
  qed
  then have "set (keys (zone_power_sum r)) \<subseteq> set (map zs_zone_id (zone_device_summary r))"
    by (auto simp: set_zone_device_summary image_image map_of_eq_None_iff image_iff)
  with look zone_device_summary_correct [of r] zone_power_sum_distinct [of r] show ?thesis by simp
qed

text \<open>
  With fewer than 65536 devices no counter of the summary wraps: in every zone the lamps that
  are on and the faulty lamps are at most the lamps, the faulty sensors at most the sensors, and
  lamps and sensors together at most the devices.
\<close>

theorem zone_device_summary_bounds:
  assumes "length (dev r) < 65536" "zs \<in> set (zone_device_summary r)"
  shows "zs_lamp_on zs \<le> zs_lamp_total zs \<and> zs_lamp_fault zs \<le> zs_lamp_total zs
    \<and> zs_sensor_fault zs \<le> zs_sensor_total zs
    \<and> unat (zs_lamp_total zs) + unat (zs_sensor_total zs) \<le> length (dev r)"
proof -
  from assms(2) obtain z where zs: "zs = zone_summary_spec r z"
    by (auto simp: set_zone_device_summary)
  have small: "unat (of_nat (count_where P z r) :: u16) = count_where P z r" for P
    using count_where_le [of P z r] assms(1) by (intro unat_of_nat_u16) simp
  have mono: "count_where P z r \<le> count_where Q z r" if "\<And>s. P s \<Longrightarrow> Q s" for P Q
    unfolding count_where_def by (rule length_filter_mono) (use that in blast)
  show ?thesis
    unfolding zs zone_summary_spec_def
    by (simp add: word_le_nat_alt small count_where_partition del: unat_of_nat) (auto intro!: mono)
qed

definition example_lamp :: "u32 \<Rightarrow> u64 \<Rightarrow> device_state" where
  "example_lamp z seen = new_device\<lparr>ds_zone_id := z, ds_on := 1, ds_power_mw := 94000,
     ds_last_seen_ms := seen\<rparr>"

definition example_registry :: registry where
  "example_registry =
     upsert (upsert empty_registry ''sls://lamp-001'' (example_lamp 1 100))
       ''sls://sensor-001'' (new_device\<lparr>ds_type := SENSOR, ds_zone_id := 1, ds_last_seen_ms := 900\<rparr>)"

lemmas example_defs = example_lamp_def example_registry_def new_device_def LUMINAIRE_def SENSOR_def
  empty_registry_def upsert_def

lemma dev_example: "dev example_registry =
    [(''sls://lamp-001'', example_lamp 1 100),
     (''sls://sensor-001'', new_device\<lparr>ds_type := SENSOR, ds_zone_id := 1, ds_last_seen_ms := 900\<rparr>)]"
  by (simp add: example_defs)

lemma zone_device_summary_bounds_witness:
  "zone_summary_spec example_registry 1 \<in> set (zone_device_summary example_registry)
   \<and> zs_lamp_on (zone_summary_spec example_registry 1)
       \<le> zs_lamp_total (zone_summary_spec example_registry 1)"
proof -
  have small: "length (dev example_registry) < 65536" by (simp add: dev_example)
  have z: "1 \<in> zones_of example_registry"
    by (simp add: zones_of_def dev_example example_lamp_def)
  then have "zone_summary_spec example_registry 1 \<in> set (zone_device_summary example_registry)"
    by (simp add: set_zone_device_summary)
  with zone_device_summary_bounds [OF small this] show ?thesis by blast
qed

text \<open>
  The device summary that is sent to the central server depends on the contents of the hash
  map only, not on the order in which the library iterates over it.
\<close>

theorem zone_device_summary_order_independent:
  assumes "same_map (dev r) (dev r')"
  shows "zone_device_summary r = zone_device_summary r'
    \<and> map_of (zone_power_sum r) = map_of (zone_power_sum r')"
proof
  show "zone_device_summary r = zone_device_summary r'" using assms by (rule zone_device_summary_same)
  have "sum_list (map ds_power_mw (lamps_of z (dev r))) = sum_list (map ds_power_mw (lamps_of z (dev r')))"
    for z
    using mset_lamps_of [OF assms, of z] by (metis mset_map sum_mset_sum_list)
  moreover have "lamps_of z (dev r) = [] \<longleftrightarrow> lamps_of z (dev r') = []" for z
    using mset_lamps_of [OF assms, of z] by (metis mset_zero_iff)
  ultimately show "map_of (zone_power_sum r) = map_of (zone_power_sum r')"
    by (simp add: fun_eq_iff zone_power_sum_lookup)
qed

lemma zone_device_summary_order_independent_witness:
  "rev (dev example_registry) \<noteq> dev example_registry
   \<and> zone_device_summary (example_registry\<lparr>dev := rev (dev example_registry)\<rparr>)
       = zone_device_summary example_registry"
proof -
  have "same_map (dev (example_registry\<lparr>dev := rev (dev example_registry)\<rparr>)) (dev example_registry)"
    by (simp add: same_map_def dev_example fun_eq_iff)
  from zone_device_summary_order_independent [OF this] show ?thesis by (simp add: dev_example)
qed

text \<open>
  One sweep for silent devices reports, without repetition, exactly the devices that were not
  faulty and are older than the timeout, marks exactly those faulty, changes nothing else of any
  device, and keeps the registry well formed.
\<close>

theorem detect_comm_lost_correct:
  assumes "registry_ok r"
  shows "case detect_comm_lost r now t of (r', lost) \<Rightarrow>
    registry_ok r' \<and> distinct lost
    \<and> (\<forall>u. u \<in> set lost \<longleftrightarrow> (\<exists>st. reg_get r u = Some st \<and> is_lost now t st))
    \<and> (\<forall>u. reg_get r' u = map_option (\<lambda>st. st\<lparr>ds_fault := ds_fault st \<or> u \<in> set lost\<rparr>) (reg_get r u))
    \<and> (\<forall>z. get_lamps_in_zone r' z = get_lamps_in_zone r z)"
proof -
  have d: "distinct (keys (dev r))" using assms by (simp add: registry_ok_def)
  have "mark_lost now t st = st\<lparr>ds_fault := ds_fault st \<or> u \<in> set (snd (detect_comm_lost r now t))\<rparr>"
    if "reg_get r u = Some st" for u st
    using that by (auto simp: lost_iff [OF d] mark_lost_def)
  then have "reg_get (fst (detect_comm_lost r now t)) u
      = map_option (\<lambda>st. st\<lparr>ds_fault := ds_fault st \<or> u \<in> set (snd (detect_comm_lost r now t))\<rparr>) (reg_get r u)"
    for u
    by (cases "reg_get r u") (simp_all add: reg_get_detect)
  with assms d show ?thesis
    by (simp add: case_prod_unfold registry_ok_detect distinct_lost lost_iff)
qed

lemma registry_ok_example: "registry_ok example_registry"
  by (simp add: example_registry_def registry_ok_upsert registry_ok_empty)

lemma detect_comm_lost_correct_witness:
  "snd (detect_comm_lost example_registry 1000 500) = [''sls://lamp-001'']
   \<and> registry_ok (fst (detect_comm_lost example_registry 1000 500))"
  using detect_comm_lost_correct [OF registry_ok_example, of 1000 500]
  by (simp add: case_prod_unfold) (simp add: detect_comm_lost_eq dev_example example_defs is_lost_def)

text \<open>
  A device is reported lost once: a later sweep, at any time and with any timeout, reports none
  of the devices that an earlier one reported, unless something else cleared the fault.
\<close>

theorem detect_comm_lost_once:
  assumes "registry_ok r"
  shows "set (snd (detect_comm_lost (fst (detect_comm_lost r now t)) now' t'))
    \<inter> set (snd (detect_comm_lost r now t)) = {}"
proof -
  have "distinct (keys (dev r))" "distinct (keys (dev (fst (detect_comm_lost r now t))))"
    using assms registry_ok_detect [OF assms, of now t] by (simp_all add: registry_ok_def)
  then show ?thesis by (auto simp: lost_iff reg_get_detect is_lost_def)
qed

lemma detect_comm_lost_once_witness:
  "set (snd (detect_comm_lost (fst (detect_comm_lost example_registry 1000 500)) 2000 500))
    \<inter> set (snd (detect_comm_lost example_registry 1000 500)) = {}
   \<and> snd (detect_comm_lost example_registry 1000 500) \<noteq> []"
  using detect_comm_lost_once [OF registry_ok_example, of 2000 500 1000 500]
  by (simp add: detect_comm_lost_eq dev_example example_defs is_lost_def)

text \<open>
  The age is computed without regard to the order of the two times. The caller reads the clock
  before the sweep takes the mutex; a healthy device that reports in between, so that it was last
  seen after \<open>now\<close>, is reported lost at once, for every timeout below \<open>2 ^ 64\<close> minus the
  difference.
\<close>

theorem fresh_device_reported_lost:
  assumes "registry_ok r" "reg_get r u = Some st" "\<not> ds_fault st"
    and "now < ds_last_seen_ms st"
    and "unat timeout_ms < 2 ^ 64 - (unat (ds_last_seen_ms st) - unat now)"
  shows "u \<in> set (snd (detect_comm_lost r now timeout_ms))"
proof -
  have less: "unat now < unat (ds_last_seen_ms st)" using assms(4) by (simp add: word_less_nat_alt)
  have "unat (now - ds_last_seen_ms st) = 2 ^ 64 - (unat (ds_last_seen_ms st) - unat now)"
    using less unsigned_less [of "ds_last_seen_ms st"] by (simp add: unat_sub_if')
  with assms less show ?thesis
    by (auto simp: lost_iff registry_ok_def is_lost_def word_less_nat_alt)
qed

lemma fresh_device_reported_lost_witness:
  "''sls://lamp-001'' \<in> set (snd (detect_comm_lost example_registry 99 20000))"
  by (rule fresh_device_reported_lost [OF registry_ok_example, of _ "example_lamp 1 100"])
    (simp_all add: reg_get_def dev_example example_lamp_def new_device_def)

text \<open>
  A lamp is never taken out of a zone's list: once it has been reported in a zone, every later
  sequence of registry operations, a move of the lamp to another zone included, leaves it among
  the lamps that motion in the first zone commands.
\<close>

theorem lamp_never_leaves_zone:
  assumes "ds_type st = LUMINAIRE" "ds_zone_id st \<noteq> 0"
  shows "u \<in> set (get_lamps_in_zone (fold reg_step ops (upsert r u st)) (ds_zone_id st))"
proof -
  have "u \<in> set (get_lamps_in_zone (upsert r u st) (ds_zone_id st))"
    using assms by (simp add: lamps_upsert)
  with lamps_fold_mono show ?thesis by blast
qed

lemma lamp_never_leaves_zone_witness:
  "let r = upsert (upsert empty_registry ''l'' (example_lamp 1 5)) ''l'' (example_lamp 2 9)
   in ds_zone_id (the (reg_get r ''l'')) = 2 \<and> ''l'' \<in> set (get_lamps_in_zone r 1)"
  using lamp_never_leaves_zone [of "example_lamp 1 5" "''l''" "[Op_upsert ''l'' (example_lamp 2 9)]" empty_registry]
  by (simp add: Let_def) (simp add: example_lamp_def new_device_def)

end
