(* ===== verification/Db_Writer.thy ===== *)
theory Db_Writer
  imports Proto
begin

text \<open>
  The asynchronous database writer (\<^verbatim>\<open>db.hpp\<close>, \<^verbatim>\<open>db.cpp\<close>): handlers enqueue events, one worker
  thread turns each event into prepared SQL statements. SQLite is not part of the repository: its
  effect is the parameter \<open>exec\<close>, which takes the database and a statement with its bound values
  and returns the new database and whether \<^verbatim>\<open>sqlite3_step\<close> succeeded.
\<close>

section \<open>Events\<close>

record region_sync_event =
  rse_ts_ms :: int
  rse_region_id :: u32
  rse_version :: u32
  rse_zone_power_sum :: "(u32 \<times> u32) list"

record device_upsert_event =
  due_ts_ms :: int
  due_uri :: string
  due_type :: u8
  due_region_id :: u32
  due_zone_id :: u32
  due_fault :: bool
  due_on_state :: u8
  due_intensity :: u8
  due_power_mw :: u32

record lamp_status_event =
  lse_ts_ms :: int
  lse_uri :: string
  lse_region_id :: u32
  lse_zone_id :: u32
  lse_on_state :: u8
  lse_intensity :: u8
  lse_power_mw :: u32

record fault_event =
  fe_ts_ms :: int
  fe_uri :: string
  fe_region_id :: u32
  fe_zone_id :: u32
  fe_code :: u8
  fe_text :: string

record command_event =
  ce_ts_ms :: int
  ce_uri :: string
  ce_region_id :: u32
  ce_cmd :: u8
  ce_value :: u8
  ce_source :: string

datatype db_event =
    RegionSyncEvent region_sync_event
  | DeviceUpsertEvent device_upsert_event
  | LampStatusEvent lamp_status_event
  | FaultEvent fault_event
  | CommandEvent command_event

section \<open>Statements\<close>

text \<open>
  One constructor per prepared statement, with the values in the order of the bind calls.
  \<^verbatim>\<open>sqlite3_bind_int\<close> takes a signed 32-bit integer, so an unsigned 32-bit value is bound as
  \<open>sint\<close>; \<^verbatim>\<open>sqlite3_bind_text\<close> is called with \<^verbatim>\<open>c_str()\<close> and length \<open>-1\<close>, so a text is cut at
  its first NUL.
\<close>

datatype sql_stmt =
    Insert_region_sync int int int
  | Insert_region_zone_power int int int int int
  | Upsert_device string int int int int int int int int
  | Insert_lamp_status int string int int int int int
  | Insert_fault int string int int int string
  | Insert_command int string int int int string
  | Insert_alarm int int int int int string string

definition bind_u32 :: "u32 \<Rightarrow> int" where
  "bind_u32 w = sint w"

definition bind_u8 :: "u8 \<Rightarrow> int" where
  "bind_u8 w = uint w"

definition handle_region_sync :: "region_sync_event \<Rightarrow> sql_stmt list" where
  "handle_region_sync e =
     Insert_region_sync (rse_ts_ms e) (bind_u32 (rse_region_id e)) (bind_u32 (rse_version e))
     # map (\<lambda>zp. Insert_region_zone_power (rse_ts_ms e) (bind_u32 (rse_region_id e))
             (bind_u32 (rse_version e)) (bind_u32 (fst zp)) (bind_u32 (snd zp)))
         (rse_zone_power_sum e)"

definition handle_device_upsert :: "device_upsert_event \<Rightarrow> sql_stmt list" where
  "handle_device_upsert e =
     [Upsert_device (c_str (due_uri e)) (bind_u8 (due_type e)) (bind_u32 (due_region_id e))
        (bind_u32 (due_zone_id e)) (due_ts_ms e) (if due_fault e then 1 else 0)
        (bind_u8 (due_on_state e)) (bind_u8 (due_intensity e)) (bind_u32 (due_power_mw e))]"

definition handle_lamp_status :: "lamp_status_event \<Rightarrow> sql_stmt list" where
  "handle_lamp_status e =
     [Insert_lamp_status (lse_ts_ms e) (c_str (lse_uri e)) (bind_u32 (lse_region_id e))
        (bind_u32 (lse_zone_id e)) (bind_u8 (lse_on_state e)) (bind_u8 (lse_intensity e))
        (bind_u32 (lse_power_mw e))]"

definition handle_fault_event :: "fault_event \<Rightarrow> sql_stmt list" where
  "handle_fault_event e =
     [Insert_fault (fe_ts_ms e) (c_str (fe_uri e)) (bind_u32 (fe_region_id e))
        (bind_u32 (fe_zone_id e)) (bind_u8 (fe_code e)) (c_str (fe_text e))]"

definition handle_command_event :: "command_event \<Rightarrow> sql_stmt list" where
  "handle_command_event e =
     [Insert_command (ce_ts_ms e) (c_str (ce_uri e)) (bind_u32 (ce_region_id e))
        (bind_u8 (ce_cmd e)) (bind_u8 (ce_value e)) (c_str (ce_source e))]"

fun handle :: "db_event \<Rightarrow> sql_stmt list" where
  "handle (RegionSyncEvent e) = handle_region_sync e"
| "handle (DeviceUpsertEvent e) = handle_device_upsert e"
| "handle (LampStatusEvent e) = handle_lamp_status e"
| "handle (FaultEvent e) = handle_fault_event e"
| "handle (CommandEvent e) = handle_command_event e"

text \<open>
  The statements of one event run one after the other; \<^verbatim>\<open>check_sqlite\<close> throws at the first one
  that fails, the rest is skipped, and what ran before stays in the database.
\<close>

fun run_stmts :: "('db \<Rightarrow> sql_stmt \<Rightarrow> bool \<times> 'db) \<Rightarrow> 'db \<Rightarrow> sql_stmt list \<Rightarrow> bool \<times> 'db" where
  "run_stmts exec db [] = (True, db)"
| "run_stmts exec db (s # ss) =
     (case exec db s of
        (True, db') \<Rightarrow> run_stmts exec db' ss
      | (False, db') \<Rightarrow> (False, db'))"

section \<open>The interface of the writer\<close>

text \<open>
  The handlers of the servers call these wrappers. Each is a call that enqueues an event, except
  \<open>log_alarm\<close>, which runs its statement at once on the caller's thread and ignores the outcome.
\<close>

datatype db_call =
    Enqueue db_event
  | Direct sql_stmt

definition log_region_sync :: "int \<Rightarrow> u32 \<Rightarrow> u32 \<Rightarrow> (u32 \<times> u32) list \<Rightarrow> db_call" where
  "log_region_sync now region_id version zone_power_sum =
     Enqueue (RegionSyncEvent \<lparr>rse_ts_ms = now, rse_region_id = region_id, rse_version = version,
       rse_zone_power_sum = zone_power_sum\<rparr>)"

definition upsert_device ::
  "int \<Rightarrow> string \<Rightarrow> u8 \<Rightarrow> u32 \<Rightarrow> u32 \<Rightarrow> bool \<Rightarrow> u8 \<Rightarrow> u8 \<Rightarrow> u32 \<Rightarrow> db_call" where
  "upsert_device now uri type region_id zone_id fault on_state intensity power_mw =
     Enqueue (DeviceUpsertEvent \<lparr>due_ts_ms = now, due_uri = uri, due_type = type,
       due_region_id = region_id, due_zone_id = zone_id, due_fault = fault,
       due_on_state = on_state, due_intensity = intensity, due_power_mw = power_mw\<rparr>)"

definition log_lamp_status ::
  "int \<Rightarrow> string \<Rightarrow> u32 \<Rightarrow> u32 \<Rightarrow> u8 \<Rightarrow> u8 \<Rightarrow> u32 \<Rightarrow> db_call" where
  "log_lamp_status now uri region_id zone_id on_state intensity power_mw =
     Enqueue (LampStatusEvent \<lparr>lse_ts_ms = now, lse_uri = uri, lse_region_id = region_id,
       lse_zone_id = zone_id, lse_on_state = on_state, lse_intensity = intensity,
       lse_power_mw = power_mw\<rparr>)"

definition log_fault :: "int \<Rightarrow> string \<Rightarrow> u32 \<Rightarrow> u32 \<Rightarrow> u8 \<Rightarrow> string \<Rightarrow> db_call" where
  "log_fault now uri region_id zone_id code text =
     Enqueue (FaultEvent \<lparr>fe_ts_ms = now, fe_uri = uri, fe_region_id = region_id,
       fe_zone_id = zone_id, fe_code = code, fe_text = text\<rparr>)"

definition log_command :: "int \<Rightarrow> string \<Rightarrow> u32 \<Rightarrow> u8 \<Rightarrow> u8 \<Rightarrow> string \<Rightarrow> db_call" where
  "log_command now uri region_id cmd val src =
     Enqueue (CommandEvent \<lparr>ce_ts_ms = now, ce_uri = uri, ce_region_id = region_id, ce_cmd = cmd,
       ce_value = val, ce_source = src\<rparr>)"

definition log_alarm ::
  "u32 \<Rightarrow> u32 \<Rightarrow> u8 \<Rightarrow> u32 \<Rightarrow> u8 \<Rightarrow> string \<Rightarrow> string \<Rightarrow> db_call" where
  "log_alarm region_id ts_unix device_type zone_id code uri text =
     Direct (Insert_alarm (bind_u32 region_id) (bind_u32 ts_unix) (bind_u8 device_type)
       (bind_u32 zone_id) (bind_u8 code) (c_str uri) (c_str text))"

section \<open>The writer and its worker\<close>

datatype worker =
    No_thread
  | Waiting
  | Handling db_event
  | Exited

text \<open>
  \<open>accepted\<close>, \<open>handled\<close> and \<open>dropped\<close> are ghost fields: the events that \<^verbatim>\<open>enqueue\<close> pushed, those
  whose handler has run, and those that \<^verbatim>\<open>stop\<close> cleared from the queue, since the last start.
\<close>

record 'db db_writer =
  db :: "'db option"
  q :: "db_event list"
  running :: bool
  stop_requested :: bool
  worker :: worker
  accepted :: "db_event list"
  handled :: "db_event list"
  dropped :: "db_event list"

definition new_writer :: "'db db_writer" where
  "new_writer = \<lparr>db = None, q = [], running = False, stop_requested = False, worker = No_thread,
     accepted = [], handled = [], dropped = []\<rparr>"

text \<open>
  \<open>start\<close> takes the database that opening, the schema and the prepared statements yield;
  \<open>None\<close> stands for the exception of any of them.
\<close>

definition start :: "'db option \<Rightarrow> 'db db_writer \<Rightarrow> 'db db_writer option" where
  "start opened w =
     (if running w then Some w
      else case opened of
        None \<Rightarrow> None
      | Some d \<Rightarrow> Some (w\<lparr>db := Some d, stop_requested := False, running := True, worker := Waiting,
          accepted := [], handled := [], dropped := []\<rparr>))"

definition enqueue :: "db_event \<Rightarrow> 'db db_writer \<Rightarrow> 'db db_writer" where
  "enqueue ev w =
     (if \<not> running w then w else w\<lparr>q := q w @ [ev], accepted := accepted w @ [ev]\<rparr>)"

text \<open>
  The worker waits until a stop is requested or the queue is not empty, leaves the loop when both
  a stop is requested and the queue is empty, and otherwise takes the front event.
\<close>

definition worker_take :: "'db db_writer \<Rightarrow> 'db db_writer option" where
  "worker_take w =
     (if worker w \<noteq> Waiting \<or> \<not> (stop_requested w \<or> q w \<noteq> []) then None
      else case q w of
        [] \<Rightarrow> Some (w\<lparr>worker := Exited\<rparr>)
      | ev # rest \<Rightarrow> Some (w\<lparr>q := rest, worker := Handling ev\<rparr>))"

definition worker_handle ::
  "('db \<Rightarrow> sql_stmt \<Rightarrow> bool \<times> 'db) \<Rightarrow> 'db db_writer \<Rightarrow> 'db db_writer option" where
  "worker_handle exec w =
     (case worker w of
        Handling ev \<Rightarrow> Some (w\<lparr>db := map_option (\<lambda>d. snd (run_stmts exec d (handle ev))) (db w),
          worker := Waiting, handled := handled w @ [ev]\<rparr>)
      | _ \<Rightarrow> None)"

text \<open>\<^verbatim>\<open>stop\<close> requests the stop, waits in \<^verbatim>\<open>join\<close> until the worker has left its loop, and cleans up.\<close>

definition stop_begin :: "'db db_writer \<Rightarrow> 'db db_writer" where
  "stop_begin w = (if \<not> running w then w else w\<lparr>stop_requested := True\<rparr>)"

definition stop_end :: "'db db_writer \<Rightarrow> 'db db_writer option" where
  "stop_end w =
     (if running w \<and> stop_requested w \<and> worker w = Exited
      then Some (w\<lparr>running := False, worker := No_thread, db := None, q := [],
             dropped := dropped w @ q w\<rparr>)
      else None)"

definition log_direct ::
  "('db \<Rightarrow> sql_stmt \<Rightarrow> bool \<times> 'db) \<Rightarrow> sql_stmt \<Rightarrow> 'db db_writer \<Rightarrow> 'db db_writer" where
  "log_direct exec s w = w\<lparr>db := map_option (\<lambda>d. snd (exec d s)) (db w)\<rparr>"

section \<open>Interleavings\<close>

text \<open>
  Producers and the worker interleave at the granularity of the mutex: one rule per critical
  section. \<open>Stop_begin\<close> and \<open>Stop_end\<close> are the two sides of the \<^verbatim>\<open>join\<close> in \<^verbatim>\<open>stop\<close>.
\<close>

datatype db_action =
    Call db_call
  | Take
  | Handle
  | Stop_begin
  | Stop_end

fun perform ::
  "('db \<Rightarrow> sql_stmt \<Rightarrow> bool \<times> 'db) \<Rightarrow> db_call \<Rightarrow> 'db db_writer \<Rightarrow> 'db db_writer" where
  "perform exec (Enqueue ev) w = enqueue ev w"
| "perform exec (Direct s) w = log_direct exec s w"

inductive db_step ::
  "('db \<Rightarrow> sql_stmt \<Rightarrow> bool \<times> 'db) \<Rightarrow> 'db db_writer \<Rightarrow> db_action \<Rightarrow> 'db db_writer \<Rightarrow> bool"
  for exec where
  step_call: "db_step exec w (Call c) (perform exec c w)"
| step_take: "worker_take w = Some w' \<Longrightarrow> db_step exec w Take w'"
| step_handle: "worker_handle exec w = Some w' \<Longrightarrow> db_step exec w Handle w'"
| step_stop_begin: "db_step exec w Stop_begin (stop_begin w)"
| step_stop_end: "stop_end w = Some w' \<Longrightarrow> db_step exec w Stop_end w'"

inductive_simps db_step_simps [simp]:
  "db_step exec w (Call c) w'"
  "db_step exec w Take w'"
  "db_step exec w Handle w'"
  "db_step exec w Stop_begin w'"
  "db_step exec w Stop_end w'"

inductive db_reachable ::
  "('db \<Rightarrow> sql_stmt \<Rightarrow> bool \<times> 'db) \<Rightarrow> 'db \<Rightarrow> 'db db_writer \<Rightarrow> bool"
  for exec d where
  started: "start (Some d) new_writer = Some w \<Longrightarrow> db_reachable exec d w"
| stepped: "db_reachable exec d w \<Longrightarrow> db_step exec w a w' \<Longrightarrow> db_reachable exec d w'"

fun in_hand :: "worker \<Rightarrow> db_event list" where
  "in_hand (Handling ev) = [ev]"
| "in_hand _ = []"

definition writer_ok :: "'db db_writer \<Rightarrow> bool" where
  "writer_ok w \<longleftrightarrow>
     (if running w
      then accepted w = handled w @ in_hand (worker w) @ q w \<and> dropped w = []
        \<and> worker w \<noteq> No_thread \<and> (worker w = Exited \<longrightarrow> stop_requested w) \<and> db w \<noteq> None
      else accepted w = handled w @ dropped w \<and> q w = [] \<and> worker w = No_thread \<and> db w = None)"

lemmas writer_defs = enqueue_def log_direct_def worker_take_def worker_handle_def stop_begin_def
  stop_end_def

lemma writer_ok_step: "db_step exec w a w' \<Longrightarrow> writer_ok w \<Longrightarrow> writer_ok w'"
proof (induction rule: db_step.induct)
  case (step_call w c)
  then show ?case by (cases c) (auto simp: writer_ok_def writer_defs)
qed (auto simp: writer_ok_def writer_defs split: if_splits list.splits worker.splits)

lemma writer_ok_start: "start (Some d) new_writer = Some w \<Longrightarrow> writer_ok w"
  by (auto simp: start_def new_writer_def writer_ok_def)

lemma writer_ok_reachable: "db_reachable exec d w \<Longrightarrow> writer_ok w"
  by (induction rule: db_reachable.induct) (auto intro: writer_ok_start writer_ok_step)

section \<open>Draining the queue\<close>

text \<open>
  The worker alone, with the stop requested: it handles every queued event in order and exits.
\<close>

fun drain ::
  "('db \<Rightarrow> sql_stmt \<Rightarrow> bool \<times> 'db) \<Rightarrow> nat \<Rightarrow> 'db db_writer \<Rightarrow> 'db db_writer option" where
  "drain exec 0 w = worker_take w"
| "drain exec (Suc n) w =
     Option.bind (worker_take w) (\<lambda>w1. Option.bind (worker_handle exec w1) (drain exec n))"

lemma drain_queue:
  assumes "worker w = Waiting" "stop_requested w"
  shows "drain exec (length (q w)) w =
    Some (w\<lparr>q := [], worker := Exited, handled := handled w @ q w,
      db := map_option (\<lambda>d. fold (\<lambda>ev d. snd (run_stmts exec d (handle ev))) (q w) d) (db w)\<rparr>)"
  using assms
proof (induction "q w" arbitrary: w)
  case Nil
  then show ?case by (cases w) (simp add: worker_take_def map_option_case split: option.splits)
next
  case (Cons ev evs)
  let ?w = "w\<lparr>q := evs, db := map_option (\<lambda>d. snd (run_stmts exec d (handle ev))) (db w),
    worker := Waiting, handled := handled w @ [ev]\<rparr>"
  have "drain exec (length (q w)) w = drain exec (length evs) ?w"
    by (simp add: Cons.hyps(2) [symmetric] Cons.prems worker_take_def worker_handle_def)
  also have "\<dots> = Some (?w\<lparr>q := [], worker := Exited, handled := handled ?w @ evs,
      db := map_option (\<lambda>d. fold (\<lambda>ev d. snd (run_stmts exec d (handle ev))) evs d) (db ?w)\<rparr>)"
    using Cons.hyps(1) [of ?w] Cons.prems by simp
  finally show ?case
    by (cases "db w") (simp_all add: Cons.hyps(2) [symmetric])
qed

section \<open>Properties\<close>

text \<open>
  In every interleaving of producers and worker the events reach their handlers in the order
  in which they were accepted, each once: what was handled, what is in the worker's hand and what
  is queued make up what was accepted, until \<^verbatim>\<open>stop\<close> clears the rest of the queue.
\<close>

theorem writer_fifo:
  assumes "db_reachable exec d w"
  shows "accepted w = handled w @ in_hand (worker w) @ q w @ dropped w"
  using writer_ok_reachable [OF assms] by (auto simp: writer_ok_def split: if_splits)

definition ok_exec :: "sql_stmt list \<Rightarrow> sql_stmt \<Rightarrow> bool \<times> sql_stmt list" where
  "ok_exec tab s = (True, tab @ [s])"

definition example_event :: db_event where
  "example_event = FaultEvent \<lparr>fe_ts_ms = 5, fe_uri = ''u'', fe_region_id = 1, fe_zone_id = 1,
     fe_code = 1, fe_text = ''t''\<rparr>"

lemma writer_fifo_witness:
  "\<exists>w. db_reachable ok_exec [] w \<and> q w = [example_event] \<and> accepted w = [example_event]"
proof -
  let ?init = "new_writer\<lparr>db := Some [], running := True, worker := Waiting\<rparr>"
  let ?w = "perform ok_exec (Enqueue example_event) ?init"
  have "db_reachable ok_exec [] ?init"
    by (rule started) (simp add: start_def new_writer_def)
  then have r: "db_reachable ok_exec [] ?w"
    by (rule stepped) (rule step_call)
  have "q ?w = [example_event]" "worker ?w = Waiting" "handled ?w = []" "dropped ?w = []"
    by (simp_all add: enqueue_def new_writer_def)
  with r writer_fifo [OF r] show ?thesis by (metis append_Nil append_Nil2 in_hand.simps(3))
qed

text \<open>
  The worker leaves its loop only after a stop request, and at that moment every event that
  was accepted has been handled: \<^verbatim>\<open>stop\<close> loses nothing that was enqueued before the worker left.
\<close>

theorem worker_exit_complete:
  assumes "db_reachable exec d w" "worker_take w = Some w'" "worker w' = Exited"
  shows "handled w' = accepted w' \<and> q w' = [] \<and> stop_requested w'"
proof -
  have "worker w = Waiting" "q w = []" "stop_requested w" "w' = w\<lparr>worker := Exited\<rparr>"
    using assms(2,3) by (auto simp: worker_take_def split: if_splits list.splits)
  with writer_fifo [OF assms(1)] writer_ok_reachable [OF assms(1)] show ?thesis
    by (auto simp: writer_ok_def split: if_splits)
qed

lemma worker_exit_complete_witness:
  "\<exists>w' :: sql_stmt list db_writer. worker w' = Exited \<and> handled w' = accepted w'"
proof -
  let ?init = "new_writer\<lparr>db := Some ([] :: sql_stmt list), running := True, worker := Waiting\<rparr>"
  let ?w = "stop_begin ?init"
  have "db_reachable ok_exec [] ?init"
    by (rule started) (simp add: start_def new_writer_def)
  then have r: "db_reachable ok_exec [] ?w"
    by (rule stepped) (rule step_stop_begin)
  have t: "worker_take ?w = Some (?w\<lparr>worker := Exited\<rparr>)"
    by (simp add: worker_take_def stop_begin_def new_writer_def)
  have "worker (?w\<lparr>worker := Exited\<rparr>) = Exited" by simp
  with worker_exit_complete [OF r t] show ?thesis by metis
qed

text \<open>
  C33: Once a stop is requested and nothing more is enqueued, the worker handles all \<open>n\<close> queued
  events in \<open>n\<close> rounds and exits; a statement that fails ends only its own event.
\<close>

theorem drain_terminates:
  assumes "worker w = Waiting" "stop_requested w" "db w = Some d"
  shows "\<exists>w'. drain exec (length (q w)) w = Some w' \<and> worker w' = Exited \<and> q w' = []
    \<and> handled w' = handled w @ q w
    \<and> db w' = Some (fold (\<lambda>ev d. snd (run_stmts exec d (handle ev))) (q w) d)"
  by (simp add: drain_queue [OF assms(1,2)] assms(3))

lemma drain_terminates_witness:
  "\<exists>w'. drain (\<lambda>d s. (False, d)) 2 (new_writer\<lparr>db := Some [], worker := Waiting,
     stop_requested := True, q := [example_event, example_event]\<rparr>) = Some w' \<and> worker w' = Exited"
  using drain_terminates [of "new_writer\<lparr>db := Some [], worker := Waiting, stop_requested := True,
      q := [example_event, example_event]\<rparr>" "[]" "\<lambda>d s. (False, d)"]
  by (auto simp: numeral_2_eq_2)

end
