(* ===== verification/Device_Server.thy ===== *)
theory Device_Server
  imports Registry Db_Writer Write_Queue
begin

text \<open>
  The TLS server for devices of a region (\<^verbatim>\<open>tls_device_server.hpp\<close>): one session per connection,
  the handlers of the three messages that devices send, the table of sessions by URI and the
  commands sent through it. A session object is a number; \<open>dv_live\<close> holds the objects that exist,
  and a \<^verbatim>\<open>weak_ptr\<close> to a session locks exactly while the object is in \<open>dv_live\<close>.
\<close>

section \<open>State\<close>

record device_session =
  se_uri :: string
  se_registered :: bool
  se_session_type :: device_type
  se_posted :: "out_msg list"
  se_box :: write_queue

definition new_session :: device_session where
  "new_session = \<lparr>se_uri = [], se_registered = False, se_session_type = LUMINAIRE, se_posted = [],
     se_box = new_queue\<rparr>"

record device_server =
  dv_region_id :: u32
  dv_reg :: registry
  dv_sessions :: "(string \<times> nat) list"
  dv_live :: "(nat \<times> device_session) list"

definition new_server :: "u32 \<Rightarrow> device_server" where
  "new_server rid = \<lparr>dv_region_id = rid, dv_reg = empty_registry, dv_sessions = [], dv_live = []\<rparr>"

text \<open>The three clocks that the handlers read: \<^verbatim>\<open>now_ms()\<close>, \<^verbatim>\<open>now_ms_utc()\<close> and \<^verbatim>\<open>std::time\<close>.\<close>

record clock =
  now_ms :: u64
  now_ms_utc :: int
  time_unix :: u32

text \<open>What a handler does outside the server: calls to the database writer and the fault callback.\<close>

datatype dev_effect =
    Db_call db_call
  | Fault_cb fault_report device_type

type_synonym handler_result = "device_session \<times> device_server \<times> dev_effect list"

section \<open>Handlers\<close>

text \<open>\<^verbatim>\<open>queue_send\<close> posts a closure to the executor; \<open>se_posted\<close> holds the closures not yet run.\<close>

definition queue_send :: "msg_type \<Rightarrow> bytes \<Rightarrow> device_session \<Rightarrow> device_session" where
  "queue_send t payload se = se\<lparr>se_posted := se_posted se @ [(t, payload)]\<rparr>"

definition blank_device :: "device_type \<Rightarrow> u32 \<Rightarrow> device_state" where
  "blank_device type zone_id = new_device\<lparr>ds_type := type, ds_zone_id := zone_id, ds_on := 0,
     ds_intensity := 0, ds_power_mw := 0, ds_fault := False\<rparr>"

definition handle_register ::
  "clock \<Rightarrow> nat \<Rightarrow> register_req \<Rightarrow> device_session \<Rightarrow> device_server \<Rightarrow> handler_result" where
  "handle_register clk sid req se dv =
     (if req_uri req = [] \<or> req_zone_id req = 0 then (queue_send REGISTER_NACK [] se, dv, [])
      else
        let se = se\<lparr>se_registered := True, se_session_type := req_type req, se_uri := req_uri req\<rparr>;
            st = (blank_device (req_type req) (req_zone_id req))\<lparr>ds_last_seen_ms := now_ms clk\<rparr>;
            reg = upsert (dv_reg dv) (req_uri req) st;
            reg = (if req_type req = LUMINAIRE then register_lamp reg (req_uri req) (req_zone_id req)
                   else reg);
            dv = dv\<lparr>dv_reg := reg, dv_sessions := AList.update (se_uri se) sid (dv_sessions dv)\<rparr>
        in (queue_send REGISTER_ACK
              (encode_register_ack \<lparr>rack_server_time_unix = time_unix clk\<rparr>) se, dv, []))"

definition store_status ::
  "clock \<Rightarrow> status_report \<Rightarrow> device_state \<Rightarrow> device_session \<Rightarrow> device_server \<Rightarrow> handler_result" where
  "store_status clk s st se dv =
     (let st = st\<lparr>ds_zone_id := sr_zone_id s, ds_on := sr_on s, ds_intensity := sr_intensity s,
            ds_power_mw := sr_power_mw s, ds_last_seen_ms := now_ms clk\<rparr>
      in (se, dv\<lparr>dv_reg := upsert (dv_reg dv) (sr_uri s) st\<rparr>,
          Db_call (upsert_device (now_ms_utc clk) (sr_uri s) (if ds_type st = LUMINAIRE then 1 else 2)
            (dv_region_id dv) (sr_zone_id s) (ds_fault st) (sr_on s) (sr_intensity s) (sr_power_mw s))
          # (if ds_type st = LUMINAIRE
             then [Db_call (log_lamp_status (now_ms_utc clk) (sr_uri s) (dv_region_id dv) (sr_zone_id s)
                     (sr_on s) (sr_intensity s) (sr_power_mw s))]
             else [])))"

definition handle_status ::
  "clock \<Rightarrow> status_report \<Rightarrow> device_session \<Rightarrow> device_server \<Rightarrow> handler_result" where
  "handle_status clk s se dv =
     (case reg_get (dv_reg dv) (sr_uri s) of
        Some st \<Rightarrow> store_status clk s st se dv
      | None \<Rightarrow>
          if \<not> se_registered se \<or> se_uri se = [] \<or> sr_uri s \<noteq> se_uri se then (se, dv, [])
          else store_status clk s (blank_device (se_session_type se) (sr_zone_id s)) se dv)"

definition handle_fault ::
  "clock \<Rightarrow> fault_report \<Rightarrow> device_session \<Rightarrow> device_server \<Rightarrow> handler_result" where
  "handle_fault clk f se dv =
     (let st = (case reg_get (dv_reg dv) (flt_uri f) of
            Some st \<Rightarrow> st
          | None \<Rightarrow>
              if se_registered se \<and> se_uri se \<noteq> [] \<and> flt_uri f = se_uri se
              then blank_device (se_session_type se) (flt_zone_id f)
              else blank_device LUMINAIRE (flt_zone_id f));
          dtype = ds_type st;
          st = st\<lparr>ds_zone_id := flt_zone_id f, ds_fault := True, ds_last_seen_ms := now_ms clk\<rparr>
      in (queue_send FAULT_ACK [] se, dv\<lparr>dv_reg := upsert (dv_reg dv) (flt_uri f) st\<rparr>,
          [Db_call (log_fault (now_ms_utc clk) (flt_uri f) (dv_region_id dv) (flt_zone_id f)
             (flt_code f) (flt_text f)),
           Fault_cb f dtype]))"

definition caught :: "device_session \<Rightarrow> device_server \<Rightarrow> handler_result result \<Rightarrow> handler_result" where
  "caught se dv r = (case r of Inl e \<Rightarrow> (se, dv, []) | Inr x \<Rightarrow> x)"

definition dispatch :: "clock \<Rightarrow> nat \<Rightarrow> bytes \<Rightarrow> device_session \<Rightarrow> device_server \<Rightarrow> handler_result" where
  "dispatch clk sid body se dv =
     (case body of
        [] \<Rightarrow> (se, dv, [])
      | t # p \<Rightarrow> caught se dv
          (case msg_type_of t of
             Some REGISTER_REQ \<Rightarrow>
               bind_result (decode_register_req p) (\<lambda>r. Inr (handle_register clk sid r se dv))
           | Some STATUS_REPORT \<Rightarrow>
               bind_result (decode_status_report p) (\<lambda>s. Inr (handle_status clk s se dv))
           | Some FAULT_REPORT \<Rightarrow>
               bind_result (decode_fault_report p) (\<lambda>f. Inr (handle_fault clk f se dv))
           | _ \<Rightarrow> Inr (se, dv, [])))"

section \<open>Sessions\<close>

definition lock :: "device_server \<Rightarrow> nat \<Rightarrow> device_session option" where
  "lock dv sid = map_of (dv_live dv) sid"

definition set_session :: "nat \<Rightarrow> device_session \<Rightarrow> device_server \<Rightarrow> device_server" where
  "set_session sid se dv = dv\<lparr>dv_live := AList.update sid se (dv_live dv)\<rparr>"

text \<open>A new session is an object of its own: its number is that of no live or remembered session.\<close>

definition fresh :: "device_server \<Rightarrow> nat \<Rightarrow> bool" where
  "fresh dv sid \<longleftrightarrow> lock dv sid = None \<and> \<not> List.member (map snd (dv_sessions dv)) sid"

definition do_accept :: "nat \<Rightarrow> device_server \<Rightarrow> device_server" where
  "do_accept sid dv = (if fresh dv sid then set_session sid new_session dv else dv)"

definition on_body :: "clock \<Rightarrow> nat \<Rightarrow> bytes \<Rightarrow> device_server \<Rightarrow> device_server \<times> dev_effect list" where
  "on_body clk sid body dv =
     (case lock dv sid of
        None \<Rightarrow> (dv, [])
      | Some se \<Rightarrow> (case dispatch clk sid body se dv of
          (se', dv', effs) \<Rightarrow> (set_session sid se' dv', effs)))"

definition on_close :: "nat \<Rightarrow> device_server \<Rightarrow> device_server" where
  "on_close sid dv =
     (case lock dv sid of
        None \<Rightarrow> dv
      | Some se \<Rightarrow>
          if se_uri se = [] then dv
          else case map_of (dv_sessions dv) (se_uri se) of
            None \<Rightarrow> dv
          | Some sid' \<Rightarrow>
              if lock dv sid' = None \<or> sid' = sid
              then dv\<lparr>dv_sessions := AList.delete (se_uri se) (dv_sessions dv)\<rparr>
              else dv)"

text \<open>The last reference to a session is dropped.\<close>

definition expire :: "nat \<Rightarrow> device_server \<Rightarrow> device_server" where
  "expire sid dv = dv\<lparr>dv_live := AList.delete sid (dv_live dv)\<rparr>"

text \<open>
  The executor runs the \<open>k\<close>-th of the closures that are posted: with several threads on one
  \<^verbatim>\<open>io_context\<close> the order is open.
\<close>

definition run_posted :: "nat \<Rightarrow> device_session \<Rightarrow> device_session" where
  "run_posted k se =
     (if k < length (se_posted se)
      then se\<lparr>se_posted := take k (se_posted se) @ drop (Suc k) (se_posted se),
              se_box := push_out (se_posted se ! k) (se_box se)\<rparr>
      else se)"

definition write_done :: "device_session \<Rightarrow> device_session" where
  "write_done se = (if writing (se_box se) then se\<lparr>se_box := do_write (se_box se)\<rparr> else se)"

definition map_session :: "nat \<Rightarrow> (device_session \<Rightarrow> device_session) \<Rightarrow> device_server \<Rightarrow> device_server" where
  "map_session sid f dv =
     (case lock dv sid of None \<Rightarrow> dv | Some se \<Rightarrow> set_session sid (f se) dv)"

section \<open>Commands\<close>

definition send_cmd :: "u8 \<Rightarrow> u8 \<Rightarrow> device_session \<Rightarrow> device_session result" where
  "send_cmd cmd val se =
     (if se_uri se = [] then Inr se
      else bind_result (encode_command \<lparr>cmd_uri = se_uri se, cmd_cmd = cmd, cmd_value = val\<rparr>)
        (\<lambda>p. Inr (queue_send CMD p se)))"

definition send_cmd_to_uri ::
  "string \<Rightarrow> u8 \<Rightarrow> u8 \<Rightarrow> device_server \<Rightarrow> (bool \<times> device_server) result" where
  "send_cmd_to_uri uri cmd val dv =
     (case map_of (dv_sessions dv) uri of
        None \<Rightarrow> Inr (False, dv)
      | Some sid \<Rightarrow>
          (case lock dv sid of
             None \<Rightarrow> Inr (False, dv\<lparr>dv_sessions := AList.delete uri (dv_sessions dv)\<rparr>)
           | Some s \<Rightarrow> bind_result (send_cmd cmd val s) (\<lambda>s. Inr (True, set_session sid s dv))))"

section \<open>Interleavings\<close>

text \<open>
  The completions of the connections, the executor and the callers of \<open>send_cmd_to_uri\<close>, in any
  order. A command whose encoding throws leaves the server unchanged.
\<close>

datatype dev_action =
    Accept nat
  | Body clock nat bytes
  | Close nat
  | Expire nat
  | Run_posted nat nat
  | Written nat
  | Send_cmd string u8 u8

fun dev_step :: "dev_action \<Rightarrow> device_server \<Rightarrow> device_server" where
  "dev_step (Accept sid) dv = do_accept sid dv"
| "dev_step (Body clk sid body) dv = fst (on_body clk sid body dv)"
| "dev_step (Close sid) dv = on_close sid dv"
| "dev_step (Expire sid) dv = expire sid dv"
| "dev_step (Run_posted sid k) dv = map_session sid (run_posted k) dv"
| "dev_step (Written sid) dv = map_session sid write_done dv"
| "dev_step (Send_cmd uri cmd val) dv =
     (case send_cmd_to_uri uri cmd val dv of Inl _ \<Rightarrow> dv | Inr (_, dv') \<Rightarrow> dv')"

section \<open>Lookups\<close>

declare map_of_eq_Some_iff [simp del]

lemma lock_set_session [simp]: "lock (set_session sid se dv) s = (if s = sid then Some se else lock dv s)"
  by (simp add: lock_def set_session_def)

lemma set_session_simps [simp]:
  "dv_reg (set_session sid se dv) = dv_reg dv"
  "dv_sessions (set_session sid se dv) = dv_sessions dv"
  "dv_region_id (set_session sid se dv) = dv_region_id dv"
  by (simp_all add: set_session_def)

lemma lock_update [simp]:
  "lock (dv\<lparr>dv_reg := r\<rparr>) = lock dv" "lock (dv\<lparr>dv_sessions := m\<rparr>) = lock dv"
  by (simp_all add: fun_eq_iff lock_def)

lemma lock_expire [simp]: "lock (expire sid dv) s = (if s = sid then None else lock dv s)"
  by (simp add: lock_def expire_def delete_conv')

lemma expire_simps [simp]:
  "dv_reg (expire sid dv) = dv_reg dv" "dv_sessions (expire sid dv) = dv_sessions dv"
  by (simp_all add: expire_def)

lemma lock_on_close [simp]: "lock (on_close sid dv) = lock dv"
  by (auto simp: on_close_def split: option.splits)

lemma reg_on_close [simp]: "dv_reg (on_close sid dv) = dv_reg dv"
  by (simp add: on_close_def split: option.splits)

text \<open>Which URI a message body registers.\<close>

definition registered_uri :: "bytes \<Rightarrow> string option" where
  "registered_uri body =
     (case body of
        [] \<Rightarrow> None
      | t # p \<Rightarrow>
          if msg_type_of t \<noteq> Some REGISTER_REQ then None
          else (case decode_register_req p of
            Inl _ \<Rightarrow> None
          | Inr r \<Rightarrow> if req_uri r = [] \<or> req_zone_id r = 0 then None else Some (req_uri r)))"

lemma caught_simps [simp]: "caught se dv (Inl e) = (se, dv, [])" "caught se dv (Inr x) = x"
  by (simp_all add: caught_def)

lemma dispatch_eqs:
  "msg_type_of t = Some REGISTER_REQ \<Longrightarrow> dispatch clk sid (t # p) se dv = caught se dv
     (bind_result (decode_register_req p) (\<lambda>r. Inr (handle_register clk sid r se dv)))"
  "msg_type_of t = Some STATUS_REPORT \<Longrightarrow> dispatch clk sid (t # p) se dv = caught se dv
     (bind_result (decode_status_report p) (\<lambda>s. Inr (handle_status clk s se dv)))"
  "msg_type_of t = Some FAULT_REPORT \<Longrightarrow> dispatch clk sid (t # p) se dv = caught se dv
     (bind_result (decode_fault_report p) (\<lambda>f. Inr (handle_fault clk f se dv)))"
  "msg_type_of t \<notin> Some ` {REGISTER_REQ, STATUS_REPORT, FAULT_REPORT}
     \<Longrightarrow> dispatch clk sid (t # p) se dv = (se, dv, [])"
  by (auto simp: dispatch_def split: option.splits msg_type.splits)

text \<open>
  The possible outcomes of a message: nothing, a refused registration, a registration, a stored
  status, a fault. It is the case rule for everything that is proved about \<open>dispatch\<close>.
\<close>

datatype outcome =
    Ignored
  | Nack
  | Registered register_req
  | Status status_report device_state
  | Fault fault_report

fun outcome_result ::
  "clock \<Rightarrow> nat \<Rightarrow> device_session \<Rightarrow> device_server \<Rightarrow> outcome \<Rightarrow> handler_result" where
  "outcome_result clk sid se dv Ignored = (se, dv, [])"
| "outcome_result clk sid se dv Nack = (queue_send REGISTER_NACK [] se, dv, [])"
| "outcome_result clk sid se dv (Registered req) = handle_register clk sid req se dv"
| "outcome_result clk sid se dv (Status s st) = store_status clk s st se dv"
| "outcome_result clk sid se dv (Fault f) = handle_fault clk f se dv"

fun outcome_ok :: "bytes \<Rightarrow> device_server \<Rightarrow> outcome \<Rightarrow> bool" where
  "outcome_ok body dv (Registered req) \<longleftrightarrow> registered_uri body = Some (req_uri req)
     \<and> req_uri req \<noteq> [] \<and> req_zone_id req \<noteq> 0 \<and> short_str (req_uri req)"
| "outcome_ok body dv (Status s st) \<longleftrightarrow> registered_uri body = None
     \<and> reg_get (dv_reg dv) (sr_uri s) \<in> {Some st, None} \<and> short_str (sr_uri s)"
| "outcome_ok body dv (Fault f) \<longleftrightarrow> registered_uri body = None
     \<and> short_str (flt_uri f) \<and> short_str (flt_text f)"
| "outcome_ok body dv _ \<longleftrightarrow> registered_uri body = None"

lemma register_outcome:
  assumes "msg_type_of t = Some REGISTER_REQ"
  shows "\<exists>oc. dispatch clk sid (t # p) se dv = outcome_result clk sid se dv oc \<and> outcome_ok (t # p) dv oc"
proof (cases "decode_register_req p")
  case (Inl e)
  with assms have "registered_uri (t # p) = None" by (simp add: registered_uri_def)
  with assms Inl show ?thesis by (intro exI [of _ Ignored]) (simp add: dispatch_eqs)
next
  case (Inr req)
  have short: "short_str (req_uri req)"
    using Inr by (auto simp: register_req.decode_eq register_req.run_iff)
  show ?thesis
  proof (cases "req_uri req = [] \<or> req_zone_id req = 0")
    case True
    with assms Inr show ?thesis
      by (intro exI [of _ Nack]) (simp add: dispatch_eqs handle_register_def registered_uri_def)
  next
    case False
    with assms Inr short show ?thesis
      by (intro exI [of _ "Registered req"]) (simp add: dispatch_eqs registered_uri_def)
  qed
qed

lemma decoded_short:
  "decode_status_report p = Inr s \<Longrightarrow> short_str (sr_uri s)"
  "decode_fault_report p = Inr f \<Longrightarrow> short_str (flt_uri f) \<and> short_str (flt_text f)"
  by (auto simp: status_report.decode_eq status_report.run_iff fault_report.decode_eq
      fault_report.run_iff)

lemma status_outcome:
  assumes "msg_type_of t = Some STATUS_REPORT"
  shows "\<exists>oc. dispatch clk sid (t # p) se dv = outcome_result clk sid se dv oc \<and> outcome_ok (t # p) dv oc"
proof -
  have none: "registered_uri (t # p) = None" by (simp add: registered_uri_def assms)
  let ?oc = "case decode_status_report p of
      Inl _ \<Rightarrow> Ignored
    | Inr s \<Rightarrow> (case reg_get (dv_reg dv) (sr_uri s) of
          Some st \<Rightarrow> Status s st
        | None \<Rightarrow> if \<not> se_registered se \<or> se_uri se = [] \<or> sr_uri s \<noteq> se_uri se then Ignored
            else Status s (blank_device (se_session_type se) (sr_zone_id s)))"
  have "dispatch clk sid (t # p) se dv = outcome_result clk sid se dv ?oc"
    by (auto simp: dispatch_eqs(2) [OF assms] handle_status_def split: sum.split option.split)
  moreover have "outcome_ok (t # p) dv ?oc"
    by (auto simp: none dest: decoded_short split: sum.split option.split)
  ultimately show ?thesis by blast
qed

lemma fault_outcome:
  assumes "msg_type_of t = Some FAULT_REPORT"
  shows "\<exists>oc. dispatch clk sid (t # p) se dv = outcome_result clk sid se dv oc \<and> outcome_ok (t # p) dv oc"
proof -
  have none: "registered_uri (t # p) = None" by (simp add: registered_uri_def assms)
  let ?oc = "case decode_fault_report p of Inl _ \<Rightarrow> Ignored | Inr f \<Rightarrow> Fault f"
  have "dispatch clk sid (t # p) se dv = outcome_result clk sid se dv ?oc"
    by (simp add: dispatch_eqs(3) [OF assms] split: sum.split)
  moreover have "outcome_ok (t # p) dv ?oc"
    by (auto simp: none dest: decoded_short split: sum.split)
  ultimately show ?thesis by blast
qed

lemma dispatch_outcome:
  "\<exists>oc. dispatch clk sid body se dv = outcome_result clk sid se dv oc \<and> outcome_ok body dv oc"
proof (cases body)
  case Nil
  then show ?thesis by (intro exI [of _ Ignored]) (simp add: dispatch_def registered_uri_def)
next
  case (Cons t p)
  show ?thesis
  proof (cases "msg_type_of t \<in> Some ` {REGISTER_REQ, STATUS_REPORT, FAULT_REPORT}")
    case True
    then show ?thesis
      unfolding Cons using register_outcome status_outcome fault_outcome by auto
  next
    case False
    then show ?thesis
      by (intro exI [of _ Ignored]) (auto simp: Cons dispatch_eqs registered_uri_def)
  qed
qed

lemmas handler_defs = handle_register_def store_status_def handle_fault_def Let_def

section \<open>Well-formed servers\<close>

definition session_ok :: "device_session \<Rightarrow> bool" where
  "session_ok se \<longleftrightarrow> (se_registered se \<longleftrightarrow> se_uri se \<noteq> []) \<and> short_str (se_uri se) \<and> outbox.ok (se_box se)"

definition dv_ok :: "device_server \<Rightarrow> bool" where
  "dv_ok dv \<longleftrightarrow>
     registry_ok (dv_reg dv) \<and> distinct (keys (dv_sessions dv)) \<and> distinct (keys (dv_live dv))
     \<and> (\<forall>sid se. lock dv sid = Some se \<longrightarrow> session_ok se)
     \<and> (\<forall>u sid. map_of (dv_sessions dv) u = Some sid
          \<longrightarrow> u \<noteq> [] \<and> (\<forall>se. lock dv sid = Some se \<longrightarrow> se_registered se))"

lemma dv_ok_lock: "dv_ok dv \<Longrightarrow> lock dv sid = Some se \<Longrightarrow> session_ok se"
  by (simp add: dv_ok_def)

lemma dv_ok_routes:
  "dv_ok dv \<Longrightarrow> map_of (dv_sessions dv) u = Some sid
     \<Longrightarrow> u \<noteq> [] \<and> (\<forall>se. lock dv sid = Some se \<longrightarrow> se_registered se)"
  unfolding dv_ok_def by blast

lemma dv_ok_session:
  "dv_ok dv \<Longrightarrow> map_of (dv_sessions dv) u = Some sid \<Longrightarrow> lock dv sid = Some se
     \<Longrightarrow> u \<noteq> [] \<and> se_registered se \<and> se_uri se \<noteq> []"
  by (auto simp: dv_ok_def session_ok_def)

lemma session_ok_simps [simp]:
  "session_ok (queue_send t p se) = session_ok se"
  "session_ok new_session"
  by (simp_all add: session_ok_def queue_send_def new_session_def short_str_def outbox_ok_new)

lemma queue_send_simps [simp]:
  "se_uri (queue_send t p se) = se_uri se"
  "se_registered (queue_send t p se) = se_registered se"
  "se_session_type (queue_send t p se) = se_session_type se"
  "se_posted (queue_send t p se) = se_posted se @ [(t, p)]"
  "se_box (queue_send t p se) = se_box se"
  by (simp_all add: queue_send_def)

lemma session_ok_run_posted [simp]: "session_ok se \<Longrightarrow> session_ok (run_posted k se)"
  by (simp add: session_ok_def run_posted_def outbox.ok_push)

lemma session_ok_write_done [simp]: "session_ok se \<Longrightarrow> session_ok (write_done se)"
  by (simp add: session_ok_def write_done_def outbox.ok_finish)

text \<open>What a message can do to the session and to the tables.\<close>

definition keeps_tables ::
  "nat \<Rightarrow> device_session \<Rightarrow> device_server \<Rightarrow> device_session \<Rightarrow> device_server \<Rightarrow> bool" where
  "keeps_tables sid se dv se' dv' \<longleftrightarrow>
     lock dv' = lock dv \<and> dv_live dv' = dv_live dv \<and> dv_region_id dv' = dv_region_id dv
     \<and> (registry_ok (dv_reg dv) \<longrightarrow> registry_ok (dv_reg dv')) \<and> (session_ok se \<longrightarrow> session_ok se')
     \<and> (se_registered se \<longrightarrow> se_registered se')
     \<and> (dv_sessions dv' = dv_sessions dv
        \<or> (\<exists>u. u \<noteq> [] \<and> se_registered se' \<and> dv_sessions dv' = AList.update u sid (dv_sessions dv)))"

lemma outcome_tables:
  assumes "outcome_ok body dv oc" "outcome_result clk sid se dv oc = (se', dv', effs)"
  shows "keeps_tables sid se dv se' dv'"
  using assms
  by (cases oc)
    (auto simp: keeps_tables_def handler_defs registry_ok_upsert registry_ok_register_lamp
      session_ok_def split: if_splits)

lemma dispatch_tables:
  "dispatch clk sid body se dv = (se', dv', effs) \<Longrightarrow> keeps_tables sid se dv se' dv'"
  using dispatch_outcome [of clk sid body se dv] outcome_tables by metis

lemma dv_ok_set_session:
  "dv_ok dv \<Longrightarrow> session_ok se \<Longrightarrow> (\<And>u. map_of (dv_sessions dv) u = Some sid \<Longrightarrow> se_registered se)
     \<Longrightarrow> dv_ok (set_session sid se dv)"
  unfolding dv_ok_def by (auto simp: set_session_def [of sid se dv] lock_def)

lemma dv_ok_map_session:
  assumes "dv_ok dv" "\<And>se. session_ok se \<Longrightarrow> session_ok (f se)"
    "\<And>se. se_registered (f se) = se_registered se"
  shows "dv_ok (map_session sid f dv)"
proof (cases "lock dv sid")
  case (Some se)
  have "dv_ok (set_session sid (f se) dv)"
    using assms Some dv_ok_lock [OF assms(1) Some] dv_ok_session [OF assms(1) _ Some]
    by (intro dv_ok_set_session) auto
  with Some show ?thesis by (simp add: map_session_def)
qed (simp add: map_session_def assms(1))

lemma dv_ok_on_body: "dv_ok dv \<Longrightarrow> dv_ok (fst (on_body clk sid body dv))"
proof (cases "lock dv sid")
  case (Some se)
  assume ok: "dv_ok dv"
  obtain se' dv' effs where d: "dispatch clk sid body se dv = (se', dv', effs)"
    by (cases "dispatch clk sid body se dv")
  note t = dispatch_tables [OF d, unfolded keeps_tables_def]
  have "u \<noteq> [] \<and> (\<forall>s. lock (set_session sid se' dv') sid' = Some s \<longrightarrow> se_registered s)"
    if "map_of (dv_sessions dv') u = Some sid'" for u sid'
    using that t Some dv_ok_routes [OF ok, of u sid'] by (auto split: if_splits)
  moreover have "session_ok s" if "lock (set_session sid se' dv') sid' = Some s" for s sid'
    using that t dv_ok_lock [OF ok Some] dv_ok_lock [OF ok, of sid'] by (simp split: if_splits)
  ultimately have "dv_ok (set_session sid se' dv')"
    using ok t unfolding dv_ok_def by (auto, auto simp: set_session_def)
  with Some d show ?thesis by (simp add: on_body_def)
qed (simp add: on_body_def)

lemma dv_ok_sessions_delete:
  "dv_ok dv \<Longrightarrow> dv_ok (dv\<lparr>dv_sessions := AList.delete u (dv_sessions dv)\<rparr>)"
  by (auto simp: dv_ok_def distinct_delete delete_conv' split: if_splits)

lemma dv_ok_on_close: "dv_ok dv \<Longrightarrow> dv_ok (on_close sid dv)"
  by (auto simp: on_close_def dv_ok_sessions_delete split: option.splits)

lemma dv_ok_expire: "dv_ok dv \<Longrightarrow> dv_ok (expire sid dv)"
  by (auto simp: dv_ok_def, simp add: expire_def distinct_delete)

lemma dv_ok_accept: "dv_ok dv \<Longrightarrow> dv_ok (do_accept sid dv)"
  unfolding do_accept_def
  by (force simp: fresh_def intro!: dv_ok_set_session dest: map_of_SomeD)

text \<open>Commands.\<close>

definition command_to :: "string \<Rightarrow> u8 \<Rightarrow> u8 \<Rightarrow> bytes" where
  "command_to uri cmd val = enc_command \<lparr>cmd_uri = uri, cmd_cmd = cmd, cmd_value = val\<rparr>"

lemma send_cmd_ok:
  "session_ok se \<Longrightarrow> se_registered se
     \<Longrightarrow> send_cmd cmd val se = Inr (queue_send CMD (command_to (se_uri se) cmd val) se)"
  by (simp add: send_cmd_def session_ok_def sls_command.encode_eq command_to_def)

lemma send_cmd_to_uri_ok:
  assumes "dv_ok dv"
  shows "send_cmd_to_uri uri cmd val dv =
    (case map_of (dv_sessions dv) uri of
       None \<Rightarrow> Inr (False, dv)
     | Some sid \<Rightarrow> (case lock dv sid of
           None \<Rightarrow> Inr (False, dv\<lparr>dv_sessions := AList.delete uri (dv_sessions dv)\<rparr>)
         | Some s \<Rightarrow> Inr (True, set_session sid
             (queue_send CMD (command_to (se_uri s) cmd val) s) dv)))"
  using assms
  by (auto simp: send_cmd_to_uri_def send_cmd_ok dv_ok_lock dv_ok_session split: option.splits)

lemma dv_ok_send:
  assumes "dv_ok dv" "send_cmd_to_uri uri cmd val dv = Inr (ok, dv')"
  shows "dv_ok dv'"
  using assms
  by (auto simp: send_cmd_to_uri_ok dv_ok_sessions_delete dv_ok_lock dv_ok_session
      intro!: dv_ok_set_session split: option.splits)

lemma run_posted_registered [simp]: "se_registered (run_posted k se) = se_registered se"
  "se_registered (write_done se) = se_registered se"
  "se_uri (run_posted k se) = se_uri se" "se_uri (write_done se) = se_uri se"
  by (simp_all add: run_posted_def write_done_def)

lemma dv_ok_step: "dv_ok dv \<Longrightarrow> dv_ok (dev_step a dv)"
  by (cases a) (auto simp: dv_ok_accept dv_ok_on_body dv_ok_on_close dv_ok_expire dv_ok_map_session
      split: sum.split dest: dv_ok_send)

lemma dv_ok_fold: "dv_ok dv \<Longrightarrow> dv_ok (fold dev_step acts dv)"
  by (induction acts arbitrary: dv) (simp_all add: dv_ok_step)

lemma lock_accept_new [simp]: "lock (do_accept sid (new_server rid)) sid = Some new_session"
proof -
  have "fresh (new_server rid) sid" by (simp add: fresh_def lock_def new_server_def)
  then show ?thesis by (simp add: do_accept_def)
qed

lemma sessions_accept [simp]: "dv_sessions (do_accept sid dv) = dv_sessions dv"
  by (simp add: do_accept_def)

lemma dv_ok_new: "dv_ok (new_server rid)"
  by (simp add: dv_ok_def new_server_def registry_ok_empty lock_def)

section \<open>Routes\<close>

text \<open>The session that commands for a URI reach.\<close>

definition route :: "device_server \<Rightarrow> string \<Rightarrow> device_session option" where
  "route dv u = Option.bind (map_of (dv_sessions dv) u) (lock dv)"

definition held_by :: "string \<Rightarrow> nat \<Rightarrow> device_server \<Rightarrow> bool" where
  "held_by u sid dv \<longleftrightarrow> map_of (dv_sessions dv) u = Some sid \<and> lock dv sid \<noteq> None"

fun registers :: "string \<Rightarrow> dev_action \<Rightarrow> bool" where
  "registers u (Body clk sid body) \<longleftrightarrow> registered_uri body = Some u"
| "registers u _ \<longleftrightarrow> False"

lemma outcome_sessions:
  assumes "outcome_ok body dv oc" "outcome_result clk sid se dv oc = (se', dv', effs)"
  shows "dv_sessions dv' = (case registered_uri body of
      None \<Rightarrow> dv_sessions dv | Some u \<Rightarrow> AList.update u sid (dv_sessions dv))"
  using assms by (cases oc) (auto simp: handler_defs split: if_splits)

lemma dispatch_sessions:
  "dispatch clk sid body se dv = (se', dv', effs) \<Longrightarrow>
     dv_sessions dv' = (case registered_uri body of
        None \<Rightarrow> dv_sessions dv | Some u \<Rightarrow> AList.update u sid (dv_sessions dv))"
  using dispatch_outcome [of clk sid body se dv] outcome_sessions by metis

lemma on_body_eq:
  assumes "lock dv sid = Some se" "dispatch clk sid body se dv = (se', dv', effs)"
  shows "on_body clk sid body dv = (set_session sid se' dv', effs)"
  using assms by (simp add: on_body_def)

lemma on_body_tables:
  assumes "lock dv sid = Some se"
  shows "dv_sessions (fst (on_body clk sid body dv)) = (case registered_uri body of
      None \<Rightarrow> dv_sessions dv | Some u \<Rightarrow> AList.update u sid (dv_sessions dv))"
    and "lock (fst (on_body clk sid body dv)) s = None \<longleftrightarrow> lock dv s = None"
proof -
  obtain se' dv' effs where d: "dispatch clk sid body se dv = (se', dv', effs)"
    by (cases "dispatch clk sid body se dv")
  show "dv_sessions (fst (on_body clk sid body dv)) = (case registered_uri body of
      None \<Rightarrow> dv_sessions dv | Some u \<Rightarrow> AList.update u sid (dv_sessions dv))"
    by (simp add: on_body_eq [OF assms d] dispatch_sessions [OF d])
  show "lock (fst (on_body clk sid body dv)) s = None \<longleftrightarrow> lock dv s = None"
    using dispatch_tables [OF d] assms by (simp add: on_body_eq [OF assms d] keeps_tables_def)
qed

lemma held_by_on_body:
  "held_by u sid dv \<Longrightarrow> registered_uri body \<noteq> Some u \<Longrightarrow> held_by u sid (fst (on_body clk sid' body dv))"
proof (cases "lock dv sid'")
  case (Some se)
  assume "held_by u sid dv" "registered_uri body \<noteq> Some u"
  then show ?thesis
    by (cases "registered_uri body") (simp_all add: held_by_def on_body_tables [OF Some])
qed (simp add: on_body_def)

lemma held_by_sessions_delete:
  "held_by u sid dv \<Longrightarrow> v \<noteq> u \<Longrightarrow> held_by u sid (dv\<lparr>dv_sessions := AList.delete v (dv_sessions dv)\<rparr>)"
  by (simp add: held_by_def delete_conv')

lemma held_by_on_close: "held_by u sid dv \<Longrightarrow> sid' \<noteq> sid \<Longrightarrow> held_by u sid (on_close sid' dv)"
  unfolding on_close_def
  by (auto simp: held_by_sessions_delete split: option.splits)
    (metis held_by_def held_by_sessions_delete option.distinct(1) option.inject)+

lemma held_by_set_session [simp]:
  "lock dv sid' \<noteq> None \<or> fresh dv sid' \<Longrightarrow> held_by u sid dv \<Longrightarrow> held_by u sid (set_session sid' se dv)"
  by (auto simp: held_by_def)

lemma held_by_send:
  "held_by u sid dv \<Longrightarrow> send_cmd_to_uri v cmd val dv = Inr (ok, dv') \<Longrightarrow> held_by u sid dv'"
  by (auto simp: send_cmd_to_uri_def split: option.splits)
    (metis held_by_def held_by_sessions_delete option.distinct(1) option.inject)

lemma held_by_step:
  assumes "held_by u sid dv" "a \<noteq> Close sid" "a \<noteq> Expire sid" "\<not> registers u a"
  shows "held_by u sid (dev_step a dv)"
proof (cases a)
  case (Expire s)
  with assms show ?thesis by (simp add: held_by_def)
next
  case (Send_cmd v c x)
  with assms(1) show ?thesis by (auto split: sum.split intro: held_by_send)
qed (use assms in \<open>auto simp: do_accept_def held_by_on_body held_by_on_close map_session_def
       split: option.split\<close>)

lemma held_by_fold:
  assumes "held_by u sid dv" "\<forall>a \<in> set acts. a \<noteq> Close sid \<and> a \<noteq> Expire sid \<and> \<not> registers u a"
  shows "held_by u sid (fold dev_step acts dv)"
  using assms by (induction acts arbitrary: dv) (simp_all add: held_by_step)

section \<open>The fault flag\<close>

lemma outcome_keeps_fault:
  assumes "outcome_ok body dv oc" "outcome_result clk sid se dv oc = (se', dv', effs)"
    and "registered_uri body \<noteq> Some u" "reg_get (dv_reg dv) u = Some st" "ds_fault st"
  shows "\<exists>st'. reg_get (dv_reg dv') u = Some st' \<and> ds_fault st'"
  using assms by (cases oc) (auto simp: handler_defs split: if_splits)

lemma fault_kept_step:
  assumes "\<not> registers u a" "reg_get (dv_reg dv) u = Some st" "ds_fault st"
  shows "\<exists>st'. reg_get (dv_reg (dev_step a dv)) u = Some st' \<and> ds_fault st'"
proof (cases a)
  case (Body clk sid body)
  show ?thesis
  proof (cases "lock dv sid")
    case None
    with assms Body show ?thesis by (simp add: on_body_def)
  next
    case (Some se)
    obtain se' dv' effs where d: "dispatch clk sid body se dv = (se', dv', effs)"
      by (cases "dispatch clk sid body se dv")
    obtain oc where "outcome_ok body dv oc" "outcome_result clk sid se dv oc = (se', dv', effs)"
      using dispatch_outcome [of clk sid body se dv] d by metis
    from outcome_keeps_fault [OF this _ assms(2,3)] assms(1) show ?thesis
      by (simp add: Body on_body_eq [OF Some d])
  qed
next
  case (Send_cmd v c x)
  have "dv_reg dv' = dv_reg dv" if "send_cmd_to_uri v c x dv = Inr (ok, dv')" for ok dv'
    using that by (auto simp: send_cmd_to_uri_def split: option.splits)
  with assms show ?thesis by (auto simp: Send_cmd split: sum.split)
qed (use assms in \<open>auto simp: do_accept_def map_session_def split: option.split\<close>)

lemma fault_kept_fold:
  assumes "\<forall>a \<in> set acts. \<not> registers u a" "reg_get (dv_reg dv) u = Some st" "ds_fault st"
  shows "\<exists>st'. reg_get (dv_reg (fold dev_step acts dv)) u = Some st' \<and> ds_fault st'"
  using assms
proof (induction acts arbitrary: dv st)
  case (Cons a acts)
  then obtain st' where "reg_get (dv_reg (dev_step a dv)) u = Some st'" "ds_fault st'"
    using fault_kept_step [of u a dv st] by auto
  with Cons show ?case by simp
qed simp

section \<open>Replies\<close>

text \<open>Every message that a session has queued: posted, waiting, or handed to the stream.\<close>

definition session_messages :: "device_session \<Rightarrow> out_msg multiset" where
  "session_messages se = mset (se_posted se) + mset (started (se_box se) @ out_q (se_box se))"

definition replies :: "clock \<Rightarrow> bytes \<Rightarrow> out_msg list" where
  "replies clk body =
     (case body of
        [] \<Rightarrow> []
      | t # p \<Rightarrow>
          (case msg_type_of t of
             Some REGISTER_REQ \<Rightarrow> (case decode_register_req p of
                 Inl _ \<Rightarrow> []
               | Inr r \<Rightarrow> if req_uri r = [] \<or> req_zone_id r = 0 then [(REGISTER_NACK, [])]
                   else [(REGISTER_ACK, encode_register_ack \<lparr>rack_server_time_unix = time_unix clk\<rparr>)])
           | Some FAULT_REPORT \<Rightarrow> (case decode_fault_report p of
                 Inl _ \<Rightarrow> [] | Inr f \<Rightarrow> [(FAULT_ACK, [])])
           | _ \<Rightarrow> []))"

lemma session_messages_queue_send [simp]:
  "session_messages (queue_send t p se) = session_messages se + {#(t, p)#}"
  by (simp add: session_messages_def)

lemma session_messages_cong [simp]:
  "session_messages (se\<lparr>se_registered := a, se_session_type := b, se_uri := c\<rparr>) = session_messages se"
  by (simp add: session_messages_def)

lemma session_messages_handlers:
  "session_messages (fst (handle_register clk sid req se dv)) = session_messages se
     + {#if req_uri req = [] \<or> req_zone_id req = 0 then (REGISTER_NACK, [])
         else (REGISTER_ACK, encode_register_ack \<lparr>rack_server_time_unix = time_unix clk\<rparr>)#}"
  "session_messages (fst (handle_status clk s se dv)) = session_messages se"
  "session_messages (fst (handle_fault clk f se dv)) = session_messages se + {#(FAULT_ACK, [])#}"
  by (simp_all add: handler_defs handle_status_def split: option.split)

lemma session_messages_dispatch:
  "session_messages (fst (dispatch clk sid body se dv)) = session_messages se + mset (replies clk body)"
proof (cases body)
  case Nil
  then show ?thesis by (simp add: dispatch_def replies_def)
next
  case (Cons t p)
  consider "msg_type_of t = Some REGISTER_REQ" | "msg_type_of t = Some STATUS_REPORT"
    | "msg_type_of t = Some FAULT_REPORT"
    | "msg_type_of t \<notin> Some ` {REGISTER_REQ, STATUS_REPORT, FAULT_REPORT}" by blast
  then show ?thesis
  proof cases
    case 1
    then show ?thesis
      by (cases "decode_register_req p")
        (simp_all add: Cons dispatch_eqs replies_def session_messages_handlers)
  next
    case 2
    then show ?thesis
      by (cases "decode_status_report p")
        (simp_all add: Cons dispatch_eqs replies_def session_messages_handlers)
  next
    case 3
    then show ?thesis
      by (cases "decode_fault_report p")
        (simp_all add: Cons dispatch_eqs replies_def session_messages_handlers)
  next
    case 4
    then have "replies clk body = []"
      by (auto simp: Cons replies_def split: option.splits msg_type.splits)
    with 4 show ?thesis by (simp add: Cons dispatch_eqs)
  qed
qed

lemma mset_take_drop: "k < length xs \<Longrightarrow> mset xs = mset (take k xs @ drop (Suc k) xs) + {#xs ! k#}"
  by (metis Cons_nth_drop_Suc append_take_drop_id mset.simps(2) mset_append union_mset_add_mset_right add_mset_add_single)

lemma session_messages_run_posted [simp]: "session_messages (run_posted k se) = session_messages se"
proof (cases "k < length (se_posted se)")
  case True
  have "started (push_out m q) @ out_q (push_out m q) = started q @ out_q q @ [m]" for m q
    by (rule outbox.push_order)
  from arg_cong [OF this, of mset] show ?thesis
    using mset_take_drop [OF True] by (simp add: session_messages_def run_posted_def True)
qed (simp add: run_posted_def)

lemma session_messages_write_done [simp]: "session_messages (write_done se) = session_messages se"
  using arg_cong [OF outbox.total_finish, of mset "se_box se"]
  by (simp add: session_messages_def write_done_def outbox.total_def)

section \<open>Properties\<close>

text \<open>
  C19: Whatever the devices send and in whatever order connections, executor and commands
  interleave, the server stays well formed: the registry is well formed, every live session is
  registered exactly if it has a URI and has no message waiting while no write is in flight, and
  every live session in the table is a registered one.
\<close>

theorem device_server_invariant: "dv_ok (fold dev_step acts (new_server rid))"
  by (simp add: dv_ok_fold dv_ok_new)

text \<open>
  A command never throws, returns true exactly if a live session is registered for the URI,
  and then queues exactly one message on that session, which the device decodes to the session's
  own URI, the command and the value; without such a session no session is touched.
\<close>

theorem commands_are_delivered:
  "let dv = fold dev_step acts (new_server rid) in
   case send_cmd_to_uri uri cmd val dv of
     Inl e \<Rightarrow> False
   | Inr (ok, dv') \<Rightarrow>
       (case route dv uri of
          None \<Rightarrow> \<not> ok \<and> dv_live dv' = dv_live dv
        | Some se \<Rightarrow> ok
            \<and> route dv' uri = Some (queue_send CMD (command_to (se_uri se) cmd val) se)
            \<and> decode_command (command_to (se_uri se) cmd val)
                = Inr \<lparr>cmd_uri = se_uri se, cmd_cmd = cmd, cmd_value = val\<rparr>)"
proof -
  have ok: "dv_ok (fold dev_step acts (new_server rid))" by (simp add: dv_ok_fold dv_ok_new)
  have "decode_command (command_to (se_uri se) cmd val)
      = Inr \<lparr>cmd_uri = se_uri se, cmd_cmd = cmd, cmd_value = val\<rparr>" if "session_ok se" for se
    using that sls_command.decode_encode [of "\<lparr>cmd_uri = se_uri se, cmd_cmd = cmd, cmd_value = val\<rparr>" _ "[]"]
    by (simp add: command_to_def session_ok_def sls_command.encode_eq)
  then show ?thesis
    by (auto simp: Let_def send_cmd_to_uri_ok [OF ok] route_def dv_ok_lock [OF ok] split: option.splits)
qed

text \<open>
  The newest registration wins: from the moment a connection registers a URI, commands for
  that URI reach this connection, whatever other connections do (closing and expiring included),
  until it is closed or destroyed itself or somebody registers the URI again.
\<close>

theorem newest_registration_wins:
  assumes "lock dv sid = Some se" "registered_uri body = Some u"
    and "\<forall>a \<in> set acts. a \<noteq> Close sid \<and> a \<noteq> Expire sid \<and> \<not> registers u a"
  shows "held_by u sid (fold dev_step acts (fst (on_body clk sid body dv)))"
proof -
  have "held_by u sid (fst (on_body clk sid body dv))"
    using assms(1,2) by (simp add: held_by_def on_body_tables [OF assms(1)])
  with assms(3) show ?thesis by (intro held_by_fold)
qed

definition example_clock :: clock where
  "example_clock = \<lparr>now_ms = 1000, now_ms_utc = 1700000000000, time_unix = 1700000000\<rparr>"

definition example_register :: bytes where
  "example_register = body_of REGISTER_REQ (enc_register_req
     \<lparr>req_type = LUMINAIRE, req_uri = ''sls://lamp-001'', req_zone_id = 1\<rparr>)"

lemma registered_uri_example: "registered_uri example_register = Some ''sls://lamp-001''"
proof -
  have "decode_register_req (enc_register_req
      \<lparr>req_type = LUMINAIRE, req_uri = ''sls://lamp-001'', req_zone_id = 1\<rparr>)
    = Inr \<lparr>req_type = LUMINAIRE, req_uri = ''sls://lamp-001'', req_zone_id = 1\<rparr>"
    by (simp add: register_req.decode_eq register_req.run_iff short_str_def)
  then show ?thesis
    by (simp add: registered_uri_def example_register_def body_of_def del: msg_code.simps)
qed

lemma newest_registration_wins_witness:
  "held_by ''sls://lamp-001'' 2
     (fold dev_step [Close 1, Expire 1, Accept 3, Send_cmd ''sls://lamp-001'' 1 0]
        (fst (on_body example_clock 2 example_register
           (fold dev_step [Accept 1, Body example_clock 1 example_register, Accept 2] (new_server 1)))))"
proof -
  let ?dv = "fold dev_step [Accept 1, Body example_clock 1 example_register] (new_server 1)"
  have one: "lock (do_accept 1 (new_server 1)) 1 = Some new_session" by simp
  have "lock (do_accept 1 (new_server 1)) 2 = None"
    by (simp add: do_accept_def lock_def new_server_def set_session_def)
  moreover have "dv_sessions (new_server 1) = []" by (simp add: new_server_def)
  ultimately have "fresh ?dv 2"
    using on_body_tables [OF one, of example_clock example_register]
    by (simp add: fresh_def registered_uri_example)
  then have "lock (do_accept 2 ?dv) 2 = Some new_session" by (simp add: do_accept_def)
  then have "lock (fold dev_step [Accept 1, Body example_clock 1 example_register, Accept 2] (new_server 1)) 2
      = Some new_session" by simp
  moreover have "\<forall>a \<in> set [Close 1, Expire 1, Accept 3, Send_cmd ''sls://lamp-001'' 1 0].
      a \<noteq> Close 2 \<and> a \<noteq> Expire 2 \<and> \<not> registers ''sls://lamp-001'' a" by simp
  ultimately show ?thesis by (rule newest_registration_wins [OF _ registered_uri_example])
qed

text \<open>
  A fault is latched: once a device is marked faulty, no status report, no message of any
  other kind and no event of any session clears the mark; only a registration of that URI does.
\<close>

theorem device_fault_latched:
  assumes "reg_get (dv_reg dv) u = Some st" "ds_fault st" "\<forall>a \<in> set acts. \<not> registers u a"
  shows "\<exists>st'. reg_get (dv_reg (fold dev_step acts dv)) u = Some st' \<and> ds_fault st'"
  using fault_kept_fold [OF assms(3,1,2)] .

lemma device_fault_latched_witness:
  "\<exists>st'. reg_get (dv_reg (fold dev_step [Accept 1, Close 1]
     ((new_server 1)\<lparr>dv_reg := upsert empty_registry ''l'' ((example_lamp 1 5)\<lparr>ds_fault := True\<rparr>)\<rparr>)))
       ''l'' = Some st' \<and> ds_fault st'"
  by (rule device_fault_latched [of _ _ "(example_lamp 1 5)\<lparr>ds_fault := True\<rparr>"]) simp_all

text \<open>
  The outcome of a registration: without a URI or a zone it is answered with NACK and changes
  nothing; otherwise the device is in the registry, without fault, switched off and just seen, a
  lamp is listed in its zone, the session is the one that commands for the URI reach, and the
  answer is one ACK with the server's time.
\<close>

theorem registration_outcome:
  "case handle_register clk sid req se dv of (se', dv', effs) \<Rightarrow>
     effs = [] \<and> dv_live dv' = dv_live dv \<and>
     (if req_uri req = [] \<or> req_zone_id req = 0
      then dv' = dv \<and> se' = queue_send REGISTER_NACK [] se
      else reg_get (dv_reg dv') (req_uri req) = Some \<lparr>ds_type = req_type req,
             ds_zone_id = req_zone_id req, ds_on = 0, ds_intensity = 0, ds_power_mw = 0,
             ds_fault = False, ds_last_seen_ms = now_ms clk\<rparr>
        \<and> (req_type req \<noteq> LUMINAIRE
            \<or> req_uri req \<in> set (get_lamps_in_zone (dv_reg dv') (req_zone_id req)))
        \<and> map_of (dv_sessions dv') (req_uri req) = Some sid
        \<and> se_registered se' \<and> se_uri se' = req_uri req
        \<and> se_posted se' = se_posted se
            @ [(REGISTER_ACK, encode_register_ack \<lparr>rack_server_time_unix = time_unix clk\<rparr>)])"
  by (simp add: handle_register_def Let_def blank_device_def new_device_def lamps_register_lamp)

text \<open>
  The outcome of a status report: for a device that is neither registered nor the session's
  own it is dropped; otherwise exactly the reported values and the time are stored, type and fault
  flag are kept, the device row is logged with the kept fault flag, and for a lamp the status row
  as well. No reply is sent.
\<close>

theorem status_outcome_stored:
  "case handle_status clk s se dv of (se', dv', effs) \<Rightarrow>
     se' = se \<and> dv_sessions dv' = dv_sessions dv \<and>
     (if reg_get (dv_reg dv) (sr_uri s) = None \<and> (\<not> se_registered se \<or> se_uri se = [] \<or> sr_uri s \<noteq> se_uri se)
      then dv' = dv \<and> effs = []
      else (case reg_get (dv_reg dv') (sr_uri s) of
          None \<Rightarrow> False
        | Some st' \<Rightarrow>
            (ds_zone_id st', ds_on st', ds_intensity st', ds_power_mw st', ds_last_seen_ms st')
              = (sr_zone_id s, sr_on s, sr_intensity s, sr_power_mw s, now_ms clk)
            \<and> (ds_type st', ds_fault st') = (case reg_get (dv_reg dv) (sr_uri s) of
                 None \<Rightarrow> (se_session_type se, False) | Some st \<Rightarrow> (ds_type st, ds_fault st))
            \<and> effs = Db_call (upsert_device (now_ms_utc clk) (sr_uri s)
                  (if ds_type st' = LUMINAIRE then 1 else 2) (dv_region_id dv) (sr_zone_id s)
                  (ds_fault st') (sr_on s) (sr_intensity s) (sr_power_mw s))
                # (if ds_type st' = LUMINAIRE then [Db_call (log_lamp_status (now_ms_utc clk)
                     (sr_uri s) (dv_region_id dv) (sr_zone_id s) (sr_on s) (sr_intensity s)
                     (sr_power_mw s))] else [])))"
  by (simp add: handle_status_def store_status_def Let_def blank_device_def new_device_def
      split: option.splits)

text \<open>
  Every message gets exactly the replies it should: a decodable registration one ACK or NACK, a
  decodable fault report one ACK, every other body none; and no event of the executor or of the
  stream loses, duplicates or invents a message of a session.
\<close>

theorem replies_exactly_once:
  assumes "lock dv sid = Some se"
  shows "map_option session_messages (lock (fst (on_body clk sid body dv)) sid)
        = Some (session_messages se + mset (replies clk body))
    \<and> map_option session_messages (lock (dev_step (Run_posted sid k) dv) sid) = Some (session_messages se)
    \<and> map_option session_messages (lock (dev_step (Written sid) dv) sid) = Some (session_messages se)"
proof -
  obtain se' dv' effs where d: "dispatch clk sid body se dv = (se', dv', effs)"
    by (cases "dispatch clk sid body se dv")
  with session_messages_dispatch [of clk sid body se dv] show ?thesis
    by (simp add: on_body_eq [OF assms d] map_session_def assms)
qed

lemma replies_exactly_once_witness:
  "map_option session_messages (lock (fst (on_body example_clock 1 [6, 0] (do_accept 1 (new_server 1)))) 1)
     = Some {#}"
proof -
  have "lock (do_accept 1 (new_server 1)) 1 = Some new_session" by simp
  from replies_exactly_once [OF this, of example_clock "[6, 0]"] show ?thesis
    by (simp add: replies_def session_messages_def new_session_def new_queue_def msg_type_of_def
        enum_msg_type_def decode_fault_report_def fault_report_parser_def get_str_def and_then_def
        run_parser_def)
qed

text \<open>
  The source of a fault report is not checked: a connection that never registered creates a
  faulty lamp in any zone under any unknown URI, and marks any known device faulty and moves it to
  the reported zone, keeping its type; each report is logged, raises the fault callback once and
  is acknowledged.
\<close>

theorem fault_report_outcome:
  "case handle_fault clk f new_session dv of (se', dv', effs) \<Rightarrow>
     se' = queue_send FAULT_ACK [] new_session
     \<and> reg_get (dv_reg dv') (flt_uri f) = Some ((case reg_get (dv_reg dv) (flt_uri f) of
           None \<Rightarrow> blank_device LUMINAIRE (flt_zone_id f) | Some st \<Rightarrow> st)
         \<lparr>ds_zone_id := flt_zone_id f, ds_fault := True, ds_last_seen_ms := now_ms clk\<rparr>)
     \<and> effs = [Db_call (log_fault (now_ms_utc clk) (flt_uri f) (dv_region_id dv) (flt_zone_id f)
           (flt_code f) (flt_text f)),
         Fault_cb f (case reg_get (dv_reg dv) (flt_uri f) of None \<Rightarrow> LUMINAIRE | Some st \<Rightarrow> ds_type st)]"
  by (simp add: handle_fault_def Let_def new_session_def blank_device_def new_device_def
      split: option.split)

end
