(* ===== verification/Telemetry.thy ===== *)
theory Telemetry
  imports Frame
begin

text \<open>
  The UDP datagram \<^verbatim>\<open>TelemetryUdp\<close> of \<^verbatim>\<open>proto.hpp\<close>: a packed structure of 57 bytes that sensor and
  server copy with \<^verbatim>\<open>memcpy\<close>, so its bytes are the little-endian memory of the sender with the
  fields swapped to big-endian. \<open>telemetry_packet\<close> is how a sender fills it, \<open>decode_telemetry\<close>
  how the server reads it.
\<close>

section \<open>The structure in memory\<close>

definition mem16 :: "u16 \<Rightarrow> bytes" where
  "mem16 w = [ucast w, ucast (drop_bit 8 w)]"

fun load16 :: "bytes \<Rightarrow> u16" where
  "load16 (a # b # _) = push_bit 8 (ucast b) OR ucast a"
| "load16 _ = 0"

text \<open>\<open>tu_temp_c_x10_be\<close> holds the 16 bits of the \<^verbatim>\<open>int16_t\<close> member.\<close>

record telemetry_udp =
  tu_uri :: bytes
  tu_zone_id_be :: u32
  tu_lux_be :: u16
  tu_motion :: u8
  tu_temp_c_x10_be :: u16

definition uri_size :: nat where
  "uri_size = 48"

definition sizeof_telemetry :: nat where
  "sizeof_telemetry = uri_size + 4 + 2 + 1 + 2"

definition memory_of :: "telemetry_udp \<Rightarrow> bytes" where
  "memory_of t = tu_uri t @ mem32 (tu_zone_id_be t) @ mem16 (tu_lux_be t) @ [tu_motion t]
     @ mem16 (tu_temp_c_x10_be t)"

definition from_memory :: "bytes \<Rightarrow> telemetry_udp" where
  "from_memory buf =
     \<lparr>tu_uri = take uri_size buf,
      tu_zone_id_be = load32 (drop uri_size buf),
      tu_lux_be = load16 (drop (uri_size + 4) buf),
      tu_motion = buf ! (uri_size + 6),
      tu_temp_c_x10_be = load16 (drop (uri_size + 7) buf)\<rparr>"

section \<open>Sending\<close>

text \<open>
  \<^verbatim>\<open>snprintf(t.uri, sizeof(t.uri), "%s", uri.c_str())\<close> into a zeroed array: at most 47 characters,
  always terminated.
\<close>

definition snprintf_uri :: "string \<Rightarrow> bytes" where
  "snprintf_uri uri =
     (let s = take (uri_size - 1) (c_str uri)
      in bytes_of_string s @ replicate (uri_size - length s) 0)"

definition swap16 :: "u16 \<Rightarrow> u16" where
  "swap16 x = drop_bit 8 x OR push_bit 8 x"

definition swap32 :: "u32 \<Rightarrow> u32" where
  "swap32 x = push_bit 24 (x AND 0x000000FF) OR push_bit 8 (x AND 0x0000FF00)
     OR drop_bit 8 (x AND 0x00FF0000) OR drop_bit 24 (x AND 0xFF000000)"

text \<open>\<^verbatim>\<open>send_telemetry\<close> of the sensor: the bytes given to \<^verbatim>\<open>send_to\<close>. The temperature is an \<^verbatim>\<open>int16_t\<close>.\<close>

definition telemetry_packet :: "string \<Rightarrow> u32 \<Rightarrow> u16 \<Rightarrow> u8 \<Rightarrow> u16 \<Rightarrow> bytes" where
  "telemetry_packet uri zone_id lux motion temp_x10 =
     memory_of \<lparr>tu_uri = snprintf_uri uri, tu_zone_id_be = swap32 zone_id, tu_lux_be = swap16 lux,
       tu_motion = motion, tu_temp_c_x10_be = swap16 temp_x10\<rparr>"

text \<open>
  The test tool \<^verbatim>\<open>udp_send_bin\<close>: \<^verbatim>\<open>htonl\<close> and \<^verbatim>\<open>htons\<close> of a little-endian host are the byte swaps.
\<close>

definition udp_send_bin :: "string \<Rightarrow> u32 \<Rightarrow> int \<Rightarrow> bytes" where
  "udp_send_bin uri zone motion =
     memory_of \<lparr>tu_uri = snprintf_uri uri, tu_zone_id_be = to_be32 zone, tu_lux_be = to_be16 180,
       tu_motion = word_of_int motion, tu_temp_c_x10_be = to_be16 235\<rparr>"

section \<open>Receiving\<close>

text \<open>
  \<^verbatim>\<open>std::string uri(t.uri)\<close> reads up to the first NUL. If the 48 bytes hold none, the constructor
  reads past the array, which is undefined: \<open>None\<close>.
\<close>

definition uri_of :: "bytes \<Rightarrow> string option" where
  "uri_of arr = (if 0 \<in> set arr then Some (string_of_bytes (takeWhile (\<lambda>b. b \<noteq> 0) arr)) else None)"

record reading =
  rd_uri :: string
  rd_zone_id :: u32
  rd_lux :: u16
  rd_motion :: u8
  rd_temp10 :: int

definition decode_telemetry :: "bytes \<Rightarrow> reading option" where
  "decode_telemetry buf =
     (let t = from_memory buf
      in case uri_of (tu_uri t) of
        None \<Rightarrow> None
      | Some uri \<Rightarrow> Some \<lparr>rd_uri = uri, rd_zone_id = from_be32 (tu_zone_id_be t),
          rd_lux = from_be16 (tu_lux_be t), rd_motion = tu_motion t,
          rd_temp10 = sint (from_be16 (tu_temp_c_x10_be t))\<rparr>)"

section \<open>Lemmas\<close>

lemma load16_mem16: "load16 (mem16 w @ rest) = w"
  by (simp add: mem16_def split_u16)

lemma length_mem [simp]: "length (mem16 w) = 2" "length (mem32 v) = 4"
  by (simp_all add: mem16_def mem32_def)

lemma swap_be: "swap16 = to_be16" "swap32 = to_be32"
  by (simp_all add: fun_eq_iff swap16_def swap32_def to_be16_def to_be32_def)

lemma length_snprintf_uri [simp]: "length (snprintf_uri uri) = uri_size"
  by (simp add: snprintf_uri_def Let_def uri_size_def)

lemma length_memory_of: "length (tu_uri t) = uri_size \<Longrightarrow> length (memory_of t) = sizeof_telemetry"
  by (simp add: memory_of_def sizeof_telemetry_def)

lemma from_memory_of:
  assumes "length (tu_uri t) = uri_size"
  shows "from_memory (memory_of t @ rest) = t"
proof -
  have "load16 (mem16 (tu_temp_c_x10_be t)) = tu_temp_c_x10_be t"
    using load16_mem16 [of _ "[]"] by simp
  then show ?thesis
    using assms
    by (simp add: from_memory_def memory_of_def load32_mem32 load16_mem16 nth_append)
qed

lemma uri_of_snprintf: "uri_of (snprintf_uri uri) = Some (take (uri_size - 1) (c_str uri))"
proof -
  let ?s = "take (uri_size - 1) (c_str uri)"
  have "CHR 0x00 \<notin> set ?s" using NUL_notin_c_str [of uri] by (metis in_set_takeD)
  then have nz: "b \<noteq> 0" if "b \<in> set (bytes_of_string ?s)" for b
    using that by (auto simp: bytes_of_string_def byte_of_char_0_iff)
  have "0 < uri_size - length ?s" by (simp add: uri_size_def)
  with nz show ?thesis
    by (auto simp: uri_of_def snprintf_uri_def Let_def takeWhile_append2 takeWhile_replicate)
qed

lemma decode_packet:
  "decode_telemetry (telemetry_packet uri zone lux motion temp @ rest) =
     Some \<lparr>rd_uri = take (uri_size - 1) (c_str uri), rd_zone_id = zone, rd_lux = lux,
       rd_motion = motion, rd_temp10 = sint temp\<rparr>"
  by (simp add: decode_telemetry_def telemetry_packet_def from_memory_of uri_of_snprintf swap_be Let_def)

lemma length_telemetry_packet [simp]:
  "length (telemetry_packet uri zone lux motion temp) = sizeof_telemetry"
  by (simp add: telemetry_packet_def length_memory_of)

lemma telemetry_decoded:
  "decode_telemetry (telemetry_packet uri zone lux motion temp @ rest) =
     Some \<lparr>rd_uri = take 47 (c_str uri), rd_zone_id = zone, rd_lux = lux, rd_motion = motion,
       rd_temp10 = sint temp\<rparr>"
  by (simp add: decode_packet) (simp add: uri_size_def)

section \<open>Properties\<close>

text \<open>
  A datagram that the sensor sends is 57 bytes long and the server reads back its zone, lux,
  motion and signed temperature exactly, whatever follows it in the buffer; the URI is cut at its
  first NUL and after 47 characters, and the array always holds a terminator.
\<close>

theorem telemetry_roundtrip:
  "length (telemetry_packet uri zone lux motion temp) = 57
   \<and> decode_telemetry (telemetry_packet uri zone lux motion temp @ rest) =
       Some \<lparr>rd_uri = take 47 (c_str uri), rd_zone_id = zone, rd_lux = lux, rd_motion = motion,
         rd_temp10 = sint temp\<rparr>"
  by (simp add: decode_packet, simp add: sizeof_telemetry_def uri_size_def)

text \<open>
  The test tool sends what a sensor would send with lux 180 and temperature 23.5; two sensors
  whose URIs agree on their first 47 characters are one sensor to the server.
\<close>

theorem senders_agree:
  assumes "take 47 (c_str uri) = take 47 (c_str uri')"
  shows "udp_send_bin uri zone m = telemetry_packet uri' zone 180 (word_of_int m) 235"
proof -
  have "snprintf_uri uri = snprintf_uri uri'"
    using assms by (simp add: snprintf_uri_def uri_size_def)
  then show ?thesis by (simp add: udp_send_bin_def telemetry_packet_def swap_be)
qed

lemma senders_agree_witness:
  "udp_send_bin (replicate 47 (CHR ''a'') @ ''1'') 1 254
     = telemetry_packet (replicate 47 (CHR ''a'') @ ''2'') 1 180 254 235"
  using senders_agree [of "replicate 47 (CHR ''a'') @ ''1''" "replicate 47 (CHR ''a'') @ ''2''" 1 254]
  by simp

end
