(* ===== verification/Udp_Server.thy ===== *)
theory Udp_Server
  imports Registry Telemetry
begin

text \<open>
  The UDP server of a region (\<^verbatim>\<open>udp_telemetry_server.hpp\<close>): the receive handler updates the
  registry, detects the fault marker and the edges of the motion signal of each sensor. The
  callbacks belong to the regional server; the handler returns the calls it makes, and
  \<open>Regional_Server\<close> runs them.
\<close>

section \<open>The receive handler\<close>

datatype udp_event =
    Motion_on u32 string
  | Motion_off u32 string
  | Sensor_fault u32 string u8

type_synonym last_motion = "(string \<times> u8) list"

definition new_sensor :: "u64 \<Rightarrow> u32 \<Rightarrow> device_state" where
  "new_sensor now zone_id = \<lparr>ds_type = SENSOR, ds_zone_id = zone_id, ds_on = 0, ds_intensity = 0,
     ds_power_mw = 0, ds_fault = False, ds_last_seen_ms = now\<rparr>"

definition update_sensor :: "u64 \<Rightarrow> reading \<Rightarrow> registry \<Rightarrow> registry" where
  "update_sensor now t reg =
     (case reg_get reg (rd_uri t) of
        Some st \<Rightarrow> upsert reg (rd_uri t)
          (st\<lparr>ds_type := SENSOR, ds_zone_id := rd_zone_id t, ds_last_seen_ms := now\<rparr>)
      | None \<Rightarrow> upsert reg (rd_uri t) (new_sensor now (rd_zone_id t)))"

definition mark_sensor_fault :: "u64 \<Rightarrow> reading \<Rightarrow> registry \<Rightarrow> registry \<times> udp_event list" where
  "mark_sensor_fault now t reg =
     (if rd_motion t = 254 then
        (case reg_get reg (rd_uri t) of
           Some s2 \<Rightarrow> upsert reg (rd_uri t) (s2\<lparr>ds_fault := True, ds_last_seen_ms := now\<rparr>)
         | None \<Rightarrow> reg,
         [Sensor_fault (rd_zone_id t) (rd_uri t) 1])
      else (reg, []))"

definition motion_edge :: "reading \<Rightarrow> last_motion \<Rightarrow> last_motion \<times> udp_event list" where
  "motion_edge t lm =
     (if rd_motion t = 0 \<or> rd_motion t = 1 then
        let prev = (case map_of lm (rd_uri t) of None \<Rightarrow> 0 | Some v \<Rightarrow> v)
        in (AList.update (rd_uri t) (rd_motion t) lm,
            (if prev = 0 \<and> rd_motion t = 1 then [Motion_on (rd_zone_id t) (rd_uri t)] else [])
            @ (if prev = 1 \<and> rd_motion t = 0 then [Motion_off (rd_zone_id t) (rd_uri t)] else []))
      else (lm, []))"

definition on_reading ::
  "u64 \<Rightarrow> reading \<Rightarrow> registry \<times> last_motion \<Rightarrow> (registry \<times> last_motion) \<times> udp_event list" where
  "on_reading now t s =
     (let reg = update_sensor now t (fst s);
          (reg, faults) = mark_sensor_fault now t reg;
          (lm, edges) = motion_edge t (snd s)
      in ((reg, lm), faults @ edges))"

text \<open>
  The handler of one datagram of \<open>n\<close> bytes in the 1024-byte buffer; \<open>ec\<close> is the error of the
  receive. \<open>None\<close> is the undefined read of a URI without terminator.
\<close>

definition udp_receive ::
  "u64 \<Rightarrow> bool \<Rightarrow> bytes \<Rightarrow> registry \<times> last_motion
     \<Rightarrow> ((registry \<times> last_motion) \<times> udp_event list) option" where
  "udp_receive now ec datagram s =
     (if \<not> ec \<and> length datagram \<ge> sizeof_telemetry
      then map_option (\<lambda>t. on_reading now t s) (decode_telemetry datagram)
      else Some (s, []))"

section \<open>The registry after a datagram\<close>

lemma reg_get_update_sensor:
  "reg_get (update_sensor now t reg) u =
     (if u = rd_uri t then Some (case reg_get reg u of
          None \<Rightarrow> new_sensor now (rd_zone_id t)
        | Some st \<Rightarrow> st\<lparr>ds_type := SENSOR, ds_zone_id := rd_zone_id t, ds_last_seen_ms := now\<rparr>)
      else reg_get reg u)"
  by (simp add: update_sensor_def split: option.splits)

lemma reg_get_mark_fault:
  "reg_get (fst (mark_sensor_fault now t reg)) u =
     (if u = rd_uri t \<and> rd_motion t = 254
      then map_option (\<lambda>st. st\<lparr>ds_fault := True, ds_last_seen_ms := now\<rparr>) (reg_get reg u)
      else reg_get reg u)"
  by (simp add: mark_sensor_fault_def split: option.splits)

lemma SENSOR_not_LUMINAIRE [simp]: "SENSOR \<noteq> LUMINAIRE"
  by (simp add: SENSOR_def LUMINAIRE_def)

lemma registry_ok_on_reading: "registry_ok reg \<Longrightarrow> registry_ok (fst (fst (on_reading now t (reg, lm))))"
  by (simp add: on_reading_def Let_def update_sensor_def mark_sensor_fault_def registry_ok_upsert
      split: prod.splits option.splits)

lemma lamps_on_reading: "get_lamps_in_zone (fst (fst (on_reading now t (reg, lm)))) z
    = get_lamps_in_zone reg z"
  by (auto simp: on_reading_def Let_def update_sensor_def mark_sensor_fault_def lamps_upsert
      new_sensor_def split: prod.splits option.splits)

lemma reg_get_on_reading:
  "reg_get (fst (fst (on_reading now t s))) u =
     (if u = rd_uri t then Some ((case reg_get (fst s) u of
          None \<Rightarrow> new_sensor now (rd_zone_id t)
        | Some st \<Rightarrow> st\<lparr>ds_type := SENSOR, ds_zone_id := rd_zone_id t, ds_last_seen_ms := now\<rparr>)
            \<lparr>ds_fault := (rd_motion t = 254 \<or> (\<exists>st. reg_get (fst s) u = Some st \<and> ds_fault st))\<rparr>)
      else reg_get (fst s) u)"
  using reg_get_mark_fault [of now t "update_sensor now t (fst s)" u]
  by (auto simp: on_reading_def Let_def reg_get_update_sensor new_sensor_def split: prod.splits option.splits)

lemma keeps_faults_on_reading: "table.keeps_faults (\<lambda>reg. fst (fst (on_reading now t (reg, lm))))"
  by (auto simp: table.keeps_faults_def reg_get_on_reading)

section \<open>Motion edges\<close>

text \<open>The motion events of one sensor as a function of the sequence of its readings.\<close>

fun edges :: "u8 \<Rightarrow> reading list \<Rightarrow> udp_event list" where
  "edges prev [] = []"
| "edges prev (t # ts) =
     (if rd_motion t = 1 then
        (if prev = 0 then [Motion_on (rd_zone_id t) (rd_uri t)] else []) @ edges 1 ts
      else if rd_motion t = 0 then
        (if prev = 1 then [Motion_off (rd_zone_id t) (rd_uri t)] else []) @ edges 0 ts
      else edges prev ts)"

fun uri_of_event :: "udp_event \<Rightarrow> string" where
  "uri_of_event (Motion_on z u) = u"
| "uri_of_event (Motion_off z u) = u"
| "uri_of_event (Sensor_fault z u c) = u"

fun is_motion :: "udp_event \<Rightarrow> bool" where
  "is_motion (Sensor_fault z u c) = False"
| "is_motion _ = True"

fun on_readings ::
  "(u64 \<times> reading) list \<Rightarrow> registry \<times> last_motion \<Rightarrow> (registry \<times> last_motion) \<times> udp_event list" where
  "on_readings [] s = (s, [])"
| "on_readings ((now, t) # ts) s =
     (let (s', evs) = on_reading now t s; (s'', evs') = on_readings ts s' in (s'', evs @ evs'))"

definition motion_events :: "string \<Rightarrow> udp_event list \<Rightarrow> udp_event list" where
  "motion_events u evs = filter (\<lambda>e. is_motion e \<and> uri_of_event e = u) evs"

definition readings_of :: "string \<Rightarrow> (u64 \<times> reading) list \<Rightarrow> reading list" where
  "readings_of u ts = filter (\<lambda>t. rd_uri t = u) (map snd ts)"

lemma motion_of_reading:
  "motion_events u (snd (on_reading now t s)) =
     (if rd_uri t = u then edges (get_default 0 (snd s) u) [t] else [])"
  by (auto simp: on_reading_def mark_sensor_fault_def motion_edge_def Let_def motion_events_def
      get_default_def split: prod.splits option.splits)

lemma last_motion_of_reading:
  "get_default 0 (snd (fst (on_reading now t s))) u =
     (if rd_uri t = u \<and> (rd_motion t = 0 \<or> rd_motion t = 1) then rd_motion t
      else get_default 0 (snd s) u)"
  by (auto simp: on_reading_def motion_edge_def Let_def get_default_def split: prod.splits)

lemma motion_events_append [simp]: "motion_events u (xs @ ys) = motion_events u xs @ motion_events u ys"
  by (simp add: motion_events_def)

lemma edges_of_on_readings:
  "motion_events u (snd (on_readings ts s)) = edges (get_default 0 (snd s) u) (readings_of u ts)"
proof (induction ts arbitrary: s)
  case Nil
  then show ?case by (simp add: motion_events_def readings_of_def)
next
  case (Cons nt ts)
  obtain now t where nt: "nt = (now, t)" by (cases nt)
  have "snd (on_readings (nt # ts) s)
      = snd (on_reading now t s) @ snd (on_readings ts (fst (on_reading now t s)))"
    by (simp add: nt Let_def split: prod.splits)
  moreover have "readings_of u (nt # ts)
      = (if rd_uri t = u then t # readings_of u ts else readings_of u ts)"
    by (simp add: readings_of_def nt)
  ultimately show ?case
    by (simp add: Cons.IH motion_of_reading last_motion_of_reading)
qed

text \<open>An alternating sequence of commands: what a sequence of edges amounts to.\<close>

fun alternating :: "bool \<Rightarrow> udp_event list \<Rightarrow> bool" where
  "alternating lit [] = True"
| "alternating lit (Motion_on z u # es) = (\<not> lit \<and> alternating True es)"
| "alternating lit (Motion_off z u # es) = (lit \<and> alternating False es)"
| "alternating lit (Sensor_fault z u c # es) = False"

lemma alternating_edges: "prev \<in> {0, 1} \<Longrightarrow> alternating (prev = 1) (edges prev ts)"
  by (induction ts arbitrary: prev) fastforce+

section \<open>Properties\<close>

text \<open>
  C39: Per sensor the server raises exactly the edges of that sensor's motion signal: for any
  sequence of datagrams of any sensors, the motion callbacks of one URI are a rising edge first
  and then strictly alternate, whatever other sensors send, and values other than 0 and 1 neither
  raise an edge nor hide one.
\<close>

theorem motion_callbacks_are_edges:
  "motion_events u (snd (on_readings ts (reg, []))) = edges 0 (readings_of u ts)
   \<and> alternating False (motion_events u (snd (on_readings ts (reg, []))))"
  using alternating_edges [of 0 "readings_of u ts"] by (simp add: edges_of_on_readings)

text \<open>
  A datagram makes its sender a sensor in the given zone that was just seen and creates it if
  it is new; it sets the fault flag exactly for the marker 254 and never clears it, so a sensor
  that was once faulty stays faulty whatever it sends; no other device, no zone's lamp list and
  not the power or intensity of the entry change.
\<close>

theorem datagram_effect_on_registry:
  "case reg_get (fst (fst (on_reading now t (reg, lm)))) (rd_uri t) of
     None \<Rightarrow> False
   | Some st' \<Rightarrow> ds_type st' = SENSOR \<and> ds_zone_id st' = rd_zone_id t \<and> ds_last_seen_ms st' = now
       \<and> (case reg_get reg (rd_uri t) of
            None \<Rightarrow> ds_fault st' = (rd_motion t = 254) \<and> ds_power_mw st' = 0
          | Some st \<Rightarrow> ds_fault st' = (ds_fault st \<or> rd_motion t = 254)
              \<and> ds_power_mw st' = ds_power_mw st \<and> ds_intensity st' = ds_intensity st)
       \<and> (\<forall>u z. (u = rd_uri t \<or> reg_get (fst (fst (on_reading now t (reg, lm)))) u = reg_get reg u)
            \<and> get_lamps_in_zone (fst (fst (on_reading now t (reg, lm)))) z = get_lamps_in_zone reg z)"
  by (auto simp: reg_get_on_reading lamps_on_reading new_sensor_def split: option.splits)

text \<open>
  Every datagram that a sensor can send is processed, never undefined: it acts as the reading
  with the sensor's values; a datagram of fewer than 57 bytes and a failed receive have no effect.
\<close>

theorem sensor_datagrams_processed:
  assumes "length short < 57"
  shows "udp_receive now False (telemetry_packet uri zone lux motion temp @ junk) s
      = Some (on_reading now \<lparr>rd_uri = take 47 (c_str uri), rd_zone_id = zone, rd_lux = lux,
          rd_motion = motion, rd_temp10 = sint temp\<rparr> s)
    \<and> udp_receive now False short s = Some (s, [])
    \<and> udp_receive now True junk s = Some (s, [])"
  using assms
  by (simp add: udp_receive_def decode_packet) (simp add: sizeof_telemetry_def uri_size_def)

lemma sensor_datagrams_processed_witness:
  "udp_receive 5 False (take 56 (telemetry_packet ''s'' 1 200 1 235)) (empty_registry, [])
     = Some ((empty_registry, []), [])"
proof -
  have "length (take 56 (telemetry_packet ''s'' 1 200 1 235)) < 57" by simp
  from sensor_datagrams_processed [OF this] show ?thesis by blast
qed

end
