(* ===== verification/Sync_Client.thy ===== *)
theory Sync_Client
  imports Registry Frame
begin

text \<open>
  The client of a region towards the central server (\<^verbatim>\<open>region_sync_client.hpp\<close>). The periodic
  synchronisation is a chain of asynchronous operations, one pending at a time; each alarm is a
  chain of its own, but all alarms share one socket member. The completion of an operation, with
  the bytes it read, comes from outside.
\<close>

section \<open>Synchronisation\<close>

text \<open>The operation that is pending. \<open>Stopped\<close>: none, because the timer was cancelled.\<close>

datatype phase =
    Stopped
  | Waiting_tick
  | Resolving region_sync_up
  | Connecting region_sync_up
  | Handshaking region_sync_up
  | Writing
  | Reading_header
  | Reading_body u32

datatype completion =
    Failed
  | Completed
  | Received bytes

record sync_client =
  sc_region_id :: u32
  sc_version :: u32
  sc_phase :: phase
  sc_sent :: "(msg_type \<times> bytes) list"
  sc_acks :: "region_sync_ack list"

definition new_sync :: "u32 \<Rightarrow> sync_client" where
  "new_sync rid = \<lparr>sc_region_id = rid, sc_version = 0, sc_phase = Stopped, sc_sent = [], sc_acks = []\<rparr>"

definition schedule_tick :: "sync_client \<Rightarrow> sync_client" where
  "schedule_tick sc = sc\<lparr>sc_phase := Waiting_tick\<rparr>"

text \<open>
  The two aggregates are read under the lock of the registry one after the other, while other threads
  handle devices: \<open>reg\<close> and \<open>reg'\<close> are the registry at the first and at the second read.
\<close>

type_synonym reads = "registry \<times> registry"

definition do_sync_once :: "reads \<Rightarrow> sync_client \<Rightarrow> sync_client" where
  "do_sync_once = (\<lambda>(reg, reg') sc.
     let version = sc_version sc + 1;
         up = \<lparr>up_region_id = sc_region_id sc, up_version = version,
               up_zone_power_sum = zone_power_sum reg,
               up_zone_device_summary = zone_device_summary reg'\<rparr>
     in sc\<lparr>sc_version := version, sc_phase := Resolving up\<rparr>)"

definition start_sync :: "bool \<Rightarrow> reads \<Rightarrow> sync_client \<Rightarrow> sync_client" where
  "start_sync do_first_sync_immediately rs sc =
     (if do_first_sync_immediately then do_sync_once rs sc else schedule_tick sc)"

definition send_sync :: "region_sync_up \<Rightarrow> sync_client \<Rightarrow> sync_client" where
  "send_sync up sc =
     (let payload = encode_region_sync_up up
      in sc\<lparr>sc_phase := Writing, sc_sent := sc_sent sc @ [(REGION_SYNC_UP, payload)]\<rparr>)"

text \<open>The acknowledgement is printed; a body of another type or one that does not decode is not.\<close>

definition on_ack :: "bytes \<Rightarrow> sync_client \<Rightarrow> sync_client" where
  "on_ack body sc =
     (case body of
        [] \<Rightarrow> sc
      | t # p \<Rightarrow>
          if msg_type_of t \<noteq> Some REGION_SYNC_ACK then sc
          else (case decode_region_sync_ack p of
              Inl _ \<Rightarrow> sc
            | Inr ack \<Rightarrow> sc\<lparr>sc_acks := sc_acks sc @ [ack]\<rparr>))"

text \<open>
  The handler of each completion. \<open>rs\<close> is what the handler finds when it reads the registry. A completion that
  the pending operation cannot have leaves the client as it is; \<open>possible\<close> says which it can have.
\<close>

fun possible :: "phase \<Rightarrow> completion \<Rightarrow> bool" where
  "possible Stopped _ = False"
| "possible _ Failed = True"
| "possible Reading_header (Received bs) = (length bs = 4)"
| "possible (Reading_body n) (Received bs) = (length bs = unat n)"
| "possible Reading_header Completed = False"
| "possible (Reading_body n) Completed = False"
| "possible _ Completed = True"
| "possible _ (Received bs) = False"

definition sync_complete :: "reads \<Rightarrow> completion \<Rightarrow> sync_client \<Rightarrow> sync_client" where
  "sync_complete rs c sc =
     (if \<not> possible (sc_phase sc) c then sc
      else case sc_phase sc of
        Stopped \<Rightarrow> sc
      | Waiting_tick \<Rightarrow> if c = Failed then sc\<lparr>sc_phase := Stopped\<rparr> else do_sync_once rs sc
      | Resolving up \<Rightarrow> if c = Failed then schedule_tick sc else sc\<lparr>sc_phase := Connecting up\<rparr>
      | Connecting up \<Rightarrow> if c = Failed then schedule_tick sc else sc\<lparr>sc_phase := Handshaking up\<rparr>
      | Handshaking up \<Rightarrow> if c = Failed then schedule_tick sc else send_sync up sc
      | Writing \<Rightarrow> if c = Failed then schedule_tick sc else sc\<lparr>sc_phase := Reading_header\<rparr>
      | Reading_header \<Rightarrow> (case c of
            Received hdr \<Rightarrow> sc\<lparr>sc_phase := Reading_body (from_be32 (load32 hdr))\<rparr>
          | _ \<Rightarrow> schedule_tick sc)
      | Reading_body n \<Rightarrow> (case c of
            Received body \<Rightarrow> schedule_tick (on_ack body sc)
          | _ \<Rightarrow> schedule_tick sc))"

section \<open>Alarms\<close>

text \<open>
  Socket objects are numbered; \<open>ac_sock\<close> is the one that \<^verbatim>\<open>alarm_sock_\<close> holds, 0 for none. A chain has a
  phase, which for a socket operation names the socket it was started on, and \<open>ch_done\<close>: the
  operation completed with this outcome, but its handler did not run yet. Handlers continue on
  the socket that the member holds when they run. \<open>Threw\<close>: the encoder threw inside a
  handler, which ends the process. \<open>ac_hdr\<close> and \<open>ac_body\<close> are the buffers that all chains share.
  Ghost fields: \<open>ac_written\<close> lists the chains, by position, whose frame was handed to the socket, with
  that frame; \<open>ac_misused\<close> says that a rule of asio's stream was broken: an operation was started
  while another chain's was pending on the same stream, or a stream was destroyed while
  one was pending on it. What happens then is undefined.
\<close>

datatype alarm_phase =
    A_resolving
  | A_connecting nat
  | A_handshaking nat
  | A_writing nat
  | A_reading_header nat
  | A_reading_body nat u32
  | A_finished
  | A_threw exn

record alarm_chain =
  ch_alarm :: alarm_up
  ch_phase :: alarm_phase
  ch_done :: "completion option"

record alarm_client =
  ac_sock :: nat
  ac_chains :: "alarm_chain list"
  ac_hdr :: bytes
  ac_body :: bytes
  ac_written :: "(nat \<times> bytes) list"
  ac_acks :: "alarm_ack list"
  ac_misused :: bool

definition new_alarms :: alarm_client where
  "new_alarms = \<lparr>ac_sock = 0, ac_chains = [], ac_hdr = [0, 0, 0, 0], ac_body = [], ac_written = [],
     ac_acks = [], ac_misused = False\<rparr>"

fun waits_on :: "alarm_phase \<Rightarrow> nat option" where
  "waits_on (A_connecting s) = Some s"
| "waits_on (A_handshaking s) = Some s"
| "waits_on (A_writing s) = Some s"
| "waits_on (A_reading_header s) = Some s"
| "waits_on (A_reading_body s n) = Some s"
| "waits_on _ = None"

definition pending_on :: "nat \<Rightarrow> alarm_chain \<Rightarrow> bool" where
  "pending_on s ch \<longleftrightarrow> waits_on (ch_phase ch) = Some s \<and> ch_done ch = None"

definition busy :: "alarm_client \<Rightarrow> bool" where
  "busy ac \<longleftrightarrow> list_ex (pending_on (ac_sock ac)) (ac_chains ac)"

definition post_alarm :: "alarm_up \<Rightarrow> alarm_client \<Rightarrow> alarm_client" where
  "post_alarm alarm ac =
     ac\<lparr>ac_misused := (ac_misused ac \<or> busy ac), ac_sock := Suc (ac_sock ac),
        ac_chains := ac_chains ac @ [\<lparr>ch_alarm = alarm, ch_phase = A_resolving, ch_done = None\<rparr>]\<rparr>"

definition send_alarm_now :: "alarm_up \<Rightarrow> alarm_client \<Rightarrow> alarm_client" where
  "send_alarm_now alarm ac = post_alarm alarm ac"

definition set_phase :: "nat \<Rightarrow> alarm_phase \<Rightarrow> alarm_client \<Rightarrow> alarm_client" where
  "set_phase i ph ac =
     ac\<lparr>ac_chains := (ac_chains ac)[i := (ac_chains ac ! i)\<lparr>ch_phase := ph, ch_done := None\<rparr>]\<rparr>"

text \<open>An operation is started on the socket that the member holds.\<close>

definition start_op :: "nat \<Rightarrow> (nat \<Rightarrow> alarm_phase) \<Rightarrow> alarm_client \<Rightarrow> alarm_client" where
  "start_op i ph ac = set_phase i (ph (ac_sock ac)) (ac\<lparr>ac_misused := (ac_misused ac \<or> busy ac)\<rparr>)"

definition read_alarm_ack :: "nat \<Rightarrow> alarm_client \<Rightarrow> alarm_client" where
  "read_alarm_ack i ac = start_op i A_reading_header ac"

definition on_alarm_ack :: "bytes \<Rightarrow> alarm_client \<Rightarrow> alarm_client" where
  "on_alarm_ack body ac =
     (case body of
        [] \<Rightarrow> ac
      | t # p \<Rightarrow>
          if msg_type_of t \<noteq> Some ALARM_ACK then ac
          else (case decode_alarm_ack p of
              Inl _ \<Rightarrow> ac
            | Inr ack \<Rightarrow> ac\<lparr>ac_acks := ac_acks ac @ [ack]\<rparr>))"

definition send_alarm :: "nat \<Rightarrow> alarm_up \<Rightarrow> alarm_client \<Rightarrow> alarm_client" where
  "send_alarm i alarm ac =
     (case encode_alarm_up alarm of
        Inl e \<Rightarrow> set_phase i (A_threw e) ac
      | Inr payload \<Rightarrow> (start_op i A_writing ac)
          \<lparr>ac_written := ac_written ac @ [(i, write_frame ALARM_UP payload)]\<rparr>)"

text \<open>The outcomes that the operation of a phase can have, and its completion with one of them.\<close>

fun alarm_possible :: "alarm_phase \<Rightarrow> completion \<Rightarrow> bool" where
  "alarm_possible A_finished _ = False"
| "alarm_possible (A_threw e) _ = False"
| "alarm_possible _ Failed = True"
| "alarm_possible (A_reading_header s) (Received bs) = (length bs = 4)"
| "alarm_possible (A_reading_body s n) (Received bs) = (length bs = unat n)"
| "alarm_possible (A_reading_header s) Completed = False"
| "alarm_possible (A_reading_body s n) Completed = False"
| "alarm_possible _ Completed = True"
| "alarm_possible _ (Received bs) = False"

definition fill_buffer :: "alarm_phase \<Rightarrow> completion \<Rightarrow> alarm_client \<Rightarrow> alarm_client" where
  "fill_buffer ph c ac =
     (case (ph, c) of
        (A_reading_header s, Received bs) \<Rightarrow> ac\<lparr>ac_hdr := bs\<rparr>
      | (A_reading_body s n, Received bs) \<Rightarrow> ac\<lparr>ac_body := bs\<rparr>
      | _ \<Rightarrow> ac)"

definition operation_ends :: "nat \<Rightarrow> completion \<Rightarrow> alarm_client \<Rightarrow> alarm_client" where
  "operation_ends i c ac =
     (if length (ac_chains ac) \<le> i then ac
      else
        let ch = ac_chains ac ! i
        in if ch_done ch \<noteq> None \<or> \<not> alarm_possible (ch_phase ch) c then ac
           else (fill_buffer (ch_phase ch) c ac)
             \<lparr>ac_chains := (ac_chains ac)[i := ch\<lparr>ch_done := Some c\<rparr>]\<rparr>)"

text \<open>The handler of the completed operation.\<close>

definition alarm_handler :: "nat \<Rightarrow> alarm_client \<Rightarrow> alarm_client" where
  "alarm_handler i ac =
     (if length (ac_chains ac) \<le> i then ac
      else
        let ch = ac_chains ac ! i
        in case ch_done ch of
             None \<Rightarrow> ac
           | Some Failed \<Rightarrow> set_phase i A_finished ac
           | Some c \<Rightarrow>
               (case ch_phase ch of
                  A_resolving \<Rightarrow> start_op i A_connecting ac
                | A_connecting s \<Rightarrow> start_op i A_handshaking ac
                | A_handshaking s \<Rightarrow> send_alarm i (ch_alarm ch) ac
                | A_writing s \<Rightarrow> read_alarm_ack i ac
                | A_reading_header s \<Rightarrow>
                    (let n = from_be32 (load32 (ac_hdr ac))
                     in start_op i (\<lambda>s. A_reading_body s n) (ac\<lparr>ac_body := replicate (unat n) 0\<rparr>))
                | A_reading_body s n \<Rightarrow> set_phase i A_finished (on_alarm_ack (ac_body ac) ac)
                | _ \<Rightarrow> ac))"

datatype alarm_op =
    Post alarm_up
  | Op_ends nat completion
  | Handler_runs nat

fun alarm_step :: "alarm_op \<Rightarrow> alarm_client \<Rightarrow> alarm_client" where
  "alarm_step (Post a) ac = send_alarm_now a ac"
| "alarm_step (Op_ends i c) ac = operation_ends i c ac"
| "alarm_step (Handler_runs i) ac = alarm_handler i ac"

section \<open>Lemmas on the synchronisation\<close>

fun rank :: "phase \<Rightarrow> nat" where
  "rank (Resolving up) = 6"
| "rank (Connecting up) = 5"
| "rank (Handshaking up) = 4"
| "rank Writing = 3"
| "rank Reading_header = 2"
| "rank (Reading_body n) = 1"
| "rank _ = 0"

lemma phase_on_ack [simp]: "sc_phase (on_ack body sc) = sc_phase sc"
  "sc_version (on_ack body sc) = sc_version sc" "sc_sent (on_ack body sc) = sc_sent sc"
  by (simp_all add: on_ack_def split: list.split sum.split)

lemma rank_sync_complete:
  assumes "possible (sc_phase sc) c" "sc_phase sc \<noteq> Waiting_tick"
  shows "rank (sc_phase (sync_complete reg c sc)) < rank (sc_phase sc)
    \<and> (c = Failed \<longrightarrow> sc_phase (sync_complete reg c sc) = Waiting_tick)
    \<and> sc_phase (sync_complete reg c sc) \<noteq> Stopped"
  using assms
  by (cases "sc_phase sc"; cases c) (auto simp: sync_complete_def schedule_tick_def send_sync_def Let_def)

lemma rank_0: "rank ph = 0 \<longleftrightarrow> ph \<in> {Stopped, Waiting_tick}"
  by (cases ph) simp_all

text \<open>The first position in a run of completions at which the client waits for the next tick.\<close>

fun runs_until_tick :: "(reads \<times> completion) list \<Rightarrow> sync_client \<Rightarrow> nat option" where
  "runs_until_tick xs sc =
     (if sc_phase sc = Waiting_tick then Some 0
      else case xs of
        [] \<Rightarrow> None
      | (reg, c) # rest \<Rightarrow> map_option Suc (runs_until_tick rest (sync_complete reg c sc)))"

declare runs_until_tick.simps [simp del]

fun all_possible :: "(reads \<times> completion) list \<Rightarrow> sync_client \<Rightarrow> bool" where
  "all_possible [] sc = True"
| "all_possible ((reg, c) # rest) sc =
     (possible (sc_phase sc) c \<and> all_possible rest (sync_complete reg c sc))"

lemma reaches_tick:
  assumes "all_possible xs sc" "rank (sc_phase sc) \<le> length xs" "sc_phase sc \<noteq> Stopped"
  shows "\<exists>n \<le> rank (sc_phase sc). runs_until_tick xs sc = Some n"
  using assms
proof (induction xs arbitrary: sc)
  case Nil
  then show ?case by (auto simp: runs_until_tick.simps rank_0)
next
  case (Cons x xs)
  obtain reg c where x: "x = (reg, c)" by (cases x)
  show ?case
  proof (cases "sc_phase sc = Waiting_tick")
    case False
    let ?sc = "sync_complete reg c sc"
    have r: "rank (sc_phase ?sc) < rank (sc_phase sc)" "sc_phase ?sc \<noteq> Stopped"
      using rank_sync_complete [of sc c reg] Cons.prems False by (auto simp: x)
    then obtain n where "n \<le> rank (sc_phase ?sc)" "runs_until_tick xs ?sc = Some n"
      using Cons.IH [of ?sc] Cons.prems by (auto simp: x)
    with r False show ?thesis
      by (intro exI [of _ "Suc n"]) (simp add: runs_until_tick.simps [of "(reg, c) # xs"] x)
  qed (simp add: runs_until_tick.simps)
qed

text \<open>
  The messages sent so far come from attempts with increasing numbers up to \<open>n\<close>; the version that
  is transmitted is the number of the attempt modulo \<open>2 ^ 32\<close>.
\<close>

definition sent_upto :: "u32 \<Rightarrow> nat \<Rightarrow> (msg_type \<times> bytes) list \<Rightarrow> bool" where
  "sent_upto rid n ms \<longleftrightarrow>
     (\<exists>ups vs. ms = map (\<lambda>up. (REGION_SYNC_UP, encode_region_sync_up up)) ups
        \<and> (\<forall>up \<in> set ups. up_region_id up = rid)
        \<and> sorted_wrt (<) vs \<and> (\<forall>v \<in> set vs. 0 < v \<and> v \<le> n)
        \<and> map up_version ups = map word_of_nat vs)"

lemma sent_upto_mono: "sent_upto rid n ms \<Longrightarrow> n \<le> m \<Longrightarrow> sent_upto rid m ms"
  unfolding sent_upto_def by (elim exE, rule_tac x = ups in exI, rule_tac x = vs in exI) auto

lemma sent_upto_snoc:
  assumes "sent_upto rid m ms" "m < n" "up_version up = word_of_nat n" "up_region_id up = rid"
  shows "sent_upto rid n (ms @ [(REGION_SYNC_UP, encode_region_sync_up up)])"
proof -
  from assms(1) obtain ups vs where u: "ms = map (\<lambda>up. (REGION_SYNC_UP, encode_region_sync_up up)) ups"
    "\<forall>up \<in> set ups. up_region_id up = rid" "sorted_wrt (<) vs" "\<forall>v \<in> set vs. 0 < v \<and> v \<le> m"
    "map up_version ups = map word_of_nat vs"
    unfolding sent_upto_def by blast
  have "sorted_wrt (<) (vs @ [n])" "\<forall>v \<in> set (vs @ [n]). 0 < v \<and> v \<le> n"
    using u(3,4) assms(2) by (auto simp: sorted_wrt_append)
  with u assms(3,4) show ?thesis
    unfolding sent_upto_def by (intro exI [of _ "ups @ [up]"] exI [of _ "vs @ [n]"]) simp
qed

fun pending_up :: "phase \<Rightarrow> region_sync_up option" where
  "pending_up (Resolving up) = Some up"
| "pending_up (Connecting up) = Some up"
| "pending_up (Handshaking up) = Some up"
| "pending_up _ = None"

fun pending_ok :: "u32 \<Rightarrow> nat \<Rightarrow> nat \<Rightarrow> region_sync_up option \<Rightarrow> bool" where
  "pending_ok rid n m None \<longleftrightarrow> m \<le> n"
| "pending_ok rid n m (Some up) \<longleftrightarrow> m < n \<and> up_version up = word_of_nat n \<and> up_region_id up = rid"

definition sync_inv :: "u32 \<Rightarrow> nat \<Rightarrow> sync_client \<Rightarrow> bool" where
  "sync_inv rid n sc \<longleftrightarrow> sc_region_id sc = rid \<and> sc_version sc = word_of_nat n
     \<and> (\<exists>m. sent_upto rid m (sc_sent sc) \<and> pending_ok rid n m (pending_up (sc_phase sc)))"

lemma pending_ok_le: "pending_ok rid n m p \<Longrightarrow> m \<le> n"
  by (cases p) simp_all

lemma region_on_ack [simp]: "sc_region_id (on_ack body sc) = sc_region_id sc"
  by (simp add: on_ack_def split: list.split sum.split)

lemma sync_inv_do_sync: "sync_inv rid n sc \<Longrightarrow> sync_inv rid (Suc n) (do_sync_once rs sc)"
  unfolding sync_inv_def
  by (elim conjE exE, intro conjI exI) (auto simp: do_sync_once_def Let_def case_prod_unfold dest: pending_ok_le)

lemma sync_inv_keep:
  "sync_inv rid n sc \<Longrightarrow> sc_region_id sc' = sc_region_id sc \<Longrightarrow> sc_version sc' = sc_version sc
     \<Longrightarrow> sc_sent sc' = sc_sent sc \<Longrightarrow> pending_up (sc_phase sc') \<in> {None, pending_up (sc_phase sc)}
     \<Longrightarrow> sync_inv rid n sc'"
  unfolding sync_inv_def by (elim conjE exE, intro conjI exI) (auto dest: pending_ok_le)

lemma sync_inv_send:
  "sync_inv rid n sc \<Longrightarrow> pending_up (sc_phase sc) = Some up \<Longrightarrow> sync_inv rid n (send_sync up sc)"
  by (auto simp: sync_inv_def send_sync_def Let_def intro: sent_upto_snoc)

lemma sync_inv_step:
  assumes "sync_inv rid n sc"
  shows "\<exists>n' \<le> Suc n. sync_inv rid n' (sync_complete reg c sc)"
proof (cases "sc_phase sc = Waiting_tick \<and> c = Completed")
  case True
  then show ?thesis
    using sync_inv_do_sync [OF assms] by (intro exI [of _ "Suc n"]) (simp add: sync_complete_def)
next
  case False
  have "sync_inv rid n (sync_complete reg c sc)"
  proof (cases "sc_phase sc")
    case (Handshaking up)
    then show ?thesis
      using sync_inv_send [OF assms, of up]
      by (cases c) (auto simp: sync_complete_def schedule_tick_def assms intro: sync_inv_keep [OF assms])
  qed (use False in \<open>cases c; auto simp: sync_complete_def schedule_tick_def assms
         intro: sync_inv_keep [OF assms]\<close>)+
  then show ?thesis by (intro exI [of _ n]) simp
qed

definition sync_run :: "(reads \<times> completion) list \<Rightarrow> sync_client \<Rightarrow> sync_client" where
  "sync_run xs sc = fold (\<lambda>(reg, c). sync_complete reg c) xs sc"

lemma sync_inv_run:
  "sync_inv rid n sc \<Longrightarrow> \<exists>n' \<le> n + length xs. sync_inv rid n' (sync_run xs sc)"
proof (induction xs arbitrary: n sc)
  case (Cons x xs)
  obtain reg c where x: "x = (reg, c)" by (cases x)
  from sync_inv_step [OF Cons.prems, of reg c] obtain k
    where k: "k \<le> Suc n" "sync_inv rid k (sync_complete reg c sc)" by blast
  from Cons.IH [OF k(2)] obtain n' where "n' \<le> k + length xs"
    "sync_inv rid n' (sync_run xs (sync_complete reg c sc))" by blast
  with k(1) show ?case by (intro exI [of _ n']) (simp add: sync_run_def x)
qed (auto simp: sync_run_def)

lemma sync_inv_new: "sync_inv rid 0 (new_sync rid)"
proof -
  have "sent_upto rid 0 []" unfolding sent_upto_def by (intro exI [of _ "[]"]) simp
  then show ?thesis by (auto simp: sync_inv_def new_sync_def)
qed

section \<open>Two reads of the registry\<close>

lemma devices_of_update:
  "devices_of z al = [] \<Longrightarrow> ds_zone_id st = z \<Longrightarrow> devices_of z (AList.update u st al) = [st]"
  by (induction al) (auto split: if_splits)

text \<open>
  A lamp that registers between the reads, as the first device of its zone, makes a synchronisation
  that counts the lamp and has no power for its zone, which no single registry gives.
\<close>

theorem torn_synchronisation:
  assumes "z \<noteq> 0" "devices_of z (dev reg) = []" "ds_type st = LUMINAIRE" "ds_zone_id st = z"
    and "sc_phase (do_sync_once (reg, register_lamp (upsert reg u st) u z) sc) = Resolving up"
  shows "map_of (up_zone_power_sum up) z = None
    \<and> (\<exists>zs \<in> set (up_zone_device_summary up). zs_zone_id zs = z \<and> zs_lamp_total zs = 1)
    \<and> (\<forall>r. zone_power_sum r = up_zone_power_sum up \<longrightarrow> zone_device_summary r \<noteq> up_zone_device_summary up)"
proof -
  let ?reg = "register_lamp (upsert reg u st) u z"
  have up: "up_zone_power_sum up = zone_power_sum reg" "up_zone_device_summary up = zone_device_summary ?reg"
    using assms(5) by (auto simp: do_sync_once_def Let_def)
  have "devices_of z (dev ?reg) = [st]"
    using devices_of_update [OF assms(2,4)] by (simp add: register_lamp_def upsert_def Let_def)
  then have zs: "zone_summary_spec ?reg z \<in> set (zone_device_summary ?reg)"
    "zs_lamp_total (zone_summary_spec ?reg z) = 1"
    using assms(1,3) by (auto simp: set_zone_device_summary zones_of_def zone_summary_spec_def count_where_def)
  have lamps: "lamps_of z kvs = filter (\<lambda>s. ds_type s = LUMINAIRE) (devices_of z kvs)" for kvs
    by (simp add: lamps_of_def devices_of_def conj_commute)
  have none: "map_of (zone_power_sum reg) z = None" by (simp add: zone_power_sum_lookup lamps assms(2))
  have "zone_device_summary r \<noteq> zone_device_summary ?reg" if "zone_power_sum r = zone_power_sum reg" for r
  proof
    assume "zone_device_summary r = zone_device_summary ?reg"
    with zs(1) have "zone_summary_spec ?reg z \<in> set (zone_device_summary r)" by simp
    then obtain z' where "zone_summary_spec ?reg z = zone_summary_spec r z'"
      unfolding set_zone_device_summary by blast
    then have "zone_summary_spec ?reg z = zone_summary_spec r z" by (metis zs_zone_id_spec)
    with zs(2) have "zs_lamp_total (zone_summary_spec r z) = 1" by simp
    then have "lamps_of z (dev r) \<noteq> []" by (auto simp: zone_summary_spec_def count_where_def lamps)
    moreover have "map_of (zone_power_sum r) z = None" using none that by simp
    ultimately show False using assms(1) by (simp add: zone_power_sum_lookup [of r])
  qed
  with zs none up show ?thesis by (auto intro!: bexI [of _ "zone_summary_spec ?reg z"])
qed

lemma torn_synchronisation_witness:
  "\<exists>up. sc_phase (do_sync_once (empty_registry,
        register_lamp (upsert empty_registry ''lamp1'' (new_device\<lparr>ds_zone_id := 7\<rparr>)) ''lamp1'' 7)
        (new_sync 1)) = Resolving up
     \<and> map_of (up_zone_power_sum up) 7 = None \<and> (\<exists>zs \<in> set (up_zone_device_summary up). zs_lamp_total zs = 1)"
proof -
  let ?st = "new_device\<lparr>ds_zone_id := 7\<rparr>"
  obtain up where up: "sc_phase (do_sync_once (empty_registry,
      register_lamp (upsert empty_registry ''lamp1'' ?st) ''lamp1'' 7) (new_sync 1)) = Resolving up"
    by (simp add: do_sync_once_def Let_def)
  have "(7::u32) \<noteq> 0" "devices_of 7 (dev empty_registry) = []" "ds_type ?st = LUMINAIRE" "ds_zone_id ?st = 7"
    by (simp_all add: empty_registry_def new_device_def)
  from torn_synchronisation [OF this up] up show ?thesis by blast
qed

section \<open>Lemmas on the alarms\<close>

text \<open>No chain is under way.\<close>

definition quiet :: "alarm_client \<Rightarrow> bool" where
  "quiet ac \<longleftrightarrow> list_all (\<lambda>ch. ch_phase ch = A_finished) (ac_chains ac)"

text \<open>
  One alarm at a time: from a quiet client an alarm is posted, and then each operation of its chain
  completes and its handler runs. \<open>in_round\<close>: the last chain of \<open>ac\<close> is the only one under way.
\<close>

definition one_op :: "nat \<Rightarrow> completion \<Rightarrow> alarm_client \<Rightarrow> alarm_client" where
  "one_op i c ac = alarm_handler i (operation_ends i c ac)"

definition in_round :: "alarm_client \<Rightarrow> alarm_up \<Rightarrow> alarm_phase \<Rightarrow> alarm_client \<Rightarrow> bool" where
  "in_round ac0 a ph ac \<longleftrightarrow> ac_chains ac = ac_chains ac0 @ [\<lparr>ch_alarm = a, ch_phase = ph, ch_done = None\<rparr>]
     \<and> ac_sock ac = Suc (ac_sock ac0) \<and> ac_misused ac = ac_misused ac0"

lemma not_busy_quiet: "quiet ac \<Longrightarrow> \<not> busy ac"
  by (auto simp: quiet_def busy_def list_all_iff list_ex_iff pending_on_def)

lemma not_busy_done:
  "quiet ac0 \<Longrightarrow> ac_chains ac = ac_chains ac0 @ [ch] \<Longrightarrow> ch_done ch \<noteq> None \<Longrightarrow> \<not> busy ac"
  by (auto simp: quiet_def busy_def list_all_iff list_ex_iff pending_on_def)

lemma quiet_round: "quiet ac0 \<Longrightarrow> in_round ac0 a A_finished ac \<Longrightarrow> quiet ac"
  by (simp add: quiet_def in_round_def)

lemma in_round_post: "quiet ac0 \<Longrightarrow> in_round ac0 a A_resolving (send_alarm_now a ac0)"
  by (simp add: in_round_def send_alarm_now_def post_alarm_def not_busy_quiet)

lemma fill_buffer_simps [simp]:
  "ac_sock (fill_buffer ph c ac) = ac_sock ac" "ac_chains (fill_buffer ph c ac) = ac_chains ac"
  "ac_written (fill_buffer ph c ac) = ac_written ac" "ac_acks (fill_buffer ph c ac) = ac_acks ac"
  "ac_misused (fill_buffer ph c ac) = ac_misused ac"
  by (simp_all add: fill_buffer_def split: alarm_phase.split completion.split)

lemma on_alarm_ack_simps [simp]:
  "ac_sock (on_alarm_ack b ac) = ac_sock ac" "ac_written (on_alarm_ack b ac) = ac_written ac"
  "ac_chains (on_alarm_ack b ac) = ac_chains ac" "ac_misused (on_alarm_ack b ac) = ac_misused ac"
  by (simp_all add: on_alarm_ack_def split: list.split sum.split)

text \<open>The phase after an operation that did not fail.\<close>

fun next_phase :: "nat \<Rightarrow> alarm_phase \<Rightarrow> completion \<Rightarrow> alarm_phase" where
  "next_phase s _ Failed = A_finished"
| "next_phase s A_resolving _ = A_connecting s"
| "next_phase s (A_connecting _) _ = A_handshaking s"
| "next_phase s (A_handshaking _) _ = A_writing s"
| "next_phase s (A_writing _) _ = A_reading_header s"
| "next_phase s (A_reading_header _) (Received hdr) = A_reading_body s (from_be32 (load32 hdr))"
| "next_phase s _ _ = A_finished"

definition acks_in :: "alarm_phase \<Rightarrow> completion \<Rightarrow> alarm_ack list" where
  "acks_in ph c =
     (case (ph, c) of
        (A_reading_body s n, Received (t # p)) \<Rightarrow>
          if msg_type_of t = Some ALARM_ACK then (case decode_alarm_ack p of Inl _ \<Rightarrow> [] | Inr ack \<Rightarrow> [ack])
          else []
      | _ \<Rightarrow> [])"

lemma one_op_round:
  assumes "quiet ac0" "in_round ac0 a ph ac" "alarm_possible ph c" "encode_alarm_up a = Inr payload"
    and "i = length (ac_chains ac0)"
  shows "in_round ac0 a (next_phase (Suc (ac_sock ac0)) ph c) (one_op i c ac)"
    "ac_written (one_op i c ac) = ac_written ac
       @ (if c = Completed \<and> waits_on ph \<noteq> None \<and> ph = A_handshaking (the (waits_on ph))
          then [(i, write_frame ALARM_UP payload)] else [])"
    "ac_acks (one_op i c ac) = ac_acks ac @ acks_in ph c"
proof -
  let ?ac = "operation_ends i c ac"
  have ends: "?ac = (fill_buffer ph c ac)\<lparr>ac_chains := ac_chains ac0
      @ [\<lparr>ch_alarm = a, ch_phase = ph, ch_done = Some c\<rparr>]\<rparr>"
    using assms(2,3,5) by (simp add: operation_ends_def in_round_def Let_def)
  have idle: "\<not> busy (?ac\<lparr>ac_body := b\<rparr>)" "\<not> busy ?ac" for b
    by (rule not_busy_done [OF assms(1), of _ "\<lparr>ch_alarm = a, ch_phase = ph, ch_done = Some c\<rparr>"];
        simp add: ends)+
  note simps = one_op_def alarm_handler_def in_round_def set_phase_def start_op_def send_alarm_def
    read_alarm_ack_def Let_def assms(4,5)
  have f: "ac_sock ?ac = Suc (ac_sock ac0)" "ac_misused ?ac = ac_misused ac0"
    "ac_chains ?ac = ac_chains ac0 @ [\<lparr>ch_alarm = a, ch_phase = ph, ch_done = Some c\<rparr>]"
    "ac_written ?ac = ac_written ac" "ac_acks ?ac = ac_acks ac"
    using assms(2) by (simp_all add: ends in_round_def)
  have hdr: "ac_hdr ?ac = bs" if "c = Received bs" "ph = A_reading_header s" for bs s
    unfolding ends using that by (simp add: fill_buffer_def)
  have body: "ac_body ?ac = bs" if "c = Received bs" "ph = A_reading_body s n" for bs s n
    unfolding ends using that by (simp add: fill_buffer_def)
  show "in_round ac0 a (next_phase (Suc (ac_sock ac0)) ph c) (one_op i c ac)"
    using assms(3) idle f hdr by (cases ph; cases c) (simp_all add: simps)
  show "ac_written (one_op i c ac) = ac_written ac
       @ (if c = Completed \<and> waits_on ph \<noteq> None \<and> ph = A_handshaking (the (waits_on ph))
          then [(i, write_frame ALARM_UP payload)] else [])"
    using assms(3) idle f hdr by (cases ph; cases c) (simp_all add: simps)
  show "ac_acks (one_op i c ac) = ac_acks ac @ acks_in ph c"
    using assms(3) idle f hdr body
    by (cases ph; cases c) (auto simp: simps acks_in_def on_alarm_ack_def split: list.split sum.split)
qed

text \<open>
  A round in which every operation completes. \<open>good_round hdr body\<close>: all of them succeed, the last
  two with the header and the body of the reply; \<open>whole_round\<close>: these, or the first \<open>k\<close> of them and
  then a failure.
\<close>

definition alarm_round :: "nat \<Rightarrow> alarm_up \<Rightarrow> completion list \<Rightarrow> alarm_op list" where
  "alarm_round i a cs = Post a # concat (map (\<lambda>c. [Op_ends i c, Handler_runs i]) cs)"

definition good_round :: "bytes \<Rightarrow> bytes \<Rightarrow> completion list" where
  "good_round hdr body = [Completed, Completed, Completed, Completed, Received hdr, Received body]"

definition reply_fits :: "bytes \<Rightarrow> bytes \<Rightarrow> bool" where
  "reply_fits hdr body \<longleftrightarrow> length hdr = 4 \<and> length body = unat (from_be32 (load32 hdr))"

definition whole_round :: "completion list \<Rightarrow> bool" where
  "whole_round cs \<longleftrightarrow> (\<exists>hdr body. reply_fits hdr body
     \<and> (cs = good_round hdr body \<or> (\<exists>k < 6. cs = take k (good_round hdr body) @ [Failed])))"

lemma fold_round: "fold alarm_step (alarm_round i a cs) ac = fold (one_op i) cs (send_alarm_now a ac)"
proof -
  have "fold alarm_step (concat (map (\<lambda>c. [Op_ends i c, Handler_runs i]) cs)) ac = fold (one_op i) cs ac" for ac
    by (induction cs arbitrary: ac) (simp_all add: one_op_def)
  then show ?thesis by (simp add: alarm_round_def)
qed

text \<open>The effect of the operations of one chain, from a phase on.\<close>

fun chain_run :: "nat \<Rightarrow> alarm_phase \<Rightarrow> completion list \<Rightarrow> alarm_phase" where
  "chain_run s ph [] = ph"
| "chain_run s ph (c # cs) = chain_run s (next_phase s ph c) cs"

fun chain_possible :: "nat \<Rightarrow> alarm_phase \<Rightarrow> completion list \<Rightarrow> bool" where
  "chain_possible s ph [] = True"
| "chain_possible s ph (c # cs) \<longleftrightarrow> alarm_possible ph c \<and> chain_possible s (next_phase s ph c) cs"

fun chain_frames :: "nat \<Rightarrow> alarm_phase \<Rightarrow> completion list \<Rightarrow> nat" where
  "chain_frames s ph [] = 0"
| "chain_frames s ph (c # cs) =
     (if c = Completed \<and> waits_on ph \<noteq> None \<and> ph = A_handshaking (the (waits_on ph)) then 1 else 0)
       + chain_frames s (next_phase s ph c) cs"

fun chain_acks :: "nat \<Rightarrow> alarm_phase \<Rightarrow> completion list \<Rightarrow> alarm_ack list" where
  "chain_acks s ph [] = []"
| "chain_acks s ph (c # cs) = acks_in ph c @ chain_acks s (next_phase s ph c) cs"

lemma ops_round:
  assumes "quiet ac0" "in_round ac0 a ph ac" "s = Suc (ac_sock ac0)" "chain_possible s ph cs"
    and "encode_alarm_up a = Inr payload" "i = length (ac_chains ac0)"
  shows "in_round ac0 a (chain_run s ph cs) (fold (one_op i) cs ac)
    \<and> ac_written (fold (one_op i) cs ac)
        = ac_written ac @ replicate (chain_frames s ph cs) (i, write_frame ALARM_UP payload)
    \<and> ac_acks (fold (one_op i) cs ac) = ac_acks ac @ chain_acks s ph cs"
  using assms(2,4)
proof (induction cs arbitrary: ph ac)
  case (Cons c cs)
  then have c: "alarm_possible ph c" "chain_possible s (next_phase s ph c) cs" by simp_all
  note one = one_op_round [OF assms(1) Cons.prems(1) c(1) assms(5,6), folded assms(3)]
  from Cons.IH [OF one(1) c(2)] show ?case by (simp add: one(2,3))
qed simp

lemma good_round_runs:
  assumes "reply_fits hdr body"
  shows "chain_possible s A_resolving (good_round hdr body)"
    "chain_run s A_resolving (good_round hdr body) = A_finished"
    "chain_frames s A_resolving (good_round hdr body) = 1"
    "chain_acks s A_resolving (good_round hdr body) = acks_in (A_reading_body s 0) (Received body)"
  using assms by (simp_all add: good_round_def reply_fits_def acks_in_def)

lemma whole_round_runs:
  assumes "whole_round cs"
  shows "chain_possible s A_resolving cs" "chain_run s A_resolving cs = A_finished"
    "chain_frames s A_resolving cs = (if take 3 cs = [Completed, Completed, Completed] then 1 else 0)"
    "chain_acks s A_resolving cs = acks_in (A_reading_body s 0) (last cs)"
proof -
  obtain hdr body where fits: "reply_fits hdr body"
    and cs: "cs = good_round hdr body \<or> (\<exists>k < 6. cs = take k (good_round hdr body) @ [Failed])"
    using assms by (auto simp: whole_round_def)
  from cs consider "cs = good_round hdr body" | k where "k < 6" "cs = take k (good_round hdr body) @ [Failed]" by blast
  then have "chain_possible s A_resolving cs \<and> chain_run s A_resolving cs = A_finished
    \<and> chain_frames s A_resolving cs = (if take 3 cs = [Completed, Completed, Completed] then 1 else 0)
    \<and> chain_acks s A_resolving cs = acks_in (A_reading_body s 0) (last cs)"
  proof cases
    case 1
    with good_round_runs [OF fits, of s] show ?thesis by (simp add: good_round_def)
  next
    case 2
    then have "k \<in> {0, 1, 2, 3, 4, 5}" by auto
    with 2(2) fits show ?thesis
      by (elim insertE emptyE) (simp_all add: good_round_def reply_fits_def acks_in_def numeral_eq_Suc)
  qed
  then show "chain_possible s A_resolving cs" "chain_run s A_resolving cs = A_finished"
    "chain_frames s A_resolving cs = (if take 3 cs = [Completed, Completed, Completed] then 1 else 0)"
    "chain_acks s A_resolving cs = acks_in (A_reading_body s 0) (last cs)" by simp_all
qed

definition reply_acks :: "completion list \<Rightarrow> alarm_ack list" where
  "reply_acks cs = acks_in (A_reading_body 0 0) (last cs)"

lemma reply_acks_any: "acks_in (A_reading_body s n) c = acks_in (A_reading_body 0 0) c"
  by (simp add: acks_in_def)

lemma round_outcome:
  assumes "quiet ac" "encode_alarm_up a = Inr payload" "whole_round cs" "i = length (ac_chains ac)"
    and "ac' = fold alarm_step (alarm_round i a cs) ac"
  shows "quiet ac'" "length (ac_chains ac') = Suc i" "ac_misused ac' = ac_misused ac"
    "ac_written ac' = ac_written ac
       @ (if take 3 cs = [Completed, Completed, Completed] then [(i, write_frame ALARM_UP payload)] else [])"
    "ac_acks ac' = ac_acks ac @ reply_acks cs"
proof -
  let ?s = "Suc (ac_sock ac)"
  note w = whole_round_runs [OF assms(3), of ?s]
  note o = ops_round [OF assms(1) in_round_post [OF assms(1)] refl w(1) assms(2,4)]
  have ac': "ac' = fold (one_op i) cs (send_alarm_now a ac)" by (simp add: assms(5) fold_round)
  have rd: "in_round ac a A_finished ac'" using o by (simp add: ac' w)
  then show "quiet ac'" "length (ac_chains ac') = Suc i" "ac_misused ac' = ac_misused ac"
    using quiet_round [OF assms(1)] assms(4) by (simp_all add: in_round_def)
  show "ac_written ac' = ac_written ac
       @ (if take 3 cs = [Completed, Completed, Completed] then [(i, write_frame ALARM_UP payload)] else [])"
    "ac_acks ac' = ac_acks ac @ reply_acks cs"
    using o by (simp_all add: ac' w send_alarm_now_def post_alarm_def reply_acks_def reply_acks_any [of ?s 0])
qed

text \<open>Rounds one after the other, from chain \<open>i\<close> on.\<close>

fun alarm_rounds :: "nat \<Rightarrow> (alarm_up \<times> completion list) list \<Rightarrow> alarm_op list" where
  "alarm_rounds i [] = []"
| "alarm_rounds i ((a, cs) # rounds) = alarm_round i a cs @ alarm_rounds (Suc i) rounds"

definition transmitted :: "completion list \<Rightarrow> bool" where
  "transmitted cs \<longleftrightarrow> take 3 cs = [Completed, Completed, Completed]"

lemma rounds_outcome:
  assumes "quiet ac" "\<forall>(a, cs) \<in> set rounds. encode_alarm_up a = Inr (enc_alarm_up a) \<and> whole_round cs"
    and "i = length (ac_chains ac)" "ac' = fold alarm_step (alarm_rounds i rounds) ac"
  shows "quiet ac' \<and> ac_misused ac' = ac_misused ac
    \<and> map snd (ac_written ac') = map snd (ac_written ac)
        @ map (\<lambda>(a, cs). write_frame ALARM_UP (enc_alarm_up a)) (filter (\<lambda>(a, cs). transmitted cs) rounds)
    \<and> ac_acks ac' = ac_acks ac @ concat (map (\<lambda>(a, cs). reply_acks cs) rounds)"
  using assms
proof (induction rounds arbitrary: i ac)
  case (Cons x rounds)
  obtain a cs where x: "x = (a, cs)" by (cases x)
  let ?ac = "fold alarm_step (alarm_round i a cs) ac"
  have "encode_alarm_up a = Inr (enc_alarm_up a)" "whole_round cs" using Cons.prems(2) by (auto simp: x)
  note one = round_outcome [OF Cons.prems(1) this Cons.prems(3) refl]
  have "\<forall>(a, cs) \<in> set rounds. encode_alarm_up a = Inr (enc_alarm_up a) \<and> whole_round cs"
    "ac' = fold alarm_step (alarm_rounds (Suc i) rounds) ?ac"
    using Cons.prems(2,4) by (auto simp: x)
  from Cons.IH [OF one(1) this(1) _ this(2)] show ?case by (simp add: one x transmitted_def)
qed simp

subsection \<open>Alarms that meet\<close>

text \<open>
  Posting an alarm destroys the socket of the alarm before: where that one has an operation pending
  on it, this breaks the rule for asio's TLS stream that it must not be destroyed then.
\<close>

lemma posting_destroys_busy_stream:
  "i < length (ac_chains ac) \<Longrightarrow> pending_on (ac_sock ac) (ac_chains ac ! i)
     \<Longrightarrow> ac_misused (send_alarm_now a ac)"
  by (auto simp: send_alarm_now_def post_alarm_def busy_def list_ex_iff)

text \<open>
  Two alarms posted by one handler, as the timer does for two silent devices: when both
  have resolved, both connect the one socket that is left at the same time.
\<close>

lemma alarms_together_misuse:
  "ac_misused (fold alarm_step [Post a, Post b, Op_ends 0 Completed, Handler_runs 0, Op_ends 1 Completed,
     Handler_runs 1] new_alarms)"
  by (simp add: new_alarms_def send_alarm_now_def post_alarm_def operation_ends_def alarm_handler_def
      start_op_def set_phase_def busy_def pending_on_def fill_buffer_def Let_def)

section \<open>Properties\<close>

text \<open>
  C29: The synchronisation never gets stuck: wherever an attempt is, at most six completions later,
  whether they succeed or fail, the client waits for the next tick; and a failure at any point
  ends the attempt at once.
\<close>

theorem sync_always_returns_to_tick:
  assumes "sc_phase sc \<noteq> Stopped" "all_possible xs sc" "6 \<le> length xs"
  shows "\<exists>n \<le> 6. runs_until_tick xs sc = Some n"
proof -
  have "rank (sc_phase sc) \<le> 6" by (cases "sc_phase sc") simp_all
  with reaches_tick [OF assms(2) _ assms(1)] assms(3) show ?thesis by (meson le_trans)
qed

lemma sync_always_returns_to_tick_witness:
  "\<exists>n \<le> 6. runs_until_tick (map (Pair (empty_registry, empty_registry))
      [Completed, Failed, Completed, Failed, Completed, Failed])
      (do_sync_once (empty_registry, empty_registry) (new_sync 1)) = Some n"
  by (rule sync_always_returns_to_tick)
    (simp_all add: do_sync_once_def new_sync_def sync_complete_def schedule_tick_def Let_def)

text \<open>
  In any run of completions the client sends synchronisations of its own region only, and their
  versions are those of attempts with strictly increasing numbers, at most one per completion: the
  central server never sees a version repeated or going back before \<open>2 ^ 32\<close> attempts.
\<close>

theorem sync_versions_increase:
  "\<exists>n \<le> Suc (length xs). sent_upto rid n (sc_sent (sync_run xs (start_sync now rs (new_sync rid))))"
proof -
  have "\<exists>k \<le> 1. sync_inv rid k (start_sync now rs (new_sync rid))"
  proof (cases now)
    case True
    then show ?thesis
      using sync_inv_do_sync [OF sync_inv_new] by (intro exI [of _ 1]) (simp add: start_sync_def)
  next
    case False
    have "sync_inv rid 0 (schedule_tick (new_sync rid))"
      by (rule sync_inv_keep [OF sync_inv_new]) (simp_all add: schedule_tick_def)
    with False show ?thesis by (intro exI [of _ 0]) (simp add: start_sync_def)
  qed
  then obtain k where k: "k \<le> 1" "sync_inv rid k (start_sync now rs (new_sync rid))" by blast
  from sync_inv_run [OF k(2), of xs] obtain n where n: "n \<le> k + length xs"
    "sync_inv rid n (sync_run xs (start_sync now rs (new_sync rid)))" by blast
  from n(2) have "sent_upto rid n (sc_sent (sync_run xs (start_sync now rs (new_sync rid))))"
    by (auto simp: sync_inv_def intro: sent_upto_mono dest: pending_ok_le)
  with n(1) k(1) show ?thesis by (intro exI [of _ n]) simp
qed

text \<open>
  A successful attempt: it transmits exactly one message, the aggregates of the registry as they
  were read when the tick fired, whatever happens to the registry until the connection stands, under
  the next version number, and after the reply it waits for the next tick.
\<close>

theorem sync_attempt_succeeds:
  assumes "sc_phase sc = Waiting_tick" "length hdr = 4" "length body = unat (from_be32 (load32 hdr))"
  shows "case sync_run [((reg, reg'), Completed), (r1, Completed), (r2, Completed), (r3, Completed),
       (r4, Completed), (r5, Received hdr), (r6, Received body)] sc of sc' \<Rightarrow>
     sc_phase sc' = Waiting_tick \<and> sc_version sc' = sc_version sc + 1
     \<and> sc_sent sc' = sc_sent sc @ [(REGION_SYNC_UP, encode_region_sync_up
          \<lparr>up_region_id = sc_region_id sc, up_version = sc_version sc + 1,
           up_zone_power_sum = zone_power_sum reg,
           up_zone_device_summary = zone_device_summary reg'\<rparr>)]"
  using assms
  by (simp add: sync_run_def sync_complete_def do_sync_once_def send_sync_def schedule_tick_def Let_def)

lemma sync_attempt_succeeds_witness:
  "sc_version (sync_run (map (Pair (empty_registry, empty_registry)) [Completed, Completed, Completed,
      Completed, Completed, Received [0, 0, 0, 1], Received [99]]) (schedule_tick (new_sync 1))) = 1"
proof -
  have "sc_phase (schedule_tick (new_sync 1)) = Waiting_tick" "length [0, 0, 0, 1 :: u8] = 4"
    by (simp_all add: schedule_tick_def)
  moreover have "length [99 :: u8] = unat (from_be32 (load32 [0, 0, 0, 1]))"
    by (simp add: from_be32_def to_be32_def)
  ultimately show ?thesis
    using sync_attempt_succeeds [of "schedule_tick (new_sync 1)" "[0, 0, 0, 1]" "[99]"
        empty_registry empty_registry]
    by (simp add: schedule_tick_def new_sync_def)
qed

definition example_up :: alarm_up where
  "example_up = \<lparr>al_region_id = 1, al_ts_unix = 5, al_device_type = 1, al_zone_id = 1, al_code = 9,
     al_uri = ''u'', al_text = ''comm_lost''\<rparr>"

text \<open>
  C30: Alarms raised one at a time, each after the operations of the one before ended, wherever these
  failed: no rule of the stream is ever broken, the frames handed to the sockets are those of exactly
  the alarms whose resolving, connecting and handshake succeeded, each once and in the order in which
  they were raised, and the acknowledgements that arrived are all read and decoded, in order. (For
  alarms that meet see \<open>alarms_together_misuse\<close>.)
\<close>

theorem alarms_one_at_a_time:
  assumes "\<forall>(a, cs) \<in> set rounds. short_str (al_uri a) \<and> short_str (al_text a) \<and> whole_round cs"
    and "ac = fold alarm_step (alarm_rounds 0 rounds) new_alarms"
  shows "\<not> ac_misused ac
    \<and> map snd (ac_written ac) = map (\<lambda>(a, cs). write_frame ALARM_UP (enc_alarm_up a))
        (filter (\<lambda>(a, cs). take 3 cs = [Completed, Completed, Completed]) rounds)
    \<and> ac_acks ac = concat (map (\<lambda>(a, cs). reply_acks cs) rounds)"
proof -
  have "quiet new_alarms" "0 = length (ac_chains new_alarms)" by (simp_all add: quiet_def new_alarms_def)
  moreover have "\<forall>(a, cs) \<in> set rounds. encode_alarm_up a = Inr (enc_alarm_up a) \<and> whole_round cs"
    using assms(1) by (auto simp: alarm_up.encode_eq)
  ultimately show ?thesis
    using rounds_outcome [of new_alarms rounds 0 ac] assms(2)
    by (simp add: new_alarms_def transmitted_def)
qed

lemma alarms_one_at_a_time_witness:
  "let ac = fold alarm_step (alarm_rounds 0 [(example_up, [Completed, Failed]),
       (example_up, good_round [0, 0, 0, 1] [99])]) new_alarms
   in \<not> ac_misused ac \<and> length (ac_written ac) = 1"
proof -
  let ?good = "good_round [0, 0, 0, 1] [99]"
  let ?rounds = "[(example_up, [Completed, Failed]), (example_up, ?good)]"
  have fits: "reply_fits [0, 0, 0, 1] [99]" by (simp add: reply_fits_def from_be32_def to_be32_def)
  have "[Completed, Failed] = take 1 ?good @ [Failed]" by (simp add: good_round_def)
  moreover have "(1::nat) < 6" by simp
  ultimately have "whole_round [Completed, Failed]" "whole_round ?good"
    using fits unfolding whole_round_def by blast+
  then have "\<forall>(a, cs) \<in> set ?rounds. short_str (al_uri a) \<and> short_str (al_text a) \<and> whole_round cs"
    by (simp add: example_up_def short_str_def)
  note now_holds = alarms_one_at_a_time [OF this refl]
  have "filter (\<lambda>(a, cs). take 3 cs = [Completed, Completed, Completed]) ?rounds = [(example_up, ?good)]"
    by (simp add: good_round_def)
  with now_holds have "length (map snd (ac_written (fold alarm_step (alarm_rounds 0 ?rounds) new_alarms))) = 1"
    by (metis (no_types, lifting) One_nat_def length_map length_Cons list.size(3))
  then have "length (ac_written (fold alarm_step (alarm_rounds 0 ?rounds) new_alarms)) = 1"
    unfolding length_map .
  with now_holds show ?thesis unfolding Let_def by blast
qed

end
