(* ===== verification/Regional_Server.thy ===== *)
theory Regional_Server
  imports Fsm Device_Server Udp_Server Sync_Client
begin

text \<open>
  The regional server (\<^verbatim>\<open>regional_server.cpp\<close>): its state machine, the callbacks that connect the
  device server, the UDP server and the synchronisation client, and the timer that looks for
  silent devices. One event of the \<^verbatim>\<open>io_context\<close> is one step; its effects outside the region
  are calls of the database writer and alarms given to \<^verbatim>\<open>send_alarm_now\<close>.
\<close>

section \<open>The state machine\<close>

datatype server_state =
    IDLE
  | REGISTRATION_HANDLING
  | NORMAL_OPERATION
  | FAULT_HANDLING

fun server_name :: "server_state \<Rightarrow> string" where
  "server_name IDLE = ''IDLE''"
| "server_name REGISTRATION_HANDLING = ''REGISTRATION_HANDLING''"
| "server_name NORMAL_OPERATION = ''NORMAL_OPERATION''"
| "server_name FAULT_HANDLING = ''FAULT_HANDLING''"

definition server_transitions :: transition_matrix where
  "server_transitions =
     [(''IDLE'', ''REGISTRATION_HANDLING''),
      (''REGISTRATION_HANDLING'', ''REGISTRATION_HANDLING''),
      (''REGISTRATION_HANDLING'', ''NORMAL_OPERATION''),
      (''NORMAL_OPERATION'', ''NORMAL_OPERATION''),
      (''NORMAL_OPERATION'', ''FAULT_HANDLING''),
      (''FAULT_HANDLING'', ''NORMAL_OPERATION''),
      (''FAULT_HANDLING'', ''IDLE'')]"

definition server_switch_to :: "server_state \<Rightarrow> server_state \<Rightarrow> server_state \<times> bool" where
  "server_switch_to state next = switch_state server_name server_transitions state next"

section \<open>State\<close>

text \<open>
  \<open>rg_active_lost\<close> is the \<^verbatim>\<open>unordered_set\<close> that the timer closure keeps, as a list without
  repetitions.
\<close>

record region =
  rg_id :: u32
  rg_fsm :: server_state
  rg_dev :: device_server
  rg_last_motion :: last_motion
  rg_active_lost :: "string list"

datatype region_effect =
    Db db_call
  | Alarm alarm_up

type_synonym region_result = "region \<times> region_effect list"

definition rg_switch :: "server_state \<Rightarrow> region \<Rightarrow> region" where
  "rg_switch next r = r\<lparr>rg_fsm := fst (server_switch_to (rg_fsm r) next)\<rparr>"

definition rg_reg :: "region \<Rightarrow> registry" where
  "rg_reg r = dv_reg (rg_dev r)"

definition set_reg :: "registry \<Rightarrow> region \<Rightarrow> region" where
  "set_reg reg r = r\<lparr>rg_dev := (rg_dev r)\<lparr>dv_reg := reg\<rparr>\<rparr>"

text \<open>The set-up of \<^verbatim>\<open>main\<close> up to the start of the threads.\<close>

definition boot :: "u32 \<Rightarrow> region" where
  "boot rid =
     (let r = \<lparr>rg_id = rid, rg_fsm = IDLE, rg_dev = new_server rid, rg_last_motion = [],
            rg_active_lost = []\<rparr>;
          r = rg_switch REGISTRATION_HANDLING r
      in rg_switch NORMAL_OPERATION r)"

section \<open>Callbacks\<close>

definition device_code :: "device_type \<Rightarrow> u8" where
  "device_code t = (if t = LUMINAIRE then 1 else 2)"

definition on_device_fault :: "clock \<Rightarrow> fault_report \<Rightarrow> device_type \<Rightarrow> region \<Rightarrow> region_result" where
  "on_device_fault clk f dtype r =
     (rg_switch FAULT_HANDLING r,
      [Alarm \<lparr>al_region_id = rg_id r, al_ts_unix = time_unix clk, al_device_type = device_code dtype,
         al_zone_id = flt_zone_id f, al_code = flt_code f, al_uri = flt_uri f, al_text = flt_text f\<rparr>])"

definition CMD_SWITCH_ON :: u8 where "CMD_SWITCH_ON = 1"

definition CMD_SWITCH_OFF :: u8 where "CMD_SWITCH_OFF = 2"

definition CMD_SET_INTENSITY :: u8 where "CMD_SET_INTENSITY = 3"

text \<open>The loops over the lamps of a zone: for each lamp the commands of the callback, in order.\<close>

fun send_cmds :: "string \<Rightarrow> (u8 \<times> u8) list \<Rightarrow> device_server \<Rightarrow> device_server result" where
  "send_cmds uri [] dv = Inr dv"
| "send_cmds uri ((c, v) # cmds) dv =
     bind_result (send_cmd_to_uri uri c v dv) (\<lambda>(ok, dv). send_cmds uri cmds dv)"

fun command_lamps :: "(u8 \<times> u8) list \<Rightarrow> string list \<Rightarrow> device_server \<Rightarrow> device_server result" where
  "command_lamps cmds [] dv = Inr dv"
| "command_lamps cmds (lamp_uri # lamps) dv =
     bind_result (send_cmds lamp_uri cmds dv) (\<lambda>dv. command_lamps cmds lamps dv)"

definition command_zone :: "(u8 \<times> u8) list \<Rightarrow> u32 \<Rightarrow> region \<Rightarrow> region result" where
  "command_zone cmds zone_id r =
     (if rg_fsm r \<noteq> NORMAL_OPERATION then Inr r
      else let lamps = get_lamps_in_zone (rg_reg r) zone_id
        in if lamps = [] then Inr r
           else bind_result (command_lamps cmds lamps (rg_dev r)) (\<lambda>dv. Inr (r\<lparr>rg_dev := dv\<rparr>)))"

definition motion_on :: "u32 \<Rightarrow> region \<Rightarrow> region result" where
  "motion_on zone_id r = command_zone [(CMD_SWITCH_ON, 0), (CMD_SET_INTENSITY, 60)] zone_id r"

definition motion_off :: "u32 \<Rightarrow> region \<Rightarrow> region result" where
  "motion_off zone_id r = command_zone [(CMD_SWITCH_OFF, 0)] zone_id r"

definition sensor_fault :: "clock \<Rightarrow> u32 \<Rightarrow> string \<Rightarrow> u8 \<Rightarrow> region \<Rightarrow> region_result" where
  "sensor_fault clk zone_id sensor_uri code r =
     (let r = rg_switch FAULT_HANDLING r;
          st = \<lparr>ds_type = SENSOR, ds_zone_id = zone_id, ds_on = 0, ds_intensity = 0,
            ds_power_mw = 0, ds_fault = True, ds_last_seen_ms = now_ms clk\<rparr>;
          r = set_reg (upsert (rg_reg r) sensor_uri st) r
      in (r,
          [Db (upsert_device (now_ms_utc clk) sensor_uri 2 (rg_id r) zone_id True 0 0 0),
           Db (log_fault (now_ms_utc clk) sensor_uri (rg_id r) zone_id code ''sensor_fault''),
           Alarm \<lparr>al_region_id = rg_id r, al_ts_unix = time_unix clk, al_device_type = 2,
             al_zone_id = zone_id, al_code = code, al_uri = sensor_uri, al_text = ''sensor_fault''\<rparr>]))"

section \<open>The timer for silent devices\<close>

definition comm_lost_alarm :: "clock \<Rightarrow> string \<Rightarrow> region \<Rightarrow> alarm_up" where
  "comm_lost_alarm clk uri r =
     (let (zone_id, devType) = (case reg_get (rg_reg r) uri of
          Some st \<Rightarrow> (ds_zone_id st, device_code (ds_type st))
        | None \<Rightarrow> (0, 1))
      in \<lparr>al_region_id = rg_id r, al_ts_unix = time_unix clk, al_device_type = devType,
          al_zone_id = zone_id, al_code = 9, al_uri = uri, al_text = ''comm_lost''\<rparr>)"

fun report_lost :: "clock \<Rightarrow> string list \<Rightarrow> region \<Rightarrow> region_result" where
  "report_lost clk [] r = (r, [])"
| "report_lost clk (uri # lost) r =
     (if List.member (rg_active_lost r) uri then report_lost clk lost r
      else
        let r = r\<lparr>rg_active_lost := rg_active_lost r @ [uri]\<rparr>;
            r = rg_switch FAULT_HANDLING r;
            (r', effs) = report_lost clk lost r
        in (r', Alarm (comm_lost_alarm clk uri r) # effs))"

definition comm_lost_tick :: "clock \<Rightarrow> u64 \<Rightarrow> region \<Rightarrow> region_result" where
  "comm_lost_tick clk timeout_ms r =
     (let (reg, lost) = detect_comm_lost (rg_reg r) (now_ms clk) timeout_ms;
          (r, effs) = report_lost clk lost (set_reg reg r);
          r = r\<lparr>rg_active_lost := filter (\<lambda>u. List.member lost u) (rg_active_lost r)\<rparr>;
          r = (if rg_active_lost r = [] \<and> rg_fsm r = FAULT_HANDLING
               then rg_switch NORMAL_OPERATION r else r)
      in (r, effs))"

section \<open>Events\<close>

fun run_dev_effects :: "clock \<Rightarrow> dev_effect list \<Rightarrow> region \<Rightarrow> region_result" where
  "run_dev_effects clk [] r = (r, [])"
| "run_dev_effects clk (Db_call c # effs) r =
     (let (r', out) = run_dev_effects clk effs r in (r', Db c # out))"
| "run_dev_effects clk (Fault_cb f dtype # effs) r =
     (let (r1, out1) = on_device_fault clk f dtype r;
          (r2, out2) = run_dev_effects clk effs r1
      in (r2, out1 @ out2))"

definition device_message :: "clock \<Rightarrow> nat \<Rightarrow> bytes \<Rightarrow> region \<Rightarrow> region_result" where
  "device_message clk sid body r =
     (let (dv, effs) = on_body clk sid body (rg_dev r)
      in run_dev_effects clk effs (r\<lparr>rg_dev := dv\<rparr>))"

fun run_udp_event :: "clock \<Rightarrow> udp_event \<Rightarrow> region \<Rightarrow> region_result result" where
  "run_udp_event clk (Motion_on z u) r = bind_result (motion_on z r) (\<lambda>r. Inr (r, []))"
| "run_udp_event clk (Motion_off z u) r = bind_result (motion_off z r) (\<lambda>r. Inr (r, []))"
| "run_udp_event clk (Sensor_fault z u c) r = Inr (sensor_fault clk z u c r)"

fun run_udp_events :: "clock \<Rightarrow> udp_event list \<Rightarrow> region \<Rightarrow> region_result result" where
  "run_udp_events clk [] r = Inr (r, [])"
| "run_udp_events clk (e # es) r =
     bind_result (run_udp_event clk e r) (\<lambda>(r1, out1).
     bind_result (run_udp_events clk es r1) (\<lambda>(r2, out2). Inr (r2, out1 @ out2)))"

definition datagram :: "clock \<Rightarrow> bool \<Rightarrow> bytes \<Rightarrow> region \<Rightarrow> region_result option" where
  "datagram clk ec data r =
     (case udp_receive (now_ms clk) ec data (rg_reg r, rg_last_motion r) of
        None \<Rightarrow> None
      | Some ((reg, lm), evs) \<Rightarrow>
          (case run_udp_events clk evs ((set_reg reg r)\<lparr>rg_last_motion := lm\<rparr>) of
             Inl e \<Rightarrow> None
           | Inr res \<Rightarrow> Some res))"

text \<open>
  \<open>None\<close> is an exception that leaves the handler, which ends the process, or an undefined read.
  The connections' own events are those of the device server; commands come from the motion
  callbacks only.
\<close>

datatype region_event =
    Connection dev_action
  | Datagram clock bool bytes
  | Tick clock

fun region_step :: "u64 \<Rightarrow> region_event \<Rightarrow> region \<Rightarrow> region_result option" where
  "region_step timeout_ms (Connection a) r =
     (case a of
        Body clk sid body \<Rightarrow> Some (device_message clk sid body r)
      | Send_cmd uri c v \<Rightarrow> Some (r, [])
      | _ \<Rightarrow> Some (r\<lparr>rg_dev := dev_step a (rg_dev r)\<rparr>, []))"
| "region_step timeout_ms (Datagram clk ec data) r = datagram clk ec data r"
| "region_step timeout_ms (Tick clk) r = Some (comm_lost_tick clk timeout_ms r)"

fun region_run :: "u64 \<Rightarrow> region_event list \<Rightarrow> region \<Rightarrow> region_result option" where
  "region_run timeout_ms [] r = Some (r, [])"
| "region_run timeout_ms (e # es) r =
     (case region_step timeout_ms e r of
        None \<Rightarrow> None
      | Some (r1, out1) \<Rightarrow>
          (case region_run timeout_ms es r1 of
             None \<Rightarrow> None
           | Some (r2, out2) \<Rightarrow> Some (r2, out1 @ out2)))"

section \<open>The state machine keeps its contract\<close>

inductive server_edge :: "server_state \<Rightarrow> server_state \<Rightarrow> bool" where
  "server_edge IDLE REGISTRATION_HANDLING"
| "server_edge REGISTRATION_HANDLING REGISTRATION_HANDLING"
| "server_edge REGISTRATION_HANDLING NORMAL_OPERATION"
| "server_edge NORMAL_OPERATION NORMAL_OPERATION"
| "server_edge NORMAL_OPERATION FAULT_HANDLING"
| "server_edge FAULT_HANDLING NORMAL_OPERATION"
| "server_edge FAULT_HANDLING IDLE"

inductive_simps server_edge_simps [simp]:
  "server_edge IDLE t" "server_edge REGISTRATION_HANDLING t" "server_edge NORMAL_OPERATION t"
  "server_edge FAULT_HANDLING t"

interpretation server_fsm: fsm server_name server_transitions server_edge server_switch_to
proof
  show "s = t" if "server_name s = server_name t" for s t
    using that by (cases s; cases t) simp_all
  show "server_edge s t \<longleftrightarrow> (server_name s, server_name t) \<in> set server_transitions" for s t
    by (cases s; cases t) (simp_all add: server_transitions_def)
qed (simp add: server_switch_to_def)

lemma rg_switch_simps [simp]:
  "rg_id (rg_switch n r) = rg_id r" "rg_dev (rg_switch n r) = rg_dev r"
  "rg_last_motion (rg_switch n r) = rg_last_motion r"
  "rg_active_lost (rg_switch n r) = rg_active_lost r"
  "rg_reg (rg_switch n r) = rg_reg r"
  by (simp_all add: rg_switch_def rg_reg_def)

lemma rg_fsm_switch: "rg_fsm (rg_switch n r) = (if server_edge (rg_fsm r) n then n else rg_fsm r)"
  by (simp add: rg_switch_def server_fsm.switch_cases)

lemma set_reg_simps [simp]:
  "rg_reg (set_reg reg r) = reg" "rg_id (set_reg reg r) = rg_id r" "rg_fsm (set_reg reg r) = rg_fsm r"
  "rg_last_motion (set_reg reg r) = rg_last_motion r"
  "rg_active_lost (set_reg reg r) = rg_active_lost r"
  "rg_dev (set_reg reg r) = (rg_dev r)\<lparr>dv_reg := reg\<rparr>"
  by (simp_all add: set_reg_def rg_reg_def)

section \<open>Commands to the lamps of a zone\<close>

text \<open>
  \<open>commanded f dv dv'\<close>: from \<open>dv\<close> to \<open>dv'\<close> every live session \<open>s\<close> with URI \<open>u\<close> has posted exactly
  the messages \<open>f s u\<close>, and nothing else that matters to commands has changed.
\<close>

definition add_posts :: "out_msg list \<Rightarrow> device_session \<Rightarrow> device_session" where
  "add_posts ms se = se\<lparr>se_posted := se_posted se @ ms\<rparr>"

definition commanded ::
  "(nat \<Rightarrow> string \<Rightarrow> out_msg list) \<Rightarrow> device_server \<Rightarrow> device_server \<Rightarrow> bool" where
  "commanded f dv dv' \<longleftrightarrow>
     dv_ok dv' \<and> dv_reg dv' = dv_reg dv \<and> dv_region_id dv' = dv_region_id dv
     \<and> (\<forall>u s. held_by u s dv' \<longleftrightarrow> held_by u s dv)
     \<and> (\<forall>s. lock dv' s = map_option (\<lambda>se. add_posts (f s (se_uri se)) se) (lock dv s))"

lemma add_posts_simps [simp]:
  "se_uri (add_posts ms se) = se_uri se" "add_posts [] se = se"
  "add_posts ms (add_posts ns se) = add_posts (ns @ ms) se"
  "queue_send t p se = add_posts [(t, p)] se"
  by (simp_all add: add_posts_def queue_send_def)

lemma commanded_refl: "dv_ok dv \<Longrightarrow> commanded (\<lambda>s u. []) dv dv"
  by (simp add: commanded_def option.map_ident)

lemma commanded_trans:
  "commanded f dv dv1 \<Longrightarrow> commanded g dv1 dv2 \<Longrightarrow> commanded (\<lambda>s u. f s u @ g s u) dv dv2"
  by (simp add: commanded_def option.map_comp comp_def)

lemma commanded_held: "commanded f dv dv' \<Longrightarrow> held_by u s dv' = held_by u s dv"
  by (simp add: commanded_def)

definition cmd_msgs :: "(u8 \<times> u8) list \<Rightarrow> string \<Rightarrow> out_msg list" where
  "cmd_msgs cmds u = map (\<lambda>(c, v). (CMD, command_to u c v)) cmds"

lemma send_commanded:
  assumes "dv_ok dv"
  shows "\<exists>ok dv'. send_cmd_to_uri uri c v dv = Inr (ok, dv')
    \<and> commanded (\<lambda>s u. if held_by uri s dv then [(CMD, command_to u c v)] else []) dv dv'"
proof (cases "map_of (dv_sessions dv) uri")
  case None
  then show ?thesis
    using assms by (intro exI [of _ False]) (simp add: send_cmd_to_uri_ok held_by_def commanded_refl)
next
  case (Some sid)
  show ?thesis
  proof (cases "lock dv sid")
    case None
    have "held_by w s (dv\<lparr>dv_sessions := AList.delete uri (dv_sessions dv)\<rparr>) = held_by w s dv" for w s
      using Some None by (auto simp: held_by_def delete_conv')
    moreover have "\<not> held_by uri s dv" for s using Some None by (auto simp: held_by_def)
    ultimately show ?thesis
      using assms Some None
      by (intro exI [of _ False])
        (simp add: send_cmd_to_uri_ok commanded_def dv_ok_sessions_delete option.map_ident)
  next
    case (Some se)
    note live = \<open>map_of (dv_sessions dv) uri = Some sid\<close> Some
    let ?dv = "set_session sid (queue_send CMD (command_to (se_uri se) c v) se) dv"
    have send: "send_cmd_to_uri uri c v dv = Inr (True, ?dv)"
      using live by (simp add: send_cmd_to_uri_ok [OF assms])
    have "held_by w s ?dv = held_by w s dv" for w s using live by (simp add: held_by_def)
    moreover have "lock ?dv s = map_option (\<lambda>se. add_posts
        (if held_by uri s dv then [(CMD, command_to (se_uri se) c v)] else []) se) (lock dv s)" for s
      using live by (simp add: held_by_def option.map_ident)
    ultimately have "commanded (\<lambda>s u. if held_by uri s dv then [(CMD, command_to u c v)] else []) dv ?dv"
      using dv_ok_send [OF assms send] by (simp add: commanded_def)
    with send show ?thesis by blast
  qed
qed

lemma send_cmds_commanded:
  assumes "dv_ok dv"
  shows "\<exists>dv'. send_cmds uri cmds dv = Inr dv'
    \<and> commanded (\<lambda>s u. if held_by uri s dv then cmd_msgs cmds u else []) dv dv'"
  using assms
proof (induction cmds arbitrary: dv)
  case Nil
  then show ?case using commanded_refl [OF Nil] by (simp add: cmd_msgs_def cong: if_cong)
next
  case (Cons cv cmds)
  obtain c v where cv: "cv = (c, v)" by (cases cv)
  from send_commanded [OF Cons.prems, of uri c v] obtain ok dv1 where
    one: "send_cmd_to_uri uri c v dv = Inr (ok, dv1)"
    "commanded (\<lambda>s u. if held_by uri s dv then [(CMD, command_to u c v)] else []) dv dv1" by blast
  then have "dv_ok dv1" by (simp add: commanded_def)
  from Cons.IH [OF this] obtain dv2 where two: "send_cmds uri cmds dv1 = Inr dv2"
    "commanded (\<lambda>s u. if held_by uri s dv then cmd_msgs cmds u else []) dv1 dv2"
    by (auto simp: commanded_held [OF one(2)])
  have "(\<lambda>s u. (if held_by uri s dv then [(CMD, command_to u c v)] else [])
        @ (if held_by uri s dv then cmd_msgs cmds u else []))
      = (\<lambda>s u. if held_by uri s dv then cmd_msgs (cv # cmds) u else [])"
    by (simp add: fun_eq_iff cmd_msgs_def cv)
  with commanded_trans [OF one(2) two(2)] show ?case by (simp add: cv one(1) two(1))
qed

text \<open>What the lamps of a list are told through one session.\<close>

definition lamp_msgs ::
  "(u8 \<times> u8) list \<Rightarrow> string list \<Rightarrow> device_server \<Rightarrow> nat \<Rightarrow> string \<Rightarrow> out_msg list" where
  "lamp_msgs cmds lamps dv s u =
     concat (map (\<lambda>l. if held_by l s dv then cmd_msgs cmds u else []) lamps)"

lemma command_lamps_commanded:
  assumes "dv_ok dv"
  shows "\<exists>dv'. command_lamps cmds lamps dv = Inr dv' \<and> commanded (lamp_msgs cmds lamps dv) dv dv'"
  using assms
proof (induction lamps arbitrary: dv)
  case Nil
  then show ?case using commanded_refl [OF Nil] by (simp add: lamp_msgs_def [abs_def])
next
  case (Cons l lamps)
  from send_cmds_commanded [OF Cons.prems, of l cmds] obtain dv1 where
    one: "send_cmds l cmds dv = Inr dv1"
    "commanded (\<lambda>s u. if held_by l s dv then cmd_msgs cmds u else []) dv dv1" by blast
  then have "dv_ok dv1" by (simp add: commanded_def)
  from Cons.IH [OF this] obtain dv2 where two: "command_lamps cmds lamps dv1 = Inr dv2"
    "commanded (lamp_msgs cmds lamps dv) dv1 dv2"
    by (auto simp: lamp_msgs_def [abs_def] commanded_held [OF one(2)])
  have "(\<lambda>s u. (if held_by l s dv then cmd_msgs cmds u else []) @ lamp_msgs cmds lamps dv s u)
      = lamp_msgs cmds (l # lamps) dv"
    by (simp add: fun_eq_iff lamp_msgs_def)
  with commanded_trans [OF one(2) two(2)] show ?case by (simp add: one(1) two(1))
qed

section \<open>The invariant of a region\<close>

definition uris_short :: "registry \<Rightarrow> bool" where
  "uris_short reg \<longleftrightarrow> (\<forall>u st. reg_get reg u = Some st \<longrightarrow> short_str u)"

definition region_ok :: "region \<Rightarrow> bool" where
  "region_ok r \<longleftrightarrow>
     dv_ok (rg_dev r) \<and> rg_fsm r \<in> {NORMAL_OPERATION, FAULT_HANDLING}
     \<and> distinct (rg_active_lost r) \<and> uris_short (rg_reg r)"

definition alarm_ok :: "region_effect \<Rightarrow> bool" where
  "alarm_ok e = (case e of Db c \<Rightarrow> True
     | Alarm a \<Rightarrow> short_str (al_uri a) \<and> short_str (al_text a))"

text \<open>A result that keeps the invariant and whose alarms can be encoded.\<close>

definition result_ok :: "region_result \<Rightarrow> bool" where
  "result_ok res \<longleftrightarrow> region_ok (fst res) \<and> list_all alarm_ok (snd res)"

lemma uris_short_upsert: "uris_short reg \<Longrightarrow> short_str u \<Longrightarrow> uris_short (upsert reg u st)"
  by (simp add: uris_short_def)

lemma registry_ok_rg: "region_ok r \<Longrightarrow> registry_ok (rg_reg r)"
  by (simp add: region_ok_def dv_ok_def rg_reg_def)

lemma dv_ok_set_reg: "dv_ok dv \<Longrightarrow> registry_ok reg \<Longrightarrow> dv_ok (dv\<lparr>dv_reg := reg\<rparr>)"
  by (simp add: dv_ok_def)

lemma region_ok_set_reg:
  "region_ok r \<Longrightarrow> registry_ok reg \<Longrightarrow> uris_short reg \<Longrightarrow> region_ok (set_reg reg r)"
  by (simp add: region_ok_def dv_ok_set_reg)

lemma region_ok_switch:
  "region_ok r \<Longrightarrow> n \<in> {NORMAL_OPERATION, FAULT_HANDLING} \<Longrightarrow> region_ok (rg_switch n r)"
  by (auto simp: region_ok_def rg_fsm_switch)

lemma region_ok_boot: "region_ok (boot rid)"
proof -
  have "uris_short (dv_reg (new_server rid))"
    by (simp add: uris_short_def new_server_def empty_registry_def reg_get_def)
  then show ?thesis
    by (simp add: boot_def Let_def region_ok_def rg_fsm_switch dv_ok_new rg_reg_def)
qed

lemma region_ok_command_zone:
  assumes "region_ok r"
  shows "\<exists>r'. command_zone cmds z r = Inr r' \<and> region_ok r'"
proof -
  from assms have "dv_ok (rg_dev r)" by (simp add: region_ok_def)
  from command_lamps_commanded [OF this, of cmds "get_lamps_in_zone (rg_reg r) z"] obtain dv'
    where d: "command_lamps cmds (get_lamps_in_zone (rg_reg r) z) (rg_dev r) = Inr dv'"
      "commanded (lamp_msgs cmds (get_lamps_in_zone (rg_reg r) z) (rg_dev r)) (rg_dev r) dv'" by blast
  with assms show ?thesis
    by (auto simp: command_zone_def Let_def region_ok_def commanded_def rg_reg_def)
qed

lemma short_sensor_fault [simp]: "short_str ''sensor_fault''" "short_str ''comm_lost''"
  by (simp_all add: short_str_def)

lemma region_ok_upsert:
  "region_ok r \<Longrightarrow> short_str u \<Longrightarrow> region_ok (set_reg (upsert (rg_reg r) u st) r)"
  by (rule region_ok_set_reg)
    (simp, simp add: registry_ok_upsert registry_ok_rg, simp add: region_ok_def uris_short_upsert)

lemma sensor_fault_ok: "region_ok r \<Longrightarrow> short_str u \<Longrightarrow> result_ok (sensor_fault clk z u c r)"
  using region_ok_upsert [OF region_ok_switch]
  by (simp add: sensor_fault_def Let_def result_ok_def alarm_ok_def)

text \<open>Device messages.\<close>

definition effect_short :: "dev_effect \<Rightarrow> bool" where
  "effect_short e = (case e of Db_call c \<Rightarrow> True
     | Fault_cb f t \<Rightarrow> short_str (flt_uri f) \<and> short_str (flt_text f))"

lemma outcome_short:
  assumes "outcome_ok body dv oc" "outcome_result clk sid se dv oc = (se', dv', effs)"
    and "uris_short (dv_reg dv)"
  shows "uris_short (dv_reg dv') \<and> list_all effect_short effs"
  using assms
  by (cases oc) (auto simp: handler_defs uris_short_def effect_short_def split: if_splits)

lemma on_body_short:
  assumes "uris_short (dv_reg dv)" "on_body clk sid body dv = (dv', effs)"
  shows "uris_short (dv_reg dv') \<and> list_all effect_short effs"
proof (cases "lock dv sid")
  case (Some se)
  obtain se' dv1 effs1 where d: "dispatch clk sid body se dv = (se', dv1, effs1)"
    by (cases "dispatch clk sid body se dv")
  obtain oc where "outcome_ok body dv oc" "outcome_result clk sid se dv oc = (se', dv1, effs1)"
    using dispatch_outcome [of clk sid body se dv] d by metis
  from outcome_short [OF this assms(1)] assms(2) show ?thesis by (auto simp: on_body_eq [OF Some d])
qed (use assms in \<open>simp add: on_body_def\<close>)

lemma on_device_fault_ok:
  "region_ok r \<Longrightarrow> effect_short (Fault_cb f t) \<Longrightarrow> result_ok (on_device_fault clk f t r)"
  by (simp add: on_device_fault_def result_ok_def region_ok_switch alarm_ok_def effect_short_def)

lemma run_dev_effects_ok:
  "region_ok r \<Longrightarrow> list_all effect_short effs \<Longrightarrow> result_ok (run_dev_effects clk effs r)"
proof (induction clk effs r rule: run_dev_effects.induct)
  case (3 clk f dtype effs r)
  have "result_ok (on_device_fault clk f dtype r)" using 3 by (intro on_device_fault_ok) simp_all
  with 3 show ?case by (auto simp: result_ok_def split: prod.splits)
qed (auto simp: result_ok_def alarm_ok_def split: prod.splits)

lemma device_message_ok:
  assumes "region_ok r"
  shows "result_ok (device_message clk sid body r)"
proof -
  obtain dv effs where b: "on_body clk sid body (rg_dev r) = (dv, effs)"
    by (cases "on_body clk sid body (rg_dev r)")
  have s: "uris_short (dv_reg dv) \<and> list_all effect_short effs"
    using on_body_short [OF _ b] assms by (simp add: region_ok_def rg_reg_def)
  have "dv_ok dv" using dv_ok_on_body [of "rg_dev r" clk sid body] assms by (simp add: region_ok_def b)
  with assms s have "region_ok (r\<lparr>rg_dev := dv\<rparr>)" by (simp add: region_ok_def rg_reg_def)
  with s show ?thesis by (simp add: device_message_def b run_dev_effects_ok)
qed

text \<open>Datagrams.\<close>

definition events_short :: "udp_event list \<Rightarrow> bool" where
  "events_short evs \<longleftrightarrow> (\<forall>e \<in> set evs. short_str (uri_of_event e))"

lemma decoded_uri_short: "decode_telemetry data = Some t \<Longrightarrow> short_str (rd_uri t)"
proof -
  assume d: "decode_telemetry data = Some t"
  have "length (takeWhile (\<lambda>b. b \<noteq> 0) (take uri_size data)) \<le> uri_size"
    using length_takeWhile_le [of "\<lambda>b. b \<noteq> 0" "take uri_size data"] by simp
  with d show ?thesis
    by (auto simp: decode_telemetry_def Let_def uri_of_def from_memory_def short_str_def
        uri_size_def split: option.splits if_splits)
qed

lemma on_reading_short:
  assumes "short_str (rd_uri t)" "uris_short reg" "on_reading now t (reg, lm) = ((reg', lm'), evs)"
  shows "uris_short reg' \<and> events_short evs"
proof -
  have "uris_short reg'"
    using reg_get_on_reading [of now t "(reg, lm)"] assms by (auto simp: uris_short_def split: if_splits)
  moreover have "events_short evs"
    using assms
    by (auto simp: on_reading_def mark_sensor_fault_def motion_edge_def Let_def events_short_def
        split: if_splits prod.splits)
  ultimately show ?thesis ..
qed

lemma run_udp_event_ok:
  assumes "region_ok r" "short_str (uri_of_event e)"
  shows "\<exists>res. run_udp_event clk e r = Inr res \<and> result_ok res"
proof (cases e)
  case (Motion_on z u)
  from region_ok_command_zone [OF assms(1)] show ?thesis
    by (fastforce simp: Motion_on motion_on_def result_ok_def)
next
  case (Motion_off z u)
  from region_ok_command_zone [OF assms(1)] show ?thesis
    by (fastforce simp: Motion_off motion_off_def result_ok_def)
qed (use assms sensor_fault_ok in simp)

lemma run_udp_events_ok:
  assumes "region_ok r" "events_short evs"
  shows "\<exists>res. run_udp_events clk evs r = Inr res \<and> result_ok res"
  using assms
proof (induction evs arbitrary: r)
  case (Cons e evs)
  from run_udp_event_ok [OF Cons.prems(1), of e clk] Cons.prems(2) obtain r1 out1
    where one: "run_udp_event clk e r = Inr (r1, out1)" "result_ok (r1, out1)"
    by (auto simp: events_short_def)
  from Cons.IH [of r1] Cons.prems(2) one(2) obtain r2 out2
    where "run_udp_events clk evs r1 = Inr (r2, out2)" "result_ok (r2, out2)"
    by (auto simp: events_short_def result_ok_def)
  with one show ?case by (simp add: result_ok_def)
qed (simp add: result_ok_def)

text \<open>The datagrams whose processing is defined: those that a sensor sends are among them.\<close>

fun event_defined :: "region_event \<Rightarrow> bool" where
  "event_defined (Datagram clk ec data) \<longleftrightarrow>
     ec \<or> length data < sizeof_telemetry \<or> decode_telemetry data \<noteq> None"
| "event_defined _ \<longleftrightarrow> True"

lemma datagram_skipped:
  "ec \<or> length data < sizeof_telemetry \<Longrightarrow> datagram clk ec data r = Some (r, [])"
  by (auto simp: datagram_def udp_receive_def set_reg_def rg_reg_def)

text \<open>The other datagrams: a reading, and then its callbacks on the updated region.\<close>

lemma datagram_split:
  assumes "region_ok r" "\<not> ec" "length data \<ge> sizeof_telemetry" "decode_telemetry data = Some t"
  obtains reg lm evs where
    "on_reading (now_ms clk) t (rg_reg r, rg_last_motion r) = ((reg, lm), evs)"
    "region_ok ((set_reg reg r)\<lparr>rg_last_motion := lm\<rparr>)" "events_short evs"
    "datagram clk ec data r = (case run_udp_events clk evs ((set_reg reg r)\<lparr>rg_last_motion := lm\<rparr>) of
       Inl e \<Rightarrow> None | Inr res \<Rightarrow> Some res)"
proof -
  obtain reg lm evs where o: "on_reading (now_ms clk) t (rg_reg r, rg_last_motion r) = ((reg, lm), evs)"
    by (cases "on_reading (now_ms clk) t (rg_reg r, rg_last_motion r)") (metis prod.exhaust)
  have s: "uris_short reg \<and> events_short evs"
    using on_reading_short [OF decoded_uri_short [OF assms(4)] _ o] assms(1) by (simp add: region_ok_def)
  have "registry_ok reg"
    using registry_ok_on_reading [OF registry_ok_rg [OF assms(1)], of "now_ms clk" t "rg_last_motion r"]
    by (simp add: o)
  then have ok: "region_ok ((set_reg reg r)\<lparr>rg_last_motion := lm\<rparr>)"
    using region_ok_set_reg [OF assms(1)] s by (simp add: region_ok_def rg_reg_def)
  show thesis
    by (rule that [OF o ok]) (use assms s in \<open>simp_all add: datagram_def udp_receive_def o\<close>)
qed

lemma datagram_ok:
  assumes "region_ok r" "event_defined (Datagram clk ec data)"
  shows "\<exists>res. datagram clk ec data r = Some res \<and> result_ok res"
proof (cases "\<not> ec \<and> length data \<ge> sizeof_telemetry")
  case False
  with assms(1) show ?thesis by (auto simp: datagram_skipped result_ok_def)
next
  case True
  with assms(2) obtain t where t: "decode_telemetry data = Some t" by auto
  obtain reg lm evs where d: "region_ok ((set_reg reg r)\<lparr>rg_last_motion := lm\<rparr>)" "events_short evs"
    "datagram clk ec data r = (case run_udp_events clk evs ((set_reg reg r)\<lparr>rg_last_motion := lm\<rparr>) of
       Inl e \<Rightarrow> None | Inr res \<Rightarrow> Some res)"
    using datagram_split [OF assms(1) _ _ t, of ec clk] True by metis
  from run_udp_events_ok [OF d(1,2), of clk] show ?thesis by (auto simp: d(3))
qed

text \<open>The timer.\<close>

definition not_active :: "region \<Rightarrow> string list \<Rightarrow> string list" where
  "not_active r lost = filter (\<lambda>u. u \<notin> set (rg_active_lost r)) lost"

lemma rg_switch_idem [simp]: "rg_switch FAULT_HANDLING (rg_switch FAULT_HANDLING r) = rg_switch FAULT_HANDLING r"
  by (cases "rg_fsm r") (simp_all add: rg_switch_def server_fsm.switch_cases)

lemma comm_lost_alarm_cong [simp]:
  "comm_lost_alarm clk u (rg_switch n r) = comm_lost_alarm clk u r"
  "comm_lost_alarm clk u (r\<lparr>rg_active_lost := a\<rparr>) = comm_lost_alarm clk u r"
  by (simp_all add: comm_lost_alarm_def rg_reg_def)

lemma rg_switch_active [simp]:
  "rg_switch n (r\<lparr>rg_active_lost := a\<rparr>) = (rg_switch n r)\<lparr>rg_active_lost := a\<rparr>"
  by (simp add: rg_switch_def)

lemma report_lost_eq:
  "distinct lost \<Longrightarrow> report_lost clk lost r =
     ((if not_active r lost = [] then r else rg_switch FAULT_HANDLING r)
        \<lparr>rg_active_lost := rg_active_lost r @ not_active r lost\<rparr>,
      map (\<lambda>u. Alarm (comm_lost_alarm clk u r)) (not_active r lost))"
proof (induction lost arbitrary: r)
  case (Cons u lost)
  show ?case
  proof (cases "u \<in> set (rg_active_lost r)")
    case True
    with Cons show ?thesis by (simp add: not_active_def)
  next
    case False
    let ?r = "rg_switch FAULT_HANDLING (r\<lparr>rg_active_lost := rg_active_lost r @ [u]\<rparr>)"
    have "not_active ?r lost = not_active r lost"
      using Cons.prems by (auto simp: not_active_def intro!: filter_cong)
    moreover have "not_active r (u # lost) = u # not_active r lost"
      using False by (simp add: not_active_def)
    ultimately show ?thesis
      using Cons.IH [of ?r] Cons.prems False by (simp add: Let_def)
  qed
qed (simp add: not_active_def)

lemma set_active_tick:
  "set (filter (\<lambda>u. u \<in> set lost) (rg_active_lost r @ not_active r lost)) = set lost"
  by (auto simp: not_active_def)

lemma not_active_set_reg [simp]: "not_active (set_reg reg r) lost = not_active r lost"
  by (simp add: not_active_def)

lemma comm_lost_tick_eq:
  assumes "region_ok r" "detect_comm_lost (rg_reg r) (now_ms clk) t = (reg, lost)"
  shows "\<exists>r'. comm_lost_tick clk t r
      = (r', map (\<lambda>u. Alarm (comm_lost_alarm clk u (set_reg reg r))) (not_active r lost))
    \<and> rg_reg r' = reg \<and> set (rg_active_lost r') = set lost \<and> distinct (rg_active_lost r')
    \<and> rg_id r' = rg_id r \<and> rg_last_motion r' = rg_last_motion r
    \<and> rg_dev r' = (rg_dev r)\<lparr>dv_reg := reg\<rparr>
    \<and> rg_fsm r' = (if lost = [] then NORMAL_OPERATION
        else if not_active r lost \<noteq> [] then FAULT_HANDLING else rg_fsm r)"
proof -
  have "distinct (keys (dev (rg_reg r)))"
    using registry_ok_rg [OF assms(1)] by (simp add: registry_ok_def)
  then have d: "distinct lost" using distinct_lost [of "rg_reg r" "now_ms clk" t] assms(2) by simp
  let ?new = "not_active r lost" and ?r = "set_reg reg r"
  define r1 where "r1 = (if ?new = [] then ?r else rg_switch FAULT_HANDLING ?r)
      \<lparr>rg_active_lost := filter (\<lambda>u. u \<in> set lost) (rg_active_lost r @ ?new)\<rparr>"
  define r2 where "r2 = (if rg_active_lost r1 = [] \<and> rg_fsm r1 = FAULT_HANDLING
    then rg_switch NORMAL_OPERATION r1 else r1)"
  have tick: "comm_lost_tick clk t r = (r2, map (\<lambda>u. Alarm (comm_lost_alarm clk u ?r)) ?new)"
    by (simp add: comm_lost_tick_def assms(2) report_lost_eq [OF d] Let_def r1_def r2_def)
  have r1: "rg_reg r1 = reg" "rg_id r1 = rg_id r" "rg_last_motion r1 = rg_last_motion r"
    "rg_dev r1 = (rg_dev r)\<lparr>dv_reg := reg\<rparr>" by (simp_all add: r1_def rg_reg_def)
  have act: "set (rg_active_lost r1) = set lost" using set_active_tick [of lost r] by (simp add: r1_def)
  have fsm: "rg_fsm r \<in> {NORMAL_OPERATION, FAULT_HANDLING}" using assms(1) by (simp add: region_ok_def)
  then have fsm1: "rg_fsm r1 = (if ?new \<noteq> [] then FAULT_HANDLING else rg_fsm r)"
    by (auto simp: r1_def rg_fsm_switch)
  have dist: "distinct (rg_active_lost r1)"
    using assms(1) d by (auto simp: r1_def region_ok_def not_active_def)
  have nil: "rg_active_lost r1 = [] \<longleftrightarrow> lost = []" using act by (metis set_empty)
  have "rg_fsm r2 = (if lost = [] then NORMAL_OPERATION
        else if ?new \<noteq> [] then FAULT_HANDLING else rg_fsm r)"
    unfolding r2_def nil using fsm by (auto simp: rg_fsm_switch fsm1 not_active_def)
  moreover have "rg_active_lost r2 = rg_active_lost r1" "rg_reg r2 = rg_reg r1" "rg_id r2 = rg_id r1"
    "rg_last_motion r2 = rg_last_motion r1" "rg_dev r2 = rg_dev r1" by (simp_all add: r2_def)
  ultimately show ?thesis using tick act dist r1 by auto
qed

lemma tick_ok:
  assumes "region_ok r"
  shows "result_ok (comm_lost_tick clk t r)"
proof -
  obtain reg lost where d: "detect_comm_lost (rg_reg r) (now_ms clk) t = (reg, lost)"
    by (cases "detect_comm_lost (rg_reg r) (now_ms clk) t")
  from comm_lost_tick_eq [OF assms d] obtain r' where r':
    "comm_lost_tick clk t r = (r', map (\<lambda>u. Alarm (comm_lost_alarm clk u (set_reg reg r))) (not_active r lost))"
    "rg_reg r' = reg" "distinct (rg_active_lost r')" "rg_dev r' = (rg_dev r)\<lparr>dv_reg := reg\<rparr>"
    "rg_fsm r' = (if lost = [] then NORMAL_OPERATION
        else if not_active r lost \<noteq> [] then FAULT_HANDLING else rg_fsm r)" by blast
  have reg: "reg = fst (detect_comm_lost (rg_reg r) (now_ms clk) t)" by (simp add: d)
  have ok: "registry_ok reg" unfolding reg by (rule registry_ok_detect [OF registry_ok_rg [OF assms]])
  have short: "uris_short reg"
    using assms by (auto simp: uris_short_def region_ok_def reg reg_get_detect)
  have "short_str u" if "u \<in> set lost" for u
    using that assms registry_ok_rg [OF assms] lost_iff [of "rg_reg r" u "now_ms clk" t]
    by (auto simp: d registry_ok_def region_ok_def uris_short_def)
  then have "list_all alarm_ok (snd (comm_lost_tick clk t r))"
    by (auto simp: r'(1) list_all_iff alarm_ok_def comm_lost_alarm_def not_active_def split: prod.split)
  moreover have "region_ok r'"
    using assms ok short by (simp add: region_ok_def r' dv_ok_set_reg)
  ultimately show ?thesis by (simp add: result_ok_def r'(1))
qed

lemma region_step_ok:
  assumes "region_ok r" "event_defined e"
  shows "\<exists>res. region_step t e r = Some res \<and> result_ok res"
proof (cases e)
  case (Connection a)
  have step: "result_ok (r\<lparr>rg_dev := dev_step a (rg_dev r)\<rparr>, [])"
    if "dv_reg (dev_step a (rg_dev r)) = rg_reg r"
    using assms(1) that dv_ok_step [of "rg_dev r" a]
    by (simp add: result_ok_def region_ok_def rg_reg_def)
  show ?thesis
  proof (cases a)
    case (Body clk sid body)
    with device_message_ok [OF assms(1)] Connection show ?thesis by simp
  next
    case (Send_cmd u c v)
    with assms(1) Connection show ?thesis by (simp add: result_ok_def)
  qed (use step Connection in \<open>auto simp: do_accept_def map_session_def rg_reg_def split: option.splits\<close>)
next
  case (Datagram clk ec data)
  with datagram_ok [OF assms(1)] assms(2) show ?thesis by simp
next
  case (Tick clk)
  with tick_ok [OF assms(1)] show ?thesis by simp
qed

lemma region_run_ok:
  assumes "region_ok r" "\<forall>e \<in> set es. event_defined e"
  shows "\<exists>res. region_run t es r = Some res \<and> result_ok res"
  using assms
proof (induction es arbitrary: r)
  case (Cons e es)
  from region_step_ok [of r e t] Cons.prems obtain r1 out1
    where one: "region_step t e r = Some (r1, out1)" "result_ok (r1, out1)" by auto
  with Cons.IH [of r1] Cons.prems(2) obtain r2 out2
    where "region_run t es r1 = Some (r2, out2)" "result_ok (r2, out2)" by (auto simp: result_ok_def)
  with one show ?case by (simp add: result_ok_def)
qed (simp add: result_ok_def)

lemma region_step_undefined: "\<not> event_defined e \<Longrightarrow> region_step t e r = None"
  by (cases e) (auto simp: datagram_def udp_receive_def)

lemma region_run_undefined:
  assumes "region_ok r" "\<not> (\<forall>e \<in> set es. event_defined e)"
  shows "region_run t es r = None"
  using assms
proof (induction es arbitrary: r)
  case (Cons e es)
  show ?case
  proof (cases "event_defined e")
    case True
    from region_step_ok [OF Cons.prems(1) True, of t] obtain r1 out1
      where one: "region_step t e r = Some (r1, out1)" "region_ok r1" by (auto simp: result_ok_def)
    with Cons.IH [of r1] Cons.prems(2) True show ?thesis by simp
  next
    case False
    then show ?thesis by (simp add: region_step_undefined)
  qed
qed simp

lemma rg_dev_message_fst: "rg_dev (fst (device_message clk sid body r)) = fst (on_body clk sid body (rg_dev r))"
proof -
  have "rg_dev (fst (run_dev_effects clk effs r)) = rg_dev r" for effs r
    by (induction clk effs r rule: run_dev_effects.induct) (auto simp: on_device_fault_def split: prod.splits)
  then show ?thesis by (simp add: device_message_def split: prod.split)
qed

section \<open>The fault flag in a region\<close>

definition faulty :: "string \<Rightarrow> region \<Rightarrow> bool" where
  "faulty u r \<longleftrightarrow> (\<exists>st. reg_get (rg_reg r) u = Some st \<and> ds_fault st)"

fun registers_event :: "string \<Rightarrow> region_event \<Rightarrow> bool" where
  "registers_event u (Connection a) \<longleftrightarrow> registers u a"
| "registers_event u _ \<longleftrightarrow> False"

lemma run_dev_effects_dev: "rg_dev (fst (run_dev_effects clk effs r)) = rg_dev r"
  by (induction clk effs r rule: run_dev_effects.induct)
    (auto simp: on_device_fault_def split: prod.splits)

lemma command_zone_reg:
  assumes "region_ok r" "command_zone cmds z r = Inr r'"
  shows "rg_reg r' = rg_reg r"
proof -
  from assms(1) have "dv_ok (rg_dev r)" by (simp add: region_ok_def)
  from command_lamps_commanded [OF this, of cmds "get_lamps_in_zone (rg_reg r) z"] assms(2)
  show ?thesis by (auto simp: command_zone_def Let_def commanded_def rg_reg_def split: if_splits)
qed

lemma faulty_udp_event:
  assumes "region_ok r" "run_udp_event clk e r = Inr (r', out)" "faulty u r"
  shows "faulty u r'"
  using assms
  by (cases e) (auto simp: faulty_def motion_on_def motion_off_def command_zone_reg sensor_fault_def Let_def)

lemma faulty_udp_events:
  assumes "region_ok r" "events_short evs" "run_udp_events clk evs r = Inr (r', out)" "faulty u r"
  shows "faulty u r'"
  using assms
proof (induction evs arbitrary: r out)
  case (Cons e evs)
  from run_udp_event_ok [OF Cons.prems(1), of e clk] Cons.prems(2,3) obtain r1 out1 out2
    where one: "run_udp_event clk e r = Inr (r1, out1)" "result_ok (r1, out1)"
      "run_udp_events clk evs r1 = Inr (r', out2)"
    by (auto simp: events_short_def split: prod.splits)
  show ?case
    by (rule Cons.IH [OF _ _ one(3)])
      (use one Cons.prems in \<open>auto simp: result_ok_def events_short_def intro: faulty_udp_event\<close>)
qed simp

lemma faulty_datagram:
  assumes "region_ok r" "datagram clk ec data r = Some (r', out)" "faulty u r"
  shows "faulty u r'"
proof (cases "\<not> ec \<and> length data \<ge> sizeof_telemetry")
  case False
  with assms(2,3) show ?thesis by (auto simp: datagram_skipped)
next
  case True
  with assms(2) obtain t where t: "decode_telemetry data = Some t"
    by (cases "decode_telemetry data") (auto simp: datagram_def udp_receive_def)
  obtain reg lm evs where d:
    "on_reading (now_ms clk) t (rg_reg r, rg_last_motion r) = ((reg, lm), evs)"
    "region_ok ((set_reg reg r)\<lparr>rg_last_motion := lm\<rparr>)" "events_short evs"
    "datagram clk ec data r = (case run_udp_events clk evs ((set_reg reg r)\<lparr>rg_last_motion := lm\<rparr>) of
       Inl e \<Rightarrow> None | Inr res \<Rightarrow> Some res)"
    using datagram_split [OF assms(1) _ _ t, of ec clk] True by metis
  have "reg = fst (fst (on_reading (now_ms clk) t (rg_reg r, rg_last_motion r)))" by (simp add: d(1))
  then have "faulty u ((set_reg reg r)\<lparr>rg_last_motion := lm\<rparr>)"
    using keeps_faults_on_reading [of "now_ms clk" t "rg_last_motion r"] assms(3)
    by (simp add: table.keeps_faults_def faulty_def rg_reg_def)
  moreover have "run_udp_events clk evs ((set_reg reg r)\<lparr>rg_last_motion := lm\<rparr>) = Inr (r', out)"
    using assms(2) by (simp add: d(4) split: sum.splits)
  ultimately show ?thesis using faulty_udp_events [OF d(2,3)] by blast
qed

lemma device_message_dev: "rg_dev (fst (device_message clk sid body r)) = fst (on_body clk sid body (rg_dev r))"
  by (simp add: device_message_def run_dev_effects_dev split: prod.split)

lemma connection_dev:
  assumes "region_step t (Connection a) r = Some (r', out)"
  shows "rg_dev r' = dev_step a (rg_dev r) \<or> r' = r"
proof (cases a)
  case (Body clk sid body)
  with assms device_message_dev [of clk sid body r] show ?thesis by auto
qed (use assms in auto)

lemma faulty_step:
  assumes "region_ok r" "region_step t e r = Some (r', out)" "\<not> registers_event u e" "faulty u r"
  shows "faulty u r'"
proof (cases e)
  case (Connection a)
  have "\<exists>st'. reg_get (dv_reg (dev_step a (rg_dev r))) u = Some st' \<and> ds_fault st'"
    using fault_kept_step [of u a "rg_dev r"] assms(3,4) Connection by (auto simp: faulty_def rg_reg_def)
  moreover have "rg_dev r' = dev_step a (rg_dev r) \<or> r' = r"
    using assms(2) Connection connection_dev by simp
  ultimately show ?thesis using assms(4) by (auto simp: faulty_def rg_reg_def)
next
  case (Datagram clk ec data)
  with faulty_datagram [OF assms(1)] assms show ?thesis by simp
next
  case (Tick clk)
  obtain reg lost where d: "detect_comm_lost (rg_reg r) (now_ms clk) t = (reg, lost)"
    by (cases "detect_comm_lost (rg_reg r) (now_ms clk) t")
  from comm_lost_tick_eq [OF assms(1) d] assms(2) Tick have "rg_reg r' = reg" by auto
  with keeps_faults_detect [of "now_ms clk" t] assms(4) d show ?thesis
    by (auto simp: faulty_def table.keeps_faults_def) (metis fst_conv)
qed

lemma faulty_run:
  assumes "region_ok r" "\<forall>e \<in> set es. event_defined e \<and> \<not> registers_event u e" "faulty u r"
    and "region_run t es r = Some (r', out)"
  shows "faulty u r'"
  using assms
proof (induction es arbitrary: r out)
  case (Cons e es)
  from region_step_ok [of r e t] Cons.prems(1,2,4) obtain r1 out1 out2
    where one: "region_step t e r = Some (r1, out1)" "result_ok (r1, out1)"
      "region_run t es r1 = Some (r', out2)"
    by (auto split: option.splits prod.splits)
  show ?case
    by (rule Cons.IH [OF _ _ _ one(3)])
      (use one Cons.prems faulty_step [OF Cons.prems(1) one(1)] in \<open>auto simp: result_ok_def\<close>)
qed simp

lemma command_zone_outcome:
  assumes "region_ok r"
  shows "\<exists>r'. command_zone cmds z r = Inr r' \<and> rg_reg r' = rg_reg r
    \<and> (rg_fsm r = FAULT_HANDLING \<longrightarrow> r' = r)
    \<and> (rg_fsm r \<noteq> FAULT_HANDLING \<longrightarrow> lock (rg_dev r') s = map_option (\<lambda>se.
         add_posts (lamp_msgs cmds (get_lamps_in_zone (rg_reg r) z) (rg_dev r) s (se_uri se)) se)
           (lock (rg_dev r) s))"
proof -
  let ?ls = "get_lamps_in_zone (rg_reg r) z"
  have "dv_ok (rg_dev r)" using assms by (simp add: region_ok_def)
  from command_lamps_commanded [OF this, of cmds ?ls] obtain dv' where
    "command_lamps cmds ?ls (rg_dev r) = Inr dv'" "commanded (lamp_msgs cmds ?ls (rg_dev r)) (rg_dev r) dv'"
    by blast
  then show ?thesis
    using assms
    by (auto simp: command_zone_def Let_def commanded_def region_ok_def rg_reg_def lamp_msgs_def
        option.map_ident)
qed

section \<open>Properties\<close>

text \<open>
  C1: From its start a region processes every sequence of events of connections, timer and
  datagrams without an exception leaving a handler, unless a datagram of full length has a URI
  without terminator, which the code reads past its end: the run is defined exactly if there is
  none. It then stays in normal operation or fault handling, its tables stay well formed, and
  every alarm it raises can be encoded, so that the alarm client never throws either.
\<close>

theorem region_always_runs:
  "case region_run t es (boot rid) of
     None \<Rightarrow> \<exists>e \<in> set es. \<not> event_defined e
   | Some (r, out) \<Rightarrow> (\<forall>e \<in> set es. event_defined e)
       \<and> region_ok r \<and> rg_fsm r \<in> {NORMAL_OPERATION, FAULT_HANDLING}
       \<and> list_all (\<lambda>e. case e of Db c \<Rightarrow> True | Alarm a \<Rightarrow> encode_alarm_up a = Inr (enc_alarm_up a)) out"
proof (cases "\<forall>e \<in> set es. event_defined e")
  case True
  from region_run_ok [OF region_ok_boot True] obtain r out where
    run: "region_run t es (boot rid) = Some (r, out)" "region_ok r" "list_all alarm_ok out"
    by (fastforce simp: result_ok_def)
  then have "list_all (\<lambda>e. case e of Db c \<Rightarrow> True | Alarm a \<Rightarrow> encode_alarm_up a = Inr (enc_alarm_up a)) out"
    by (auto simp: list_all_iff alarm_ok_def alarm_up.encode_eq split: region_effect.splits)
  with run True show ?thesis by (simp add: region_ok_def)
next
  case False
  with region_run_undefined [OF region_ok_boot] show ?thesis by auto
qed

lemma region_always_runs_witness:
  "\<exists>r out. region_run 20000 [Connection (Accept 1), Tick example_clock,
     Datagram example_clock False (telemetry_packet ''s'' 1 200 254 235)] (boot 1) = Some (r, out)
   \<and> region_ok r"
proof -
  have "\<forall>e \<in> set [Connection (Accept 1), Tick example_clock,
      Datagram example_clock False (telemetry_packet ''s'' 1 200 254 235)]. event_defined e"
    using decode_packet [of "''s''" 1 200 254 235 "[]"] by simp
  with region_always_runs [where t = 20000 and rid = 1 and es = "[Connection (Accept 1), Tick example_clock,
      Datagram example_clock False (telemetry_packet ''s'' 1 200 254 235)]"]
  show ?thesis by (auto split: option.splits)
qed

text \<open>
  The motion callbacks: in normal operation each live session gets, for every lamp of the zone
  that commands reach through it, exactly SWITCH_ON and SET_INTENSITY 60 (motion) or SWITCH_OFF
  (no motion), in the order of the zone's list, and nothing else; during fault handling no session
  gets anything. The callbacks never throw and leave the registry unchanged.
\<close>

theorem motion_commands_lamps:
  assumes "region_ok r"
  shows "case (motion_on z r, motion_off z r) of
     (Inr r1, Inr r2) \<Rightarrow>
       rg_reg r1 = rg_reg r \<and> rg_reg r2 = rg_reg r
       \<and> (if rg_fsm r = FAULT_HANDLING then r1 = r \<and> r2 = r
          else lock (rg_dev r1) s = map_option (\<lambda>se. add_posts (concat (map (\<lambda>l.
                   if held_by l s (rg_dev r) then [(CMD, command_to (se_uri se) 1 0),
                     (CMD, command_to (se_uri se) 3 60)] else []) (get_lamps_in_zone (rg_reg r) z))) se)
                 (lock (rg_dev r) s)
            \<and> lock (rg_dev r2) s = map_option (\<lambda>se. add_posts (concat (map (\<lambda>l.
                   if held_by l s (rg_dev r) then [(CMD, command_to (se_uri se) 2 0)] else [])
                   (get_lamps_in_zone (rg_reg r) z))) se) (lock (rg_dev r) s))
   | _ \<Rightarrow> False"
  using command_zone_outcome [OF assms, of "[(CMD_SWITCH_ON, 0), (CMD_SET_INTENSITY, 60)]" z s]
    command_zone_outcome [OF assms, of "[(CMD_SWITCH_OFF, 0)]" z s]
  by (auto simp: motion_on_def motion_off_def lamp_msgs_def cmd_msgs_def CMD_SWITCH_ON_def
      CMD_SWITCH_OFF_def CMD_SET_INTENSITY_def cong: if_cong)

lemma motion_commands_lamps_witness: "motion_on 1 (rg_switch FAULT_HANDLING (boot 1)) = Inr (rg_switch FAULT_HANDLING (boot 1))"
proof -
  have ok: "region_ok (rg_switch FAULT_HANDLING (boot 1))" by (simp add: region_ok_boot region_ok_switch)
  have "rg_fsm (rg_switch FAULT_HANDLING (boot 1)) = FAULT_HANDLING"
    by (simp add: boot_def Let_def rg_fsm_switch)
  with motion_commands_lamps [OF ok, where z = 1 and s = 0] show ?thesis by (auto split: sum.splits)
qed

text \<open>
  C26: One tick of the timer, completely: marked as faulty are exactly the devices that were not, that
  were seen before and whose last message is longer ago than the timeout (in 64-bit arithmetic);
  every other entry, the lamps of the zones, the sessions, the motion of the sensors and the region's
  number stay. Each device that fell silent and is not in the active set raises one alarm with code
  9, the text \<^verbatim>\<open>comm_lost\<close>, its URI, its zone and its type, and nothing else is sent or logged.
  Afterwards the active set is exactly the set of devices that fell silent in this tick; the region
  is in normal operation if there is none, and in fault handling if one of them is new.
\<close>

theorem comm_lost_tick_outcome:
  assumes "region_ok r" "comm_lost_tick clk t r = (r', effs)"
  shows "\<exists>lost. distinct lost
    \<and> set lost = {u. \<exists>st. reg_get (rg_reg r) u = Some st \<and> \<not> ds_fault st \<and> ds_last_seen_ms st > 0
          \<and> now_ms clk - ds_last_seen_ms st > t}
    \<and> (\<forall>u. reg_get (rg_reg r') u = map_option (\<lambda>st.
          st\<lparr>ds_fault := (ds_fault st \<or> u \<in> set lost)\<rparr>) (reg_get (rg_reg r) u))
    \<and> zone_to_lamps (rg_reg r') = zone_to_lamps (rg_reg r)
    \<and> rg_dev r' = (rg_dev r)\<lparr>dv_reg := rg_reg r'\<rparr>
    \<and> rg_last_motion r' = rg_last_motion r \<and> rg_id r' = rg_id r
    \<and> set (rg_active_lost r') = set lost \<and> distinct (rg_active_lost r')
    \<and> effs = map (\<lambda>u. case the (reg_get (rg_reg r) u) of st \<Rightarrow>
          Alarm \<lparr>al_region_id = rg_id r, al_ts_unix = time_unix clk,
            al_device_type = (if ds_type st = LUMINAIRE then 1 else 2), al_zone_id = ds_zone_id st,
            al_code = 9, al_uri = u, al_text = ''comm_lost''\<rparr>)
        (filter (\<lambda>u. u \<notin> set (rg_active_lost r)) lost)
    \<and> rg_fsm r' = (if lost = [] then NORMAL_OPERATION
        else if set lost \<subseteq> set (rg_active_lost r) then rg_fsm r else FAULT_HANDLING)"
proof -
  obtain reg lost where d: "detect_comm_lost (rg_reg r) (now_ms clk) t = (reg, lost)"
    by (cases "detect_comm_lost (rg_reg r) (now_ms clk) t")
  have dist: "distinct (keys (dev (rg_reg r)))"
    using registry_ok_rg [OF assms(1)] by (simp add: registry_ok_def)
  have lost: "distinct lost" "\<And>u. u \<in> set lost \<longleftrightarrow> (\<exists>st. reg_get (rg_reg r) u = Some st \<and> is_lost (now_ms clk) t st)"
    using distinct_lost [OF dist, of "now_ms clk" t] lost_iff [OF dist, of _ "now_ms clk" t] by (simp_all add: d)
  have get: "reg_get reg u = map_option (mark_lost (now_ms clk) t) (reg_get (rg_reg r) u)" for u
    using reg_get_detect [of "rg_reg r" "now_ms clk" t u] by (simp add: d)
  have marked: "reg_get reg u = map_option (\<lambda>st. st\<lparr>ds_fault := (ds_fault st \<or> u \<in> set lost)\<rparr>)
      (reg_get (rg_reg r) u)" for u
    using get [of u] by (cases "reg_get (rg_reg r) u") (auto simp: mark_lost_def lost(2) is_lost_def)
  have zones: "zone_to_lamps reg = zone_to_lamps (rg_reg r)"
    using arg_cong [OF d, of "\<lambda>p. zone_to_lamps (fst p)"] by (simp add: detect_comm_lost_eq)
  have alarm: "comm_lost_alarm clk u (set_reg reg r)
      = (case the (reg_get (rg_reg r) u) of st \<Rightarrow>
          \<lparr>al_region_id = rg_id r, al_ts_unix = time_unix clk,
            al_device_type = (if ds_type st = LUMINAIRE then 1 else 2), al_zone_id = ds_zone_id st,
            al_code = 9, al_uri = u, al_text = ''comm_lost''\<rparr>)" if "u \<in> set lost" for u
    using that get [of u] by (auto simp: lost(2) comm_lost_alarm_def device_code_def)
  have new: "not_active r lost = [] \<longleftrightarrow> set lost \<subseteq> set (rg_active_lost r)"
    by (auto simp: not_active_def filter_empty_conv)
  obtain r1 where r1: "comm_lost_tick clk t r = (r1, map (\<lambda>u. Alarm (comm_lost_alarm clk u (set_reg reg r))) (not_active r lost))"
    "rg_reg r1 = reg" "set (rg_active_lost r1) = set lost" "distinct (rg_active_lost r1)"
    "rg_id r1 = rg_id r" "rg_last_motion r1 = rg_last_motion r" "rg_dev r1 = (rg_dev r)\<lparr>dv_reg := reg\<rparr>"
    "rg_fsm r1 = (if lost = [] then NORMAL_OPERATION
        else if not_active r lost \<noteq> [] then FAULT_HANDLING else rg_fsm r)"
    using comm_lost_tick_eq [OF assms(1) d] by blast
  have r': "r' = r1" and effs: "effs = map (\<lambda>u. Alarm (comm_lost_alarm clk u (set_reg reg r))) (not_active r lost)"
    using r1(1) assms(2) by simp_all
  show ?thesis
    unfolding r' effs
    by (intro exI [of _ lost] conjI allI; (rule map_cong [OF refl])?)
      (auto simp: r1(2-) marked zones lost is_lost_def alarm new [unfolded not_active_def] not_active_def)
qed

definition example_region :: region where
  "example_region = set_reg (upsert (rg_reg (boot 1)) ''sls://lamp-001'' (example_lamp 1 100)) (boot 1)"

lemma example_region_ok: "region_ok example_region"
  unfolding example_region_def by (rule region_ok_upsert [OF region_ok_boot]) (simp add: short_str_def)

lemma rg_reg_boot: "rg_reg (boot rid) = empty_registry"
  by (simp add: boot_def Let_def) (simp add: rg_reg_def new_server_def)

lemma lost_example:
  "snd (detect_comm_lost (rg_reg example_region) 1000 500) = [''sls://lamp-001'']"
  by (simp add: example_region_def rg_reg_boot detect_comm_lost_eq example_defs is_lost_def)

definition ticked_region :: region where
  "ticked_region = fst (comm_lost_tick example_clock 500 example_region)"

lemma ticked_region_ok: "region_ok ticked_region"
  using tick_ok [OF example_region_ok] by (simp add: result_ok_def ticked_region_def)

lemma reg_ticked: "rg_reg ticked_region = fst (detect_comm_lost (rg_reg example_region) 1000 500)"
  using comm_lost_tick_eq [OF example_region_ok, of example_clock 500]
  by (cases "detect_comm_lost (rg_reg example_region) 1000 500")
    (auto simp: example_clock_def ticked_region_def)

lemma faulty_ticked: "faulty ''sls://lamp-001'' ticked_region"
  by (simp add: faulty_def reg_ticked reg_get_detect)
    (simp add: example_region_def rg_reg_boot reg_get_def example_defs is_lost_def)

lemma comm_lost_tick_outcome_witness:
  "rg_fsm (fst (comm_lost_tick example_clock 500 example_region)) = FAULT_HANDLING
   \<and> set (rg_active_lost (fst (comm_lost_tick example_clock 500 example_region))) = {''sls://lamp-001''}"
proof -
  have "rg_active_lost example_region = []" by (simp add: example_region_def boot_def Let_def)
  moreover obtain r' effs where e: "comm_lost_tick example_clock 500 example_region = (r', effs)"
    by (cases "comm_lost_tick example_clock 500 example_region")
  moreover have "reg_get (rg_reg example_region) u
      = (if u = ''sls://lamp-001'' then Some (example_lamp 1 100) else None)" for u
    by (simp add: example_region_def rg_reg_boot reg_get_def example_defs)
  ultimately show ?thesis
    using comm_lost_tick_outcome [OF example_region_ok e]
    by (auto simp: example_clock_def example_lamp_def new_device_def split: if_splits)
qed

text \<open>
  Fault handling ends although nothing has recovered: a tick in which no further device falls
  silent, so in particular the tick after an alarm, puts the region back to normal operation with
  reason \<^verbatim>\<open>recover_ok\<close>, while every device that was faulty still is.
\<close>

theorem normal_operation_with_faulty_devices:
  assumes "region_ok r" "snd (detect_comm_lost (rg_reg r) (now_ms clk) t) = []" "faulty u r"
  shows "case comm_lost_tick clk t r of (r', effs) \<Rightarrow>
    effs = [] \<and> rg_fsm r' = NORMAL_OPERATION \<and> rg_active_lost r' = [] \<and> faulty u r'"
proof -
  obtain reg where d: "detect_comm_lost (rg_reg r) (now_ms clk) t = (reg, [])"
    using assms(2) by (cases "detect_comm_lost (rg_reg r) (now_ms clk) t") simp
  obtain r' where r': "comm_lost_tick clk t r = (r', [])" "rg_active_lost r' = []"
    "rg_fsm r' = NORMAL_OPERATION"
    using comm_lost_tick_eq [OF assms(1) d] by (auto simp: not_active_def)
  have "faulty u r'" by (rule faulty_step [OF assms(1) _ _ assms(3), of t "Tick clk"]) (simp_all add: r')
  with r' show ?thesis by simp
qed

lemma normal_operation_with_faulty_devices_witness:
  "case comm_lost_tick example_clock 500 ticked_region of (r', effs) \<Rightarrow>
     rg_fsm r' = NORMAL_OPERATION \<and> faulty ''sls://lamp-001'' r'"
proof -
  have "snd (detect_comm_lost (rg_reg ticked_region) (now_ms example_clock) 500) = []"
    by (simp add: reg_ticked example_clock_def)
      (simp add: example_region_def rg_reg_boot detect_comm_lost_eq example_defs is_lost_def)
  from normal_operation_with_faulty_devices [OF ticked_region_ok this faulty_ticked] show ?thesis
    by (simp add: case_prod_unfold)
qed

text \<open>
  For handlers that run one after the other: after any events other than a registration of the
  device, telemetry and status reports of the device itself included, a faulty device is still
  faulty, and no later tick, at any time and with any timeout, reports it silent again. Handlers that
  overlap are the subject of \<open>Registry_Races\<close>.
\<close>

theorem region_fault_latched:
  assumes "region_ok r" "faulty u r" "\<forall>e \<in> set es. event_defined e \<and> \<not> registers_event u e"
  shows "case region_run t es r of
     None \<Rightarrow> False
   | Some (r', out) \<Rightarrow> faulty u r' \<and> u \<notin> set (snd (detect_comm_lost (rg_reg r') now t'))"
proof -
  from region_run_ok [OF assms(1), of es t] assms(3) obtain r' out where
    run: "region_run t es r = Some (r', out)" "region_ok r'" by (fastforce simp: result_ok_def)
  have f: "faulty u r'" using faulty_run [OF assms(1,3,2) run(1)] .
  have "distinct (keys (dev (rg_reg r')))"
    using registry_ok_rg [OF run(2)] by (simp add: registry_ok_def)
  from lost_iff [OF this] f have "u \<notin> set (snd (detect_comm_lost (rg_reg r') now t'))"
    by (auto simp: faulty_def is_lost_def)
  with f run(1) show ?thesis by simp
qed

lemma region_fault_latched_witness:
  "case region_run 20000 [Datagram example_clock False (telemetry_packet ''sls://lamp-001'' 1 200 0 235)]
      ticked_region of
     None \<Rightarrow> False
   | Some (r', out) \<Rightarrow> faulty ''sls://lamp-001'' r'"
proof -
  have "\<forall>e \<in> set [Datagram example_clock False (telemetry_packet ''sls://lamp-001'' 1 200 0 235)].
      event_defined e \<and> \<not> registers_event ''sls://lamp-001'' e"
    using decode_packet [of "''sls://lamp-001''" 1 200 0 235 "[]"] by simp
  from region_fault_latched [OF ticked_region_ok faulty_ticked this, where t = 20000 and t' = 500 and now = 2000]
  show ?thesis
    by (cases "region_run 20000 [Datagram example_clock False
        (telemetry_packet ''sls://lamp-001'' 1 200 0 235)] ticked_region")
      (simp_all only: option.case case_prod_unfold)
qed

text \<open>
  C27: A fault report that a device encoded is handled once and completely: it is logged, the device
  is marked faulty, the region goes to fault handling, exactly one alarm with the report's zone,
  code, URI and text is raised, and the reporting session queues one FAULT_ACK.
\<close>

theorem fault_report_raises_alarm:
  assumes "region_ok r" "lock (rg_dev r) sid = Some se" "encode_fault_report f = Inr p"
  shows "case device_message clk sid (body_of FAULT_REPORT (p @ junk)) r of (r', out) \<Rightarrow>
     faulty (flt_uri f) r' \<and> rg_fsm r' = FAULT_HANDLING
     \<and> lock (rg_dev r') sid = Some (queue_send FAULT_ACK [] se)
     \<and> out = [Db (log_fault (now_ms_utc clk) (flt_uri f) (dv_region_id (rg_dev r)) (flt_zone_id f)
           (flt_code f) (flt_text f)),
         Alarm \<lparr>al_region_id = rg_id r, al_ts_unix = time_unix clk,
           al_device_type = device_code (case reg_get (rg_reg r) (flt_uri f) of
               Some st \<Rightarrow> ds_type st
             | None \<Rightarrow> if se_registered se \<and> se_uri se \<noteq> [] \<and> flt_uri f = se_uri se
                 then se_session_type se else LUMINAIRE),
           al_zone_id = flt_zone_id f, al_code = flt_code f, al_uri = flt_uri f,
           al_text = flt_text f\<rparr>]"
proof -
  have "dispatch clk sid (body_of FAULT_REPORT (p @ junk)) se (rg_dev r) = handle_fault clk f se (rg_dev r)"
    using fault_report.decode_encode [OF assms(3)]
    by (simp add: body_of_def dispatch_eqs del: msg_code.simps)
  then have b: "on_body clk sid (body_of FAULT_REPORT (p @ junk)) (rg_dev r)
      = (case handle_fault clk f se (rg_dev r) of (se', dv', effs) \<Rightarrow> (set_session sid se' dv', effs))"
    by (simp add: on_body_def assms(2))
  have "rg_fsm r \<in> {NORMAL_OPERATION, FAULT_HANDLING}" using assms(1) by (simp add: region_ok_def)
  then show ?thesis
    by (auto simp: device_message_def b handle_fault_def Let_def on_device_fault_def faulty_def
        rg_reg_def rg_fsm_switch blank_device_def new_device_def split: option.split)
qed

lemma fault_report_raises_alarm_witness:
  "\<exists>r' out. device_message example_clock 1 (body_of FAULT_REPORT (enc_fault_report
       \<lparr>flt_uri = ''x'', flt_zone_id = 1, flt_code = 1, flt_text = ''t''\<rparr> @ []))
     ((boot 1)\<lparr>rg_dev := do_accept 1 (new_server 1)\<rparr>) = (r', out) \<and> faulty ''x'' r' \<and> length out = 2"
proof -
  let ?r = "(boot 1)\<lparr>rg_dev := do_accept 1 (new_server 1)\<rparr>"
  let ?f = "\<lparr>flt_uri = ''x'', flt_zone_id = 1, flt_code = 1, flt_text = ''t''\<rparr>"
  have "dv_reg (do_accept 1 (new_server 1)) = empty_registry"
    by (simp add: do_accept_def) (simp add: new_server_def)
  moreover have "uris_short empty_registry" using region_ok_boot [of 1] by (simp add: region_ok_def rg_reg_boot)
  ultimately have ok: "region_ok ?r"
    using region_ok_boot [of 1] by (simp add: region_ok_def rg_reg_def dv_ok_accept dv_ok_new)
  have l: "lock (rg_dev ?r) 1 = Some new_session" by simp
  have e: "encode_fault_report ?f = Inr (enc_fault_report ?f)"
    by (simp add: fault_report.encode_eq short_str_def)
  from fault_report_raises_alarm [OF ok l e, of example_clock "[]"] show ?thesis
    by (cases "device_message example_clock 1 (body_of FAULT_REPORT (enc_fault_report ?f @ [])) ?r") simp
qed

text \<open>
  The fault marker of a sensor: the datagram with motion 254 is processed in every well-formed
  region, marks the sensor faulty, puts the region into fault handling and raises exactly one alarm
  with code 1 after the two rows for the database; the sensor's URI is the one cut to 47 characters.
\<close>

theorem sensor_marker_raises_alarm:
  assumes "region_ok r" "u = take 47 (c_str uri)"
  shows "case datagram clk False (telemetry_packet uri zone lux 254 temp) r of
     None \<Rightarrow> False
   | Some (r', out) \<Rightarrow> faulty u r' \<and> rg_fsm r' = FAULT_HANDLING
       \<and> out = [Db (upsert_device (now_ms_utc clk) u 2 (rg_id r) zone True 0 0 0),
           Db (log_fault (now_ms_utc clk) u (rg_id r) zone 1 ''sensor_fault''),
           Alarm \<lparr>al_region_id = rg_id r, al_ts_unix = time_unix clk, al_device_type = 2,
             al_zone_id = zone, al_code = 1, al_uri = u, al_text = ''sensor_fault''\<rparr>]"
proof -
  let ?t = "\<lparr>rd_uri = u, rd_zone_id = zone, rd_lux = lux, rd_motion = 254, rd_temp10 = sint temp\<rparr>"
  have dec: "decode_telemetry (telemetry_packet uri zone lux 254 temp) = Some ?t"
    using decode_packet [of uri zone lux 254 temp "[]"] assms(2) by (simp add: uri_size_def)
  have evs: "snd (on_reading (now_ms clk) ?t s) = [Sensor_fault zone u 1]" for s
    by (simp add: on_reading_def mark_sensor_fault_def motion_edge_def Let_def split: prod.split)
  obtain reg lm where o: "on_reading (now_ms clk) ?t (rg_reg r, rg_last_motion r)
      = ((reg, lm), [Sensor_fault zone u 1])"
    using evs [of "(rg_reg r, rg_last_motion r)"] by (metis prod.collapse)
  have "rg_fsm r \<in> {NORMAL_OPERATION, FAULT_HANDLING}" using assms(1) by (simp add: region_ok_def)
  then show ?thesis
    by (auto simp: datagram_def udp_receive_def dec o sensor_fault_def Let_def faulty_def rg_fsm_switch)
qed

lemma sensor_marker_raises_alarm_witness:
  "case datagram example_clock False (telemetry_packet ''s'' 3 0 254 0) (boot 1) of
     None \<Rightarrow> False
   | Some (r', out) \<Rightarrow> faulty ''s'' r' \<and> rg_fsm r' = FAULT_HANDLING"
  using sensor_marker_raises_alarm [OF region_ok_boot [of 1], where u = "''s''" and uri = "''s''"
      and clk = example_clock and zone = 3 and lux = 0 and temp = 0]
  by (cases "datagram example_clock False (telemetry_packet ''s'' 3 0 254 0) (boot 1)")
    (simp_all add: case_prod_unfold)

end
