(* ===== verification/Lamp_Link.thy ===== *)
theory Lamp_Link
  imports Luminaire Regional_Server
begin

text \<open>
  A lamp and the device server of its region together: the bodies of the frames that one side queues
  are handled by the other. The write queues in between keep the order (\<open>Write_Queue\<close>).
\<close>

section \<open>The messages of the lamp at the region\<close>

definition lamp_request :: "lamp_config \<Rightarrow> bytes" where
  "lamp_request cf = enc_register_req
     \<lparr>req_type = LUMINAIRE, req_uri = cf_uri cf, req_zone_id = cf_zone cf\<rparr>"

definition configured :: "lamp_config \<Rightarrow> bool" where
  "configured cf \<longleftrightarrow> short_str (cf_uri cf) \<and> cf_uri cf \<noteq> [] \<and> cf_zone cf \<noteq> 0"

lemma configured_short [simp]: "configured cf \<Longrightarrow> short_str (cf_uri cf)"
  by (simp add: configured_def)

lemma decode_lamp_messages:
  assumes "configured cf"
  shows "decode_register_req (lamp_request cf)
      = Inr \<lparr>req_type = LUMINAIRE, req_uri = cf_uri cf, req_zone_id = cf_zone cf\<rparr>"
    and "decode_status_report (enc_status_report (status_of cf lp)) = Inr (status_of cf lp)"
  using assms register_req.decode_encode [of _ "lamp_request cf" "[]"]
    status_report.decode_encode [of "status_of cf lp" _ "[]"]
  by (simp_all add: register_req.encode_eq status_report.encode_eq status_of_def lamp_request_def)

lemma region_registers_lamp:
  assumes "configured cf" "lock (rg_dev r) sid = Some se"
  shows "case device_message clk sid (body_of REGISTER_REQ (lamp_request cf)) r of (r', out) \<Rightarrow>
     out = []
     \<and> lock (rg_dev r') sid = Some (Device_Server.queue_send REGISTER_ACK
         (encode_register_ack \<lparr>rack_server_time_unix = time_unix clk\<rparr>)
         (se\<lparr>se_registered := True, se_session_type := LUMINAIRE, se_uri := cf_uri cf\<rparr>))
     \<and> held_by (cf_uri cf) sid (rg_dev r')
     \<and> cf_uri cf \<in> set (get_lamps_in_zone (rg_reg r') (cf_zone cf))
     \<and> reg_get (rg_reg r') (cf_uri cf) = Some \<lparr>ds_type = LUMINAIRE, ds_zone_id = cf_zone cf, ds_on = 0,
         ds_intensity = 0, ds_power_mw = 0, ds_fault = False, ds_last_seen_ms = now_ms clk\<rparr>"
  using assms decode_lamp_messages(1) [OF assms(1)]
  by (simp add: configured_def device_message_def on_body_def body_of_def dispatch_eqs
      handle_register_def Let_def held_by_def rg_reg_def lamps_register_lamp blank_device_def
      new_device_def del: msg_code.simps)

lemma region_stores_status:
  assumes "configured cf" "lock (rg_dev r) sid = Some se" "reg_get (rg_reg r) (cf_uri cf) = Some st"
  shows "case device_message clk sid (body_of STATUS_REPORT (enc_status_report (status_of cf lp))) r
     of (r', out) \<Rightarrow>
       reg_get (rg_reg r') (cf_uri cf) = Some (st\<lparr>ds_zone_id := cf_zone cf,
         ds_on := (if lp_state lp = ON then 1 else 0), ds_intensity := lp_intensity lp,
         ds_power_mw := power_of lp, ds_last_seen_ms := now_ms clk\<rparr>)
       \<and> (\<forall>u. held_by u sid (rg_dev r') = held_by u sid (rg_dev r))"
  using assms decode_lamp_messages(2) [OF assms(1), of lp]
  by (simp add: device_message_def on_body_def body_of_def dispatch_eqs handle_status_def
      store_status_def Let_def held_by_def rg_reg_def status_of_def split: if_split del: msg_code.simps)

section \<open>The messages of the region at the lamp\<close>

lemma connected_lamp_registers:
  assumes "lamp_reachable cf lp" "configured cf" "lp_state lp \<noteq> REGISTERING"
  shows "\<exists>lp'. connect_done cf False lp = (lp', None) \<and> lp_state lp' = REGISTERING
    \<and> lp_has_sock lp' \<and> lp_posted lp' = lp_posted lp @ [(REGISTER_REQ, lamp_request cf)]"
  using lamp_ok_reachable [OF assms(1)] assms(2,3)
  by (simp add: connect_done_def send_register_def SwitchToState_eq Let_def lamp lamp_request_def
      Luminaire.queue_send_def lamp_ok_def fin_def)

lemma acknowledged_lamp_reports:
  assumes "configured cf" "lp_state lp = REGISTERING" "lp_has_sock lp"
  shows "\<exists>lp'. on_message cf rnd (body_of REGISTER_ACK p) lp = (lp', None) \<and> lp_state lp' = OFF
    \<and> lp_intensity lp' = 0
    \<and> lp_posted lp' = lp_posted lp @ [(STATUS_REPORT, enc_status_report (status_of cf lp'))]"
  using assms
  by (simp add: on_message_def body_of_def on_register_ack_def SwitchToState_eq Let_def lamp
      Luminaire.queue_send_def schedule_heartbeat_def fin_def status_of_def power_of_def del: msg_code.simps)

text \<open>The lamp handles the bodies of a list of messages; no handler of a command throws.\<close>

definition lamp_reads :: "lamp_config \<Rightarrow> int \<Rightarrow> out_msg list \<Rightarrow> lamp \<Rightarrow> lamp" where
  "lamp_reads cf rnd ms lp = fold (\<lambda>(t, p) lp. fst (on_message cf rnd (body_of t p) lp)) ms lp"

lemma lamp_reads_command:
  assumes "configured cf"
  shows "lamp_reads cf rnd ((CMD, command_to (cf_uri cf) c v) # ms) lp
    = lamp_reads cf rnd ms (fst (on_command cf rnd \<lparr>cmd_uri = cf_uri cf, cmd_cmd = c, cmd_value = v\<rparr> lp))"
proof -
  let ?c = "\<lparr>cmd_uri = cf_uri cf, cmd_cmd = c, cmd_value = v\<rparr>"
  have "decode_command (command_to (cf_uri cf) c v) = Inr ?c"
    using assms sls_command.decode_encode [of ?c _ "[]"]
    by (simp add: sls_command.encode_eq command_to_def)
  then show ?thesis
    by (simp add: lamp_reads_def on_message_def body_of_def del: msg_code.simps)
qed

lemma lamp_reads_Nil [simp]: "lamp_reads cf rnd [] lp = lp"
  by (simp add: lamp_reads_def)

lemma quiet_lamp: "cf_fault_prob_per_mille cf \<le> 0 \<Longrightarrow> maybe_simulate_fault cf rnd lp = fin lp"
  by (simp add: maybe_simulate_fault_def)

lemma lamp_reads_motion:
  assumes "configured cf" "cf_fault_prob_per_mille cf \<le> 0" "lp_has_sock lp" "lp_state lp \<in> {ON, OFF}"
  shows "\<exists>lp' ms. lamp_reads cf rnd [(CMD, command_to (cf_uri cf) 1 0), (CMD, command_to (cf_uri cf) 3 60)] lp = lp'
      \<and> lp_state lp' = ON \<and> lp_intensity lp' = 60 \<and> lp_has_sock lp'
      \<and> lp_posted lp' = lp_posted lp @ ms @ [(STATUS_REPORT, enc_status_report (status_of cf lp'))]"
    and "lp_state (lamp_reads cf rnd [(CMD, command_to (cf_uri cf) 2 0)] lp) = OFF"
  using assms
  by (auto simp: lamp_reads_command on_command_def cmd_switch_on_def cmd_switch_off_def
      cmd_set_intensity_eq with_intensity_def SwitchToState_eq Let_def lamp Luminaire.queue_send_def quiet_lamp
      status_of_def power_of_def)

section \<open>A region with one lamp\<close>

definition joined_region :: region where
  "joined_region = fst (device_message example_clock 1
     (body_of REGISTER_REQ (lamp_request Luminaire.example_lamp)) ((boot 1)\<lparr>rg_dev := do_accept 1 (new_server 1)\<rparr>))"

lemma configured_example: "configured Luminaire.example_lamp"
  by (simp add: configured_def) (simp add: Luminaire.example_lamp_def)

lemma accepted_region_ok: "region_ok ((boot 1)\<lparr>rg_dev := do_accept 1 (new_server 1)\<rparr>)"
proof -
  have "dv_reg (do_accept 1 (new_server 1)) = empty_registry"
    by (simp add: do_accept_def) (simp add: new_server_def)
  moreover have "uris_short empty_registry" using region_ok_boot [of 1] by (simp add: region_ok_def rg_reg_boot)
  ultimately show ?thesis
    using region_ok_boot [of 1] by (simp add: region_ok_def rg_reg_def dv_ok_accept dv_ok_new)
qed

lemma joined_region_facts:
  "rg_fsm joined_region = NORMAL_OPERATION"
  "get_lamps_in_zone (rg_reg joined_region) 7 = [''lamp1'']"
  "\<exists>se. lock (rg_dev joined_region) 1 = Some se \<and> se_uri se = ''lamp1''"
  "held_by ''lamp1'' 1 (rg_dev joined_region)"
  "\<exists>st. reg_get (rg_reg joined_region) ''lamp1'' = Some st"
proof -
  let ?r = "(boot 1)\<lparr>rg_dev := do_accept 1 (new_server 1)\<rparr>"
  have cf: "cf_uri Luminaire.example_lamp = ''lamp1''" "cf_zone Luminaire.example_lamp = 7"
    by (simp_all add: Luminaire.example_lamp_def)
  have l: "lock (rg_dev ?r) 1 = Some new_session" by simp
  from region_registers_lamp [OF configured_example l, of example_clock]
  show "\<exists>se. lock (rg_dev joined_region) 1 = Some se \<and> se_uri se = ''lamp1''"
    "held_by ''lamp1'' 1 (rg_dev joined_region)" "\<exists>st. reg_get (rg_reg joined_region) ''lamp1'' = Some st"
    by (simp_all add: joined_region_def case_prod_beta cf)
  have "dv_reg (do_accept 1 (new_server 1)) = empty_registry"
    by (simp add: do_accept_def) (simp add: new_server_def)
  then show "get_lamps_in_zone (rg_reg joined_region) 7 = [''lamp1'']" "rg_fsm joined_region = NORMAL_OPERATION"
    using decode_lamp_messages(1) [OF configured_example]
    by (simp_all add: joined_region_def device_message_def on_body_def body_of_def dispatch_eqs
        handle_register_def Let_def cf rg_reg_def blank_device_def del: msg_code.simps)
      (simp_all add: boot_def rg_fsm_switch Let_def lamps_register_lamp lamps_upsert
        push_if_absent_def get_lamps_in_zone_def [of empty_registry], simp add: empty_registry_def)
qed

section \<open>Properties\<close>

text \<open>
  C5: A lamp joins its region: once its connection stands it requests registration; the region
  enters it as a dark lamp without fault in its zone, makes its session the one that commands reach
  and acknowledges; the acknowledgement switches the lamp's machine to OFF and makes it report its
  status; and the report leaves the region with the entry of a dark lamp just seen.
\<close>

theorem lamp_joins_region:
  assumes "lamp_reachable cf lp" "configured cf" "lp_state lp \<noteq> REGISTERING"
    and "lock (rg_dev r) sid = Some se"
  shows "let (lp1, e1) = connect_done cf False lp;
      (r1, out1) = device_message clk1 sid (body_of REGISTER_REQ (lamp_request cf)) r;
      ack = encode_register_ack \<lparr>rack_server_time_unix = time_unix clk1\<rparr>;
      (lp2, e2) = on_message cf rnd (body_of REGISTER_ACK ack) lp1;
      status = enc_status_report (status_of cf lp2);
      (r2, out2) = device_message clk2 sid (body_of STATUS_REPORT status) r1
    in e1 = None \<and> lp_posted lp1 = lp_posted lp @ [(REGISTER_REQ, lamp_request cf)]
      \<and> map_option se_posted (lock (rg_dev r1) sid) = Some (se_posted se @ [(REGISTER_ACK, ack)])
      \<and> e2 = None \<and> lp_state lp2 = OFF \<and> lp_posted lp2 = lp_posted lp1 @ [(STATUS_REPORT, status)]
      \<and> reg_get (rg_reg r2) (cf_uri cf) = Some \<lparr>ds_type = LUMINAIRE, ds_zone_id = cf_zone cf, ds_on = 0,
          ds_intensity = 0, ds_power_mw = 0, ds_fault = False, ds_last_seen_ms = now_ms clk2\<rparr>
      \<and> held_by (cf_uri cf) sid (rg_dev r2)"
proof -
  obtain lp1 where lp1: "connect_done cf False lp = (lp1, None)" "lp_state lp1 = REGISTERING"
    "lp_has_sock lp1" "lp_posted lp1 = lp_posted lp @ [(REGISTER_REQ, lamp_request cf)]"
    using connected_lamp_registers [OF assms(1-3)] by blast
  let ?ack = "encode_register_ack \<lparr>rack_server_time_unix = time_unix clk1\<rparr>"
  obtain lp2 where lp2: "on_message cf rnd (body_of REGISTER_ACK ?ack) lp1 = (lp2, None)"
    "lp_state lp2 = OFF" "lp_intensity lp2 = 0"
    "lp_posted lp2 = lp_posted lp1 @ [(STATUS_REPORT, enc_status_report (status_of cf lp2))]"
    using acknowledged_lamp_reports [OF assms(2) lp1(2,3)] by blast
  obtain r1 out1 where r1: "device_message clk1 sid (body_of REGISTER_REQ (lamp_request cf)) r = (r1, out1)"
    by fastforce
  note reg = region_registers_lamp [OF assms(2,4), of clk1, unfolded r1 prod.case]
  obtain se1 where se1: "lock (rg_dev r1) sid = Some se1" using reg by blast
  obtain r2 out2 where r2: "device_message clk2 sid (body_of STATUS_REPORT
      (enc_status_report (status_of cf lp2))) r1 = (r2, out2)" by fastforce
  from reg region_stores_status [OF assms(2) se1, of _ clk2 lp2] lp1 lp2 r1 r2 show ?thesis
    by (simp add: power_of_def Let_def) (simp add: add_posts_def)
qed

lemma lamp_joins_region_witness:
  "lp_state (Luminaire.start new_lamp) = UNREGISTERED
   \<and> map_option se_posted (lock (rg_dev joined_region) 1) = Some [(REGISTER_ACK,
       encode_register_ack \<lparr>rack_server_time_unix = time_unix example_clock\<rparr>)]"
proof -
  have l: "lock (rg_dev ((boot 1)\<lparr>rg_dev := do_accept 1 (new_server 1)\<rparr>)) 1 = Some new_session" by simp
  have s: "lp_state (Luminaire.start new_lamp) = UNREGISTERED"
    by (simp add: Luminaire.start_def do_connect_def make_socket_def SwitchToState_eq)
  then have "lp_state (Luminaire.start new_lamp) \<noteq> REGISTERING" by simp
  from lamp_joins_region [OF lamp_reachable.started configured_example this l, of example_clock 0 example_clock] s
  show ?thesis unfolding Let_def case_prod_beta joined_region_def by (simp add: new_session_def)
qed

text \<open>
  C3: Motion lights the lamps: in normal operation of a well-formed region the motion callback queues
  for each session that holds one lamp of the zone exactly the two commands; the lamp that handles
  them is ON with intensity 60 and its last report is that state; when the region handles this report
  its entry says on, intensity 60 and 118 W. The callback for the end of motion switches it off.
\<close>

theorem motion_lights_lamp:
  assumes "region_ok r" "rg_fsm r = NORMAL_OPERATION"
    and "lock (rg_dev r) sid = Some se" "se_uri se = cf_uri cf"
    and "filter (\<lambda>l. held_by l sid (rg_dev r)) (get_lamps_in_zone (rg_reg r) z) = [cf_uri cf]"
    and "reg_get (rg_reg r) (cf_uri cf) = Some st"
    and "lamp_reachable cf lp" "configured cf" "cf_fault_prob_per_mille cf \<le> 0" "lp_state lp \<in> {ON, OFF}"
  shows "\<exists>r1 ms1 r2 ms2. motion_on z r = Inr r1 \<and> lock (rg_dev r1) sid = Some (add_posts ms1 se)
    \<and> motion_off z r = Inr r2 \<and> lock (rg_dev r2) sid = Some (add_posts ms2 se)
    \<and> lp_state (lamp_reads cf rnd ms2 lp) = OFF
    \<and> (let lp1 = lamp_reads cf rnd ms1 lp; status = enc_status_report (status_of cf lp1) in
         lp_state lp1 = ON \<and> lp_intensity lp1 = 60 \<and> last (lp_posted lp1) = (STATUS_REPORT, status)
         \<and> (case device_message clk sid (body_of STATUS_REPORT status) r1 of (r3, out) \<Rightarrow>
              reg_get (rg_reg r3) (cf_uri cf) = Some (st\<lparr>ds_zone_id := cf_zone cf, ds_on := 1,
                ds_intensity := 60, ds_power_mw := 118000, ds_last_seen_ms := now_ms clk\<rparr>)))"
proof -
  have msgs: "lamp_msgs cmds (get_lamps_in_zone (rg_reg r) z) (rg_dev r) sid u = cmd_msgs cmds u" for cmds u
  proof -
    have "lamp_msgs cmds ls (rg_dev r) sid u
        = concat (map (\<lambda>l. cmd_msgs cmds u) (filter (\<lambda>l. held_by l sid (rg_dev r)) ls))" for ls
      by (induction ls) (simp_all add: lamp_msgs_def)
    then show ?thesis by (simp add: assms(5))
  qed
  have zone: "\<exists>r'. command_zone cmds z r = Inr r' \<and> rg_reg r' = rg_reg r
      \<and> lock (rg_dev r') sid = Some (add_posts (cmd_msgs cmds (cf_uri cf)) se)" for cmds
    using command_zone_outcome [OF assms(1), of cmds z sid] assms(2-4) by (auto simp: msgs)
  have sock: "lp_has_sock lp" using lamp_ok_reachable [OF assms(7)] assms(8) by (simp add: lamp_ok_def)
  let ?on = "[(CMD_SWITCH_ON, 0), (CMD_SET_INTENSITY, 60)]" and ?off = "[(CMD_SWITCH_OFF, 0)]"
  let ?lp = "lamp_reads cf rnd (cmd_msgs ?on (cf_uri cf)) lp"
  note read = lamp_reads_motion [OF assms(8,9) sock assms(10), of rnd]
  have lit: "lp_state ?lp = ON" "lp_intensity ?lp = 60"
    "last (lp_posted ?lp) = (STATUS_REPORT, enc_status_report (status_of cf ?lp))"
    using read(1) by (auto simp: cmd_msgs_def CMD_SWITCH_ON_def CMD_SET_INTENSITY_def)
  have "lp_state (lamp_reads cf rnd (cmd_msgs ?off (cf_uri cf)) lp) = OFF"
    using read(2) by (simp add: cmd_msgs_def CMD_SWITCH_OFF_def)
  moreover obtain r1 r2 where r1: "command_zone ?on z r = Inr r1" "rg_reg r1 = rg_reg r"
      "lock (rg_dev r1) sid = Some (add_posts (cmd_msgs ?on (cf_uri cf)) se)"
    and r2: "command_zone ?off z r = Inr r2" "lock (rg_dev r2) sid = Some (add_posts (cmd_msgs ?off (cf_uri cf)) se)"
    using zone by metis
  ultimately show ?thesis
    using region_stores_status [OF assms(8) r1(3), of st clk ?lp] assms(6) lit
    by (intro exI [of _ r1] exI [of _ "cmd_msgs ?on (cf_uri cf)"] exI [of _ r2]
        exI [of _ "cmd_msgs ?off (cf_uri cf)"])
      (simp add: motion_on_def motion_off_def Let_def power_of_def case_prod_beta)
qed

lemma motion_lights_lamp_witness:
  "\<exists>lp r1 ms. motion_on 7 joined_region = Inr r1
     \<and> map_option se_posted (lock (rg_dev r1) 1) = map_option (\<lambda>se. se_posted se @ ms) (lock (rg_dev joined_region) 1)
     \<and> lp_state lp = OFF \<and> lp_state (lamp_reads Luminaire.example_lamp 0 ms lp) = ON"
proof -
  let ?cf = "Luminaire.example_lamp"
  have cf: "cf_uri ?cf = ''lamp1''" "cf_zone ?cf = 7" "cf_fault_prob_per_mille ?cf \<le> 0"
    by (simp_all add: Luminaire.example_lamp_def)
  obtain se st where se: "lock (rg_dev joined_region) 1 = Some se" "se_uri se = cf_uri ?cf"
    and st: "reg_get (rg_reg joined_region) (cf_uri ?cf) = Some st"
    using joined_region_facts cf by auto
  have ok: "region_ok joined_region"
    using device_message_ok [OF accepted_region_ok, of example_clock 1] by (simp add: result_ok_def joined_region_def)
  have zone: "filter (\<lambda>l. held_by l 1 (rg_dev joined_region)) (get_lamps_in_zone (rg_reg joined_region) 7) = [cf_uri ?cf]"
    using joined_region_facts(2,4) by (simp add: cf)
  obtain lp where run: "lamp_run ?cf registration (Luminaire.start new_lamp) = Some lp" and off: "lp_state lp = OFF"
    using example_registered by blast
  have "lamp_reachable ?cf lp" by (rule lamp_run_reachable [OF lamp_reachable.started run])
  from motion_lights_lamp [OF ok joined_region_facts(1) se zone st this configured_example cf(3), of 0 example_clock]
  obtain r1 ms where "motion_on 7 joined_region = Inr r1" "lock (rg_dev r1) 1 = Some (add_posts ms se)"
    "lp_state (lamp_reads ?cf 0 ms lp) = ON"
    using off unfolding Let_def by auto
  with se off show ?thesis
    by (intro exI [of _ lp] exI [of _ r1] exI [of _ ms]) (simp add: add_posts_def)
qed

end
