(* ===== verification/Sensor.thy ===== *)
theory Sensor
  imports Fsm Telemetry
begin

text \<open>
  The sensor (\<^verbatim>\<open>sensor_udp.cpp\<close>): its state machine, the simulated measurements, and the tick that
  decides once a second whether to send a datagram. One timer completion is one step; it returns
  the datagrams given to \<^verbatim>\<open>send_to\<close>. The random number of the fault simulation is an argument of
  the tick. The seconds since the start are an \<^verbatim>\<open>int\<close> that would overflow after 68 years; here
  they are unbounded.
\<close>

section \<open>The state machine\<close>

datatype sensor_state =
    IDLE
  | UNREGISTERED
  | REGISTERING
  | ACTIVE
  | FAULT

fun sensor_name :: "sensor_state \<Rightarrow> string" where
  "sensor_name IDLE = ''IDLE''"
| "sensor_name UNREGISTERED = ''UNREGISTERED''"
| "sensor_name REGISTERING = ''REGISTERING''"
| "sensor_name ACTIVE = ''ACTIVE''"
| "sensor_name FAULT = ''FAULT''"

definition sensor_transitions :: transition_matrix where
  "sensor_transitions =
     [(''IDLE'', ''UNREGISTERED''),
      (''UNREGISTERED'', ''REGISTERING''),
      (''REGISTERING'', ''ACTIVE''),
      (''REGISTERING'', ''UNREGISTERED''),
      (''ACTIVE'', ''ACTIVE''),
      (''ACTIVE'', ''FAULT''),
      (''FAULT'', ''IDLE'')]"

definition sensor_switch_to :: "sensor_state \<Rightarrow> sensor_state \<Rightarrow> sensor_state \<times> bool" where
  "sensor_switch_to state next = switch_state sensor_name sensor_transitions state next"

section \<open>The sensor\<close>

text \<open>The threshold and the temperatures hold the 16 bits of an \<^verbatim>\<open>int16_t\<close>.\<close>

record sensor_config =
  sc_uri :: string
  sc_zone :: u32
  sc_lux_threshold :: u16
  sc_temp_threshold_x10 :: u16
  sc_heartbeat_s :: int
  sc_fault_prob_per_mille :: u32
  sc_fault_reset_after_s :: int

record sensor =
  sn_state :: sensor_state
  sn_prev_lux :: u16
  sn_prev_motion :: u8
  sn_prev_temp_x10 :: u16
  sn_seconds_elapsed :: int
  sn_last_heartbeat :: int
  sn_ack_timer :: bool
  sn_reset_timer :: bool

definition initial_sensor :: sensor where
  "initial_sensor = \<lparr>sn_state = IDLE, sn_prev_lux = 200, sn_prev_motion = 0, sn_prev_temp_x10 = 235,
     sn_seconds_elapsed = 0, sn_last_heartbeat = -999999, sn_ack_timer = False, sn_reset_timer = False\<rparr>"

definition switch_to :: "sensor_state \<Rightarrow> sensor \<Rightarrow> sensor \<times> bool" where
  "switch_to next sn =
     (let (s, ok) = sensor_switch_to (sn_state sn) next in (sn\<lparr>sn_state := s\<rparr>, ok))"

definition boot_sensor :: sensor where
  "boot_sensor =
     (let sn = fst (switch_to UNREGISTERED initial_sensor);
          (sn, ok) = switch_to REGISTERING sn
      in if ok then sn\<lparr>sn_ack_timer := True\<rparr> else sn)"

definition ack_demo :: "sensor \<Rightarrow> sensor" where
  "ack_demo sn =
     (let sn = sn\<lparr>sn_ack_timer := False\<rparr>
      in if sn_state sn = REGISTERING then fst (switch_to ACTIVE sn) else sn)"

definition arm_fault_reset :: "sensor_config \<Rightarrow> sensor \<Rightarrow> sensor" where
  "arm_fault_reset cf sn =
     (if sc_fault_reset_after_s cf > 0 then sn\<lparr>sn_reset_timer := True\<rparr> else sn)"

definition fault_reset :: "sensor \<Rightarrow> sensor" where
  "fault_reset sn =
     (let sn = sn\<lparr>sn_reset_timer := False\<rparr>
      in if sn_state sn = FAULT
         then let sn = fst (switch_to IDLE sn);
                  sn = fst (switch_to UNREGISTERED sn);
                  sn = fst (switch_to REGISTERING sn)
              in fst (switch_to ACTIVE sn)
         else sn)"

definition lux_at :: "int \<Rightarrow> u16" where
  "lux_at s = word_of_int (180 + s mod 60)"

definition motion_at :: "int \<Rightarrow> u8" where
  "motion_at s = (if s mod 7 = 0 then 1 else 0)"

definition temp_at :: "int \<Rightarrow> u16" where
  "temp_at s = word_of_int (235 + (s div 20) mod 6)"

definition report_due :: "sensor_config \<Rightarrow> sensor \<Rightarrow> bool" where
  "report_due cf sn =
     (let lux = lux_at (sn_seconds_elapsed sn);
          motion = motion_at (sn_seconds_elapsed sn);
          temp_x10 = temp_at (sn_seconds_elapsed sn);
          motion_rise = (sn_prev_motion sn = 0 \<and> motion = 1);
          motion_fall = (sn_prev_motion sn = 1 \<and> motion = 0);
          lux_changed = (\<bar>uint lux - uint (sn_prev_lux sn)\<bar> \<ge> uint (sc_lux_threshold cf));
          temp_changed = (\<bar>sint temp_x10 - sint (sn_prev_temp_x10 sn)\<bar> \<ge> sint (sc_temp_threshold_x10 cf))
      in motion_rise \<or> motion_fall \<or> lux_changed \<or> temp_changed)"

definition heartbeat_due :: "sensor_config \<Rightarrow> sensor \<Rightarrow> bool" where
  "heartbeat_due cf sn \<longleftrightarrow>
     sc_heartbeat_s cf > 0 \<and> sn_seconds_elapsed sn - sn_last_heartbeat sn \<ge> sc_heartbeat_s cf"

text \<open>\<open>rnd\<close> is what \<^verbatim>\<open>urand(1,1000)\<close> returns.\<close>

definition simulate_fault :: "sensor_config \<Rightarrow> u32 \<Rightarrow> sensor \<Rightarrow> sensor \<times> bytes list" where
  "simulate_fault cf rnd sn =
     (if sn_state sn = ACTIVE \<and> sc_fault_prob_per_mille cf > 0 \<and> rnd \<le> sc_fault_prob_per_mille cf
      then let (sn, ok) = switch_to FAULT sn
           in if ok then (arm_fault_reset cf sn, [telemetry_packet (sc_uri cf) (sc_zone cf) 0 254 0])
              else (sn, [])
      else (sn, []))"

definition tick :: "sensor_config \<Rightarrow> u32 \<Rightarrow> sensor \<Rightarrow> sensor \<times> bytes list" where
  "tick cf rnd sn =
     (let s = sn_seconds_elapsed sn;
          lux = lux_at s; motion = motion_at s; temp_x10 = temp_at s;
          due = report_due cf sn; heartbeat = heartbeat_due cf sn;
          (sn, faults) = simulate_fault cf rnd sn;
          (sn, reports) =
            (if sn_state sn = ACTIVE \<and> (due \<or> heartbeat)
             then let sn = fst (switch_to ACTIVE sn);
                      sn = (if heartbeat then sn\<lparr>sn_last_heartbeat := s\<rparr> else sn)
                  in (sn, [telemetry_packet (sc_uri cf) (sc_zone cf) lux motion temp_x10])
             else (sn, []))
      in (sn\<lparr>sn_prev_motion := motion, sn_prev_lux := lux, sn_prev_temp_x10 := temp_x10,
            sn_seconds_elapsed := s + 1\<rparr>,
          faults @ reports))"

datatype sensor_event =
    Ack_demo
  | Fault_reset
  | Tick u32

inductive sensor_step :: "sensor_config \<Rightarrow> sensor \<Rightarrow> sensor_event \<Rightarrow> bytes list \<Rightarrow> sensor \<Rightarrow> bool"
  for cf where
  acked: "sn_ack_timer sn \<Longrightarrow> sensor_step cf sn Ack_demo [] (ack_demo sn)"
| reset: "sn_reset_timer sn \<Longrightarrow> sensor_step cf sn Fault_reset [] (fault_reset sn)"
| ticked: "tick cf rnd sn = (sn', out) \<Longrightarrow> sensor_step cf sn (Tick rnd) out sn'"

inductive_cases sensor_stepE [elim]: "sensor_step cf sn e out sn'"

inductive sensor_reachable :: "sensor_config \<Rightarrow> sensor \<Rightarrow> bool" for cf where
  booted: "sensor_reachable cf boot_sensor"
| stepped: "sensor_reachable cf sn \<Longrightarrow> sensor_step cf sn e out sn' \<Longrightarrow> sensor_reachable cf sn'"

section \<open>The state machine keeps its contract\<close>

inductive sensor_edge :: "sensor_state \<Rightarrow> sensor_state \<Rightarrow> bool" where
  "sensor_edge IDLE UNREGISTERED"
| "sensor_edge UNREGISTERED REGISTERING"
| "sensor_edge REGISTERING ACTIVE"
| "sensor_edge REGISTERING UNREGISTERED"
| "sensor_edge ACTIVE ACTIVE"
| "sensor_edge ACTIVE FAULT"
| "sensor_edge FAULT IDLE"

inductive_simps sensor_edge_simps [simp]:
  "sensor_edge IDLE t" "sensor_edge UNREGISTERED t" "sensor_edge REGISTERING t"
  "sensor_edge ACTIVE t" "sensor_edge FAULT t"

interpretation sensor_fsm: fsm sensor_name sensor_transitions sensor_edge sensor_switch_to
proof
  show "s = t" if "sensor_name s = sensor_name t" for s t
    using that by (cases s; cases t) simp_all
  show "sensor_edge s t \<longleftrightarrow> (sensor_name s, sensor_name t) \<in> set sensor_transitions" for s t
    by (cases s; cases t) (simp_all add: sensor_transitions_def)
qed (simp add: sensor_switch_to_def)

lemma switch_to_eq:
  "switch_to next sn =
     (if sensor_edge (sn_state sn) next then (sn\<lparr>sn_state := next\<rparr>, True) else (sn, False))"
  by (simp add: switch_to_def sensor_fsm.switch_cases)

section \<open>The measurements\<close>

lemma uint_lux_at: "uint (lux_at s) = 180 + s mod 60"
proof -
  have "0 \<le> s mod 60" "s mod 60 < 60" by simp_all
  then show ?thesis unfolding lux_at_def uint_word_of_int by (intro mod_pos_pos_trivial) simp_all
qed

lemma sint_temp_at: "sint (temp_at s) = 235 + (s div 20) mod 6"
proof -
  have "0 \<le> (s div 20) mod 6" "(s div 20) mod 6 < 6" by simp_all
  then show ?thesis
    unfolding temp_at_def by (subst signed_of_int) (simp add: signed_take_bit_int_eq_self)
qed

text \<open>What the sensor measured a second before; at the start the initial values.\<close>

definition sensor_ok :: "sensor_config \<Rightarrow> sensor \<Rightarrow> bool" where
  "sensor_ok cf sn \<longleftrightarrow>
     (if sn_seconds_elapsed sn = 0
      then sn_prev_lux sn = 200 \<and> sn_prev_motion sn = 0 \<and> sn_prev_temp_x10 sn = 235
      else sn_prev_lux sn = lux_at (sn_seconds_elapsed sn - 1)
         \<and> sn_prev_motion sn = motion_at (sn_seconds_elapsed sn - 1)
         \<and> sn_prev_temp_x10 sn = temp_at (sn_seconds_elapsed sn - 1))
     \<and> 0 \<le> sn_seconds_elapsed sn
     \<and> sn_state sn \<in> {REGISTERING, ACTIVE, FAULT}
     \<and> (sn_state sn = REGISTERING \<longrightarrow> sn_ack_timer sn)
     \<and> (sn_state sn = FAULT \<and> sc_fault_reset_after_s cf > 0 \<longrightarrow> sn_reset_timer sn)"

lemma simulate_fault_cases:
  "simulate_fault cf rnd sn =
     (if sn_state sn = ACTIVE \<and> 0 < sc_fault_prob_per_mille cf \<and> rnd \<le> sc_fault_prob_per_mille cf
      then (arm_fault_reset cf (sn\<lparr>sn_state := FAULT\<rparr>), [telemetry_packet (sc_uri cf) (sc_zone cf) 0 254 0])
      else (sn, []))"
  by (simp add: simulate_fault_def switch_to_eq)

lemma tick_cases:
  "tick cf rnd sn =
     (let s = sn_seconds_elapsed sn;
          faulty = (sn_state sn = ACTIVE \<and> 0 < sc_fault_prob_per_mille cf \<and> rnd \<le> sc_fault_prob_per_mille cf);
          reporting = (sn_state sn = ACTIVE \<and> \<not> faulty \<and> (report_due cf sn \<or> heartbeat_due cf sn))
      in (sn\<lparr>sn_state := (if faulty then FAULT else sn_state sn),
             sn_reset_timer := (sn_reset_timer sn \<or> faulty \<and> sc_fault_reset_after_s cf > 0),
             sn_last_heartbeat := (if reporting \<and> heartbeat_due cf sn then s else sn_last_heartbeat sn),
             sn_prev_motion := motion_at s, sn_prev_lux := lux_at s, sn_prev_temp_x10 := temp_at s,
             sn_seconds_elapsed := s + 1\<rparr>,
          if faulty then [telemetry_packet (sc_uri cf) (sc_zone cf) 0 254 0]
          else if reporting then [telemetry_packet (sc_uri cf) (sc_zone cf) (lux_at s) (motion_at s) (temp_at s)]
          else []))"
  by (cases sn) (auto simp: tick_def simulate_fault_cases arm_fault_reset_def switch_to_eq Let_def)

lemma sensor_ok_boot: "sensor_ok cf boot_sensor"
  by (simp add: boot_sensor_def switch_to_eq initial_sensor_def sensor_ok_def)

lemma sensor_ok_handlers:
  assumes "sensor_ok cf sn"
  shows "sensor_ok cf (ack_demo sn)" "sensor_ok cf (fault_reset sn)" "sensor_ok cf (fst (tick cf rnd sn))"
proof -
  show "sensor_ok cf (ack_demo sn)" "sensor_ok cf (fault_reset sn)"
    using assms
    by (cases "sn_state sn"; simp add: ack_demo_def fault_reset_def switch_to_eq sensor_ok_def)+
  show "sensor_ok cf (fst (tick cf rnd sn))"
    using assms by (auto simp: tick_cases Let_def sensor_ok_def)
qed

lemma sensor_ok_step:
  assumes "sensor_step cf sn e out sn'" "sensor_ok cf sn"
  shows "sensor_ok cf sn'"
  using assms(1) sensor_ok_handlers [OF assms(2)]
  by (cases rule: sensor_step.cases) (simp_all, metis fst_conv)

lemma sensor_ok_reachable: "sensor_reachable cf sn \<Longrightarrow> sensor_ok cf sn"
  by (induction rule: sensor_reachable.induct) (auto intro: sensor_ok_boot sensor_ok_step)

lemma temp_step: "\<bar>sint (temp_at s) - sint (temp_at t)\<bar> \<le> 5"
proof -
  have "\<bar>235 + a - (235 + b)\<bar> \<le> 5" if "0 \<le> a" "a < 6" "0 \<le> b" "b < 6" for a b :: int
    using that by arith
  then show ?thesis unfolding sint_temp_at by simp
qed

lemma mod_pred:
  assumes "1 < (k :: int)"
  shows "(s - 1) mod k = (if s mod k = 0 then k - 1 else s mod k - 1)"
proof -
  have bounds: "0 \<le> s mod k" "s mod k < k" using assms by simp_all
  have "(s mod k - 1) mod k = s mod k - 1" if "s mod k \<noteq> 0"
    by (rule mod_pos_pos_trivial) (use bounds that in linarith)+
  moreover have "(s - 1) mod k = (s mod k - 1) mod k" by (simp add: mod_diff_left_eq)
  ultimately show ?thesis using assms by (cases "s mod k = 0") (simp_all add: zmod_minus1)
qed

lemma lux_step: "\<bar>uint (lux_at s) - uint (lux_at (s - 1))\<bar> = (if s mod 60 = 0 then 59 else 1)"
proof -
  have "0 \<le> s mod 60" by simp
  then show ?thesis unfolding uint_lux_at by (simp add: mod_pred)
qed

lemma motion_at_edges:
  "(motion_at (s - 1) = 0 \<and> motion_at s = 1) = (s mod 7 = 0)"
  "(motion_at (s - 1) = 1 \<and> motion_at s = 0) = (s mod 7 = 1)"
  unfolding motion_at_def by (auto simp: mod_pred)

lemma default_reports:
  assumes "sensor_ok cf sn" "sn_state sn = ACTIVE"
    and "20 < sc_lux_threshold cf" "sc_lux_threshold cf \<le> 59" "5 < sint (sc_temp_threshold_x10 cf)"
    and "sc_fault_prob_per_mille cf < rnd"
  shows "(snd (tick cf rnd sn) \<noteq> []) =
    (let s = sn_seconds_elapsed sn
     in s mod 7 \<in> {0, 1} \<or> 0 < s \<and> s mod 60 = 0 \<or> heartbeat_due cf sn)"
proof -
  let ?s = "sn_seconds_elapsed sn"
  have thr: "20 < uint (sc_lux_threshold cf)" "uint (sc_lux_threshold cf) \<le> 59"
    using assms(3,4) by (simp_all add: word_less_def word_le_def)
  have "report_due cf sn = (?s mod 7 \<in> {0, 1} \<or> 0 < ?s \<and> ?s mod 60 = 0)"
  proof (cases "?s = 0")
    case True
    with assms(1) show ?thesis by (simp add: report_due_def sensor_ok_def motion_at_def)
  next
    case False
    with assms(1) have prev: "sn_prev_lux sn = lux_at (?s - 1)" "sn_prev_motion sn = motion_at (?s - 1)"
        "sn_prev_temp_x10 sn = temp_at (?s - 1)" "0 < ?s"
      by (simp_all add: sensor_ok_def)
    have "(uint (sc_lux_threshold cf) \<le> \<bar>uint (lux_at ?s) - uint (lux_at (?s - 1))\<bar>) = (?s mod 60 = 0)"
      using thr unfolding lux_step by simp
    moreover have "\<not> sint (sc_temp_threshold_x10 cf) \<le> \<bar>sint (temp_at ?s) - sint (temp_at (?s - 1))\<bar>"
      using assms(5) temp_step [of ?s "?s - 1"] by linarith
    ultimately show ?thesis
      unfolding report_due_def Let_def prev motion_at_edges using prev(4) by auto
  qed
  moreover have "\<not> rnd \<le> sc_fault_prob_per_mille cf" using assms(6) by simp
  ultimately show ?thesis using assms(2) by (auto simp: tick_cases Let_def)
qed

section \<open>Properties\<close>

text \<open>
  Whatever timers fire and faults are simulated, a booted sensor that is not active either waits
  for its acknowledgement or is faulty, with its reset pending if there is one; it remembers exactly
  the measurements of the previous second; and a step sends at most one datagram, which the server
  reads back as the fault marker 254 exactly if the sensor became faulty, and otherwise as the
  present measurements, within 180..239 lux and 23.5..24.0 degrees.
\<close>

theorem sensor_step_sound:
  assumes "sensor_reachable cf sn" "sensor_step cf sn e out sn'"
  shows "sensor_ok cf sn' \<and> length out \<le> 1
    \<and> (\<forall>bs \<in> set out. case decode_telemetry bs of None \<Rightarrow> False | Some t \<Rightarrow>
         rd_uri t = take 47 (c_str (sc_uri cf)) \<and> rd_zone_id t = sc_zone cf
         \<and> (if sn_state sn' = FAULT then rd_motion t = 254 \<and> sn_state sn = ACTIVE
            else rd_motion t = motion_at (sn_seconds_elapsed sn)
              \<and> uint (rd_lux t) = 180 + sn_seconds_elapsed sn mod 60
              \<and> rd_temp10 t = 235 + sn_seconds_elapsed sn div 20 mod 6))"
proof -
  have "sensor_ok cf sn'" by (rule sensor_ok_step [OF assms(2) sensor_ok_reachable [OF assms(1)]])
  moreover have "decode_telemetry (telemetry_packet u z l m t)
      = Some \<lparr>rd_uri = take 47 (c_str u), rd_zone_id = z, rd_lux = l, rd_motion = m, rd_temp10 = sint t\<rparr>"
    for u z l m t
    using telemetry_decoded [of u z l m t "[]"] by simp
  ultimately show ?thesis
    using assms(2)
    by (auto elim!: sensor_step.cases simp: tick_cases Let_def uint_lux_at
        sint_temp_at split: if_splits)
qed

definition example_sensor :: sensor_config where
  "example_sensor = \<lparr>sc_uri = ''s1'', sc_zone = 1, sc_lux_threshold = 25, sc_temp_threshold_x10 = 10,
     sc_heartbeat_s = 30, sc_fault_prob_per_mille = 5, sc_fault_reset_after_s = 10\<rparr>"

definition active_sensor :: sensor where
  "active_sensor = ack_demo boot_sensor"

lemma active_sensor_eq: "active_sensor = initial_sensor\<lparr>sn_state := ACTIVE\<rparr>"
  by (simp add: active_sensor_def ack_demo_def boot_sensor_def switch_to_eq initial_sensor_def)

lemma active_sensor_reachable: "sensor_reachable cf active_sensor"
proof -
  have "sn_ack_timer boot_sensor" by (simp add: boot_sensor_def switch_to_eq initial_sensor_def)
  from stepped [OF booted acked [OF this]] show ?thesis by (simp add: active_sensor_def)
qed

lemma sensor_step_sound_witness:
  "sensor_ok example_sensor (fst (tick example_sensor 3 active_sensor))
   \<and> sn_state (fst (tick example_sensor 3 active_sensor)) = FAULT"
proof -
  have "sensor_step example_sensor active_sensor (Tick 3) (snd (tick example_sensor 3 active_sensor))
      (fst (tick example_sensor 3 active_sensor))"
    by (rule ticked) simp
  from sensor_step_sound [OF active_sensor_reachable this] show ?thesis
    by (simp add: tick_cases active_sensor_eq initial_sensor_def example_sensor_def Let_def)
qed

text \<open>
  Which ticks of an active sensor report, for every light threshold of 21 to 59 and temperature
  threshold above 0.5 degrees, the defaults 25 and 1.0 among them: those at which the motion starts
  or ends, those at which the simulated light wraps, and those at which a heartbeat is due; the
  temperature never causes a report.
\<close>

theorem default_thresholds_report:
  assumes "sensor_reachable cf sn" "sn_state sn = ACTIVE"
    and "20 < sc_lux_threshold cf" "sc_lux_threshold cf \<le> 59" "5 < sint (sc_temp_threshold_x10 cf)"
    and "sc_fault_prob_per_mille cf < rnd"
  shows "(snd (tick cf rnd sn) \<noteq> []) =
    (let s = sn_seconds_elapsed sn
     in s mod 7 \<in> {0, 1} \<or> 0 < s \<and> s mod 60 = 0 \<or> heartbeat_due cf sn)"
  by (rule default_reports [OF sensor_ok_reachable [OF assms(1)] assms(2-6)])

lemma default_thresholds_report_witness:
  "snd (tick example_sensor 6 active_sensor) \<noteq> []"
proof -
  have "5 < sint (sc_temp_threshold_x10 example_sensor)" by (simp add: example_sensor_def)
  with default_thresholds_report [OF active_sensor_reachable, of example_sensor 6] show ?thesis
    by (simp add: active_sensor_eq initial_sensor_def example_sensor_def Let_def)
qed

end
