(* ===== verification/Sensor_Link.thy ===== *)
theory Sensor_Link
  imports Sensor Udp_Server
begin

text \<open>
  A sensor and the UDP server of its region together: the datagrams that the ticks send are handled
  by the receive handler.
\<close>

section \<open>From the sensor to the motion callbacks\<close>

text \<open>The server handles the datagrams in the order in which they were sent, at the times given.\<close>

fun receive_all ::
  "u64 \<Rightarrow> bytes list \<Rightarrow> registry \<times> last_motion \<Rightarrow> ((registry \<times> last_motion) \<times> udp_event list) option"
  where
  "receive_all now [] s = Some (s, [])"
| "receive_all now (d # ds) s =
     (case udp_receive now False d s of
        None \<Rightarrow> None
      | Some (s', evs) \<Rightarrow> map_option (\<lambda>(s'', evs'). (s'', evs @ evs')) (receive_all now ds s'))"

text \<open>A sensor whose datagrams all arrive: for each tick its random number and the time of arrival.\<close>

fun watch ::
  "sensor_config \<Rightarrow> (u32 \<times> u64) list \<Rightarrow> sensor \<Rightarrow> registry \<times> last_motion
     \<Rightarrow> (sensor \<times> (registry \<times> last_motion) \<times> udp_event list) option" where
  "watch cf [] sn s = Some (sn, s, [])"
| "watch cf ((rnd, now) # ts) sn s =
     (case tick cf rnd sn of (sn', out) \<Rightarrow>
        case receive_all now out s of
          None \<Rightarrow> None
        | Some (s', evs) \<Rightarrow> map_option (\<lambda>(sn'', s'', evs'). (sn'', s'', evs @ evs')) (watch cf ts sn' s'))"

definition udp_name :: "sensor_config \<Rightarrow> string" where
  "udp_name cf = take 47 (c_str (sc_uri cf))"

definition motion_callback :: "sensor_config \<Rightarrow> int \<Rightarrow> udp_event list" where
  "motion_callback cf s =
     (if s mod 7 = 0 then [Motion_on (sc_zone cf) (udp_name cf)]
      else if s mod 7 = 1 then [Motion_off (sc_zone cf) (udp_name cf)] else [])"

lemma receive_packet:
  "udp_receive now False (telemetry_packet (sc_uri cf) zone lux motion temp) s =
     Some (on_reading now \<lparr>rd_uri = udp_name cf, rd_zone_id = zone, rd_lux = lux,
       rd_motion = motion, rd_temp10 = sint temp\<rparr> s)"
  using telemetry_decoded [of "sc_uri cf" zone lux motion temp "[]"]
  by (simp add: udp_receive_def udp_name_def)

lemma server_edge_of_reading:
  assumes "rd_motion t \<in> {0, 1}"
  shows "snd (on_reading now t s) = (let prev = get_default 0 (snd s) (rd_uri t)
      in (if prev = 0 \<and> rd_motion t = 1 then [Motion_on (rd_zone_id t) (rd_uri t)] else [])
         @ (if prev = 1 \<and> rd_motion t = 0 then [Motion_off (rd_zone_id t) (rd_uri t)] else []))"
  using assms
  by (auto simp: on_reading_def mark_sensor_fault_def motion_edge_def Let_def get_default_def
      split: prod.split)

lemma motion_at_cases: "motion_at s \<in> {0, 1}"
  by (simp add: motion_at_def)

lemma previous_motion:
  assumes "sensor_ok cf sn"
  shows "(sn_prev_motion sn = 0 \<and> motion_at (sn_seconds_elapsed sn) = 1) = (sn_seconds_elapsed sn mod 7 = 0)"
    and "(sn_prev_motion sn = 1 \<and> motion_at (sn_seconds_elapsed sn) = 0) = (sn_seconds_elapsed sn mod 7 = 1)"
  using assms motion_at_edges [of "sn_seconds_elapsed sn"]
  by (auto simp: sensor_ok_def motion_at_def split: if_splits)

text \<open>One tick without fault: the server sees exactly the edge of the measured motion, if any.\<close>

lemma watch_tick:
  assumes "sensor_ok cf sn" "sn_state sn = ACTIVE" "sc_fault_prob_per_mille cf < rnd"
    and "get_default 0 (snd s) (udp_name cf) = sn_prev_motion sn"
  shows "\<exists>s'. receive_all now (snd (tick cf rnd sn)) s = Some (s', motion_callback cf (sn_seconds_elapsed sn))
    \<and> get_default 0 (snd s') (udp_name cf) = motion_at (sn_seconds_elapsed sn)"
proof -
  let ?s = "sn_seconds_elapsed sn"
  have quiet: "\<not> rnd \<le> sc_fault_prob_per_mille cf" using assms(3) by simp
  note prev = previous_motion [OF assms(1)]
  show ?thesis
  proof (cases "report_due cf sn \<or> heartbeat_due cf sn")
    case True
    then have "snd (tick cf rnd sn) = [telemetry_packet (sc_uri cf) (sc_zone cf) (lux_at ?s) (motion_at ?s) (temp_at ?s)]"
      using assms(2) quiet by (simp add: tick_cases Let_def)
    moreover let ?t = "\<lparr>rd_uri = udp_name cf, rd_zone_id = sc_zone cf, rd_lux = lux_at ?s,
        rd_motion = motion_at ?s, rd_temp10 = sint (temp_at ?s)\<rparr>"
    obtain s' evs where r: "on_reading now ?t s = (s', evs)" by fastforce
    moreover have "evs = motion_callback cf ?s"
      using server_edge_of_reading [of ?t now s] r prev motion_at_cases [of ?s]
      by (auto simp: Let_def assms(4) motion_callback_def)
    moreover have "get_default 0 (snd s') (udp_name cf) = motion_at ?s"
      using last_motion_of_reading [of now ?t s "udp_name cf"] r motion_at_cases [of ?s] by auto
    ultimately show ?thesis by (simp add: receive_packet)
  next
    case False
    then have "snd (tick cf rnd sn) = []" "?s mod 7 \<noteq> 0" "?s mod 7 \<noteq> 1"
      using assms(2) quiet prev by (auto simp: tick_cases report_due_def Let_def)
    moreover have "sn_prev_motion sn = motion_at ?s"
      using False prev motion_at_cases [of ?s] assms(1)
      by (auto simp: report_due_def Let_def sensor_ok_def motion_at_def split: if_splits)
    ultimately show ?thesis by (simp add: motion_callback_def assms(4))
  qed
qed

lemma tick_quiet:
  assumes "sn_state sn = ACTIVE" "sc_fault_prob_per_mille cf < rnd"
  shows "sn_state (fst (tick cf rnd sn)) = ACTIVE"
    and "sn_seconds_elapsed (fst (tick cf rnd sn)) = sn_seconds_elapsed sn + 1"
    and "sn_prev_motion (fst (tick cf rnd sn)) = motion_at (sn_seconds_elapsed sn)"
proof -
  have "\<not> rnd \<le> sc_fault_prob_per_mille cf" using assms(2) by simp
  then show "sn_state (fst (tick cf rnd sn)) = ACTIVE"
    "sn_seconds_elapsed (fst (tick cf rnd sn)) = sn_seconds_elapsed sn + 1"
    "sn_prev_motion (fst (tick cf rnd sn)) = motion_at (sn_seconds_elapsed sn)"
    using assms(1) by (simp_all add: tick_cases Let_def)
qed

lemma watch_quiet:
  assumes "sensor_ok cf sn" "sn_state sn = ACTIVE" "\<forall>(rnd, now) \<in> set ts. sc_fault_prob_per_mille cf < rnd"
    and "get_default 0 (snd s) (udp_name cf) = sn_prev_motion sn"
  shows "\<exists>sn' s'. watch cf ts sn s = Some (sn', s', concat (map (motion_callback cf)
    [sn_seconds_elapsed sn .. sn_seconds_elapsed sn + int (length ts) - 1]))"
  using assms
proof (induction ts arbitrary: sn s)
  case (Cons x ts)
  obtain rnd now where x: "x = (rnd, now)" by (cases x)
  obtain sn1 out where t: "tick cf rnd sn = (sn1, out)" by (cases "tick cf rnd sn")
  let ?s = "sn_seconds_elapsed sn"
  have q: "sc_fault_prob_per_mille cf < rnd" using Cons.prems(3) by (simp add: x)
  from watch_tick [OF Cons.prems(1,2) q Cons.prems(4), of now] t obtain s1
    where s1: "receive_all now out s = Some (s1, motion_callback cf ?s)"
      "get_default 0 (snd s1) (udp_name cf) = motion_at ?s" by auto
  note sn1 = tick_quiet [OF Cons.prems(2) q, unfolded t fst_conv]
  have "sensor_ok cf sn1" using sensor_ok_handlers(3) [OF Cons.prems(1), of rnd] by (simp add: t)
  from Cons.IH [OF this sn1(1), of s1] Cons.prems(3) obtain sn' s' where
    "watch cf ts sn1 s1 = Some (sn', s', concat (map (motion_callback cf) [?s + 1 .. ?s + int (length ts)]))"
    by (auto simp: s1(2) sn1 algebra_simps)
  moreover have "[?s .. ?s + int (length ts)] = ?s # [?s + 1 .. ?s + int (length ts)]"
    by (rule upto_rec1) simp
  ultimately show ?case by (simp add: x t s1(1))
qed simp

section \<open>Properties\<close>

text \<open>
  The motion signal reaches the callbacks without loss, repetition or delay: while a sensor
  simulates no fault and its datagrams arrive, the server calls back exactly once at every start of
  motion, with the sensor's zone and the URI cut to 47 characters, and exactly once a second later when
  it ends, whatever the thresholds and the heartbeat, and raises no fault.
\<close>

theorem motion_reaches_callbacks:
  assumes "\<forall>(rnd, now) \<in> set ts. sc_fault_prob_per_mille cf < rnd" "get_default 0 lm (udp_name cf) = 0"
  shows "\<exists>sn s. watch cf ts active_sensor (reg, lm)
    = Some (sn, s, concat (map (motion_callback cf) [0 .. int (length ts) - 1]))"
proof -
  have ok: "sensor_ok cf active_sensor" by (rule sensor_ok_reachable [OF active_sensor_reachable])
  have "sn_state active_sensor = ACTIVE" "sn_seconds_elapsed active_sensor = 0" "sn_prev_motion active_sensor = 0"
    by (simp_all add: active_sensor_eq initial_sensor_def)
  with watch_quiet [OF ok _ assms(1), of "(reg, lm)"] assms(2) show ?thesis by simp
qed

lemma motion_reaches_callbacks_witness:
  "\<exists>sn s. watch example_sensor [(6, 100), (700, 101), (7, 102)] active_sensor (empty_registry, [])
     = Some (sn, s, [Motion_on 1 ''s1'', Motion_off 1 ''s1''])"
proof -
  have r: "\<forall>(rnd, now) \<in> set [(6, 100), (700, 101), (7, 102)]. sc_fault_prob_per_mille example_sensor < rnd"
    by (simp add: example_sensor_def)
  have e: "get_default 0 [] (udp_name example_sensor) = 0" by (simp add: get_default_def)
  have u: "udp_name example_sensor = ''s1''" "sc_zone example_sensor = 1"
    by (simp_all add: udp_name_def example_sensor_def c_str_id)
  from motion_reaches_callbacks [OF r e, of empty_registry] show ?thesis
    by (simp add: motion_callback_def u upto.simps)
qed

text \<open>
  The end of a motion that falls into the second of a simulated fault is lost: the server gets
  the fault marker instead and keeps the sensor's motion as present; the sensor takes note of the
  end, and after its reset, with nothing else to report, the next tick sends nothing, so that the
  lamps of the zone stay on.
\<close>

theorem motion_end_lost_in_fault:
  assumes "sensor_reachable cf sn" "sn_state sn = ACTIVE" "sn_seconds_elapsed sn mod 7 = 1"
    and "0 < sc_fault_prob_per_mille cf" "rnd \<le> sc_fault_prob_per_mille cf" "sc_fault_prob_per_mille cf < rnd'"
    and "20 < sc_lux_threshold cf" "sc_lux_threshold cf \<le> 59" "5 < sint (sc_temp_threshold_x10 cf)"
    and "(sn_seconds_elapsed sn + 1) mod 60 \<noteq> 0" "\<not> heartbeat_due cf (fault_reset (fst (tick cf rnd sn)))"
    and "get_default 0 (snd s) (udp_name cf) = 1"
  shows "\<exists>s'. receive_all now (snd (tick cf rnd sn)) s
      = Some (s', [Sensor_fault (sc_zone cf) (udp_name cf) 1])
    \<and> get_default 0 (snd s') (udp_name cf) = 1
    \<and> sn_state (fault_reset (fst (tick cf rnd sn))) = ACTIVE
    \<and> snd (tick cf rnd' (fault_reset (fst (tick cf rnd sn)))) = []"
proof -
  let ?s = "sn_seconds_elapsed sn" and ?sn = "fault_reset (fst (tick cf rnd sn))"
  let ?t = "\<lparr>rd_uri = udp_name cf, rd_zone_id = sc_zone cf, rd_lux = 0, rd_motion = 254,
      rd_temp10 = sint (0 :: u16)\<rparr>"
  have out: "snd (tick cf rnd sn) = [telemetry_packet (sc_uri cf) (sc_zone cf) 0 254 0]"
    and sn: "sn_state ?sn = ACTIVE" "sn_seconds_elapsed ?sn = ?s + 1"
    using assms(2,4,5) by (simp_all add: tick_cases Let_def fault_reset_def switch_to_eq)
  have "receive_all now (snd (tick cf rnd sn)) s = Some (fst (on_reading now ?t s), snd (on_reading now ?t s))"
    unfolding out by (simp add: receive_packet split: prod.split)
  moreover have "snd (on_reading now ?t s) = [Sensor_fault (sc_zone cf) (udp_name cf) 1]"
    by (simp add: on_reading_def mark_sensor_fault_def motion_edge_def Let_def split: prod.split)
  moreover have "get_default 0 (snd (fst (on_reading now ?t s))) (udp_name cf) = 1"
    by (simp add: last_motion_of_reading assms(12))
  moreover have "snd (tick cf rnd' ?sn) = []"
  proof -
    have "(?s + 1) mod 7 = 2" using assms(3) by presburger
    moreover have "sensor_ok cf ?sn"
      by (intro sensor_ok_handlers sensor_ok_reachable assms(1))
    ultimately show ?thesis
      using default_reports [OF _ sn(1) assms(7-9,6)] sn(2) assms(10,11) by simp
  qed
  ultimately show ?thesis
    using sn(1) by (intro exI [of _ "fst (on_reading now ?t s)"]) (simp add: prod_eq_iff)
qed

lemma motion_end_lost_in_fault_witness:
  "\<exists>s'. receive_all 9 (snd (tick example_sensor 5 (fst (tick example_sensor 6 active_sensor))))
      (empty_registry, [(''s1'', 1)]) = Some (s', [Sensor_fault 1 ''s1'' 1])"
proof -
  let ?sn = "fst (tick example_sensor 6 active_sensor)"
  have "sensor_reachable example_sensor ?sn"
    by (rule stepped [OF active_sensor_reachable ticked]) (rule surjective_pairing)
  moreover have "udp_name example_sensor = ''s1''" by (simp add: udp_name_def example_sensor_def c_str_id)
  moreover have "\<not> heartbeat_due example_sensor (fault_reset (fst (tick example_sensor 5 ?sn)))"
    "sn_state ?sn = ACTIVE" "sn_seconds_elapsed ?sn = 1"
    by (simp_all add: heartbeat_due_def tick_cases active_sensor_eq initial_sensor_def example_sensor_def
        Let_def fault_reset_def switch_to_eq)
  moreover have "get_default 0 [(''s1'', 1)] ''s1'' = 1" by (simp add: get_default_def)
  ultimately show ?thesis
    using motion_end_lost_in_fault [of example_sensor ?sn 5 6 "(empty_registry, [(''s1'', 1)])" 9]
    by (simp add: example_sensor_def) blast
qed

end
