(* ===== verification/Street_Light.thy ===== *)
theory Street_Light
  imports Lamp_Link Sensor_Link
begin

text \<open>
  A zone at work: a sensor, the region and a lamp, second after second. In each second the region first
  handles the other events of that second (its timer, the connections of other devices, status reports
  of the lamp), then the sensor ticks, the region handles the datagrams of the tick, and the lamp handles
  the messages that the region queued for its session.
\<close>

section \<open>One second\<close>








definition no_alarm :: "region_effect list \<Rightarrow> bool" where
  "no_alarm out \<longleftrightarrow> list_all (\<lambda>e. case e of Alarm a \<Rightarrow> False | Db c \<Rightarrow> True) out"

section \<open>The region in a second\<close>






section \<open>The invariant\<close>










section \<open>The other events\<close>



lemma no_alarm_append [simp]: "no_alarm (xs @ ys) \<longleftrightarrow> no_alarm xs \<and> no_alarm ys"
  by (simp add: no_alarm_def)















section \<open>A second\<close>










section \<open>Property\<close>




end
