(* ===== verification/Database.thy ===== *)
theory Database
  imports Db_Writer
begin

text \<open>
  What the database writer leaves in the database: the schema (\<^verbatim>\<open>schema.sql\<close>), the SQL texts that
  \<^verbatim>\<open>db.cpp\<close> prepares, and the part of SQL that they use, as SQLite documents it: \<^verbatim>\<open>INSERT\<close> with
  column list and parameters, \<^verbatim>\<open>NOT NULL\<close>, \<^verbatim>\<open>DEFAULT\<close>, unique keys, \<^verbatim>\<open>OR IGNORE\<close> and
  \<^verbatim>\<open>ON CONFLICT DO UPDATE\<close>. A table is the list of its rows in the order of insertion; the
  \<^verbatim>\<open>AUTOINCREMENT\<close> columns, which number the rows and which no statement mentions, are left out.
\<close>

section \<open>The schema\<close>

datatype sql_value = Null | IntV int | TextV string

datatype affinity = INTEGER | TEXT

record column =
  col_name :: string
  col_type :: affinity
  col_not_null :: bool
  col_default :: sql_value

record table =
  tab_name :: string
  tab_columns :: "column list"
  tab_keys :: "string list list"

definition int_not_null :: "string \<Rightarrow> column" where
  "int_not_null n = \<lparr>col_name = n, col_type = INTEGER, col_not_null = True, col_default = Null\<rparr>"

definition int_default_0 :: "string \<Rightarrow> column" where
  "int_default_0 n = \<lparr>col_name = n, col_type = INTEGER, col_not_null = True, col_default = IntV 0\<rparr>"

definition text_not_null :: "string \<Rightarrow> column" where
  "text_not_null n = \<lparr>col_name = n, col_type = TEXT, col_not_null = True, col_default = Null\<rparr>"

definition int_nullable :: "string \<Rightarrow> column" where
  "int_nullable n = \<lparr>col_name = n, col_type = INTEGER, col_not_null = False, col_default = Null\<rparr>"

definition text_nullable :: "string \<Rightarrow> column" where
  "text_nullable n = \<lparr>col_name = n, col_type = TEXT, col_not_null = False, col_default = Null\<rparr>"

definition devices_table :: table where
  "devices_table = \<lparr>tab_name = ''devices'',
     tab_columns = [text_nullable ''uri'', int_not_null ''type'', int_not_null ''region_id'',
       int_not_null ''zone_id'', int_not_null ''last_seen_ms'', int_default_0 ''fault'',
       int_default_0 ''on_state'', int_default_0 ''intensity'', int_default_0 ''power_mw''],
     tab_keys = [[''uri'']]\<rparr>"

definition lamp_status_table :: table where
  "lamp_status_table = \<lparr>tab_name = ''lamp_status'',
     tab_columns = [int_not_null ''ts_ms'', text_not_null ''uri'', int_not_null ''region_id'',
       int_not_null ''zone_id'', int_not_null ''on_state'', int_not_null ''intensity'',
       int_not_null ''power_mw''],
     tab_keys = []\<rparr>"

definition faults_table :: table where
  "faults_table = \<lparr>tab_name = ''faults'',
     tab_columns = [int_not_null ''ts_ms'', text_not_null ''uri'', int_not_null ''region_id'',
       int_not_null ''zone_id'', int_not_null ''code'', text_nullable ''text''],
     tab_keys = []\<rparr>"

definition region_sync_table :: table where
  "region_sync_table = \<lparr>tab_name = ''region_sync'',
     tab_columns = [int_not_null ''ts_ms'', int_not_null ''region_id'', int_not_null ''version''],
     tab_keys = [[''region_id'', ''version'']]\<rparr>"

definition region_zone_power_table :: table where
  "region_zone_power_table = \<lparr>tab_name = ''region_zone_power'',
     tab_columns = [int_not_null ''ts_ms'', int_not_null ''region_id'', int_not_null ''version'',
       int_not_null ''zone_id'', int_not_null ''power_sum_mw''],
     tab_keys = []\<rparr>"

definition commands_table :: table where
  "commands_table = \<lparr>tab_name = ''commands'',
     tab_columns = [int_not_null ''ts_ms'', text_not_null ''uri'', int_not_null ''region_id'',
       int_not_null ''cmd'', int_not_null ''value'', text_nullable ''source''],
     tab_keys = []\<rparr>"

definition alarm_table :: table where
  "alarm_table = \<lparr>tab_name = ''alarm'',
     tab_columns = [int_nullable ''region_id'', int_nullable ''ts_unix'', int_nullable ''device_type'',
       int_nullable ''zone_id'', int_nullable ''code'', text_nullable ''uri'', text_nullable ''text''],
     tab_keys = []\<rparr>"

definition schema :: "table list" where
  "schema = [devices_table, lamp_status_table, faults_table, region_sync_table,
     region_zone_power_table, commands_table, alarm_table]"

section \<open>The prepared statements\<close>

datatype on_conflict =
    Abort
  | Ignore
  | Do_update "string list" "string list"

record insert_sql =
  ins_table :: string
  ins_columns :: "string list"
  ins_conflict :: on_conflict

definition sql_region_sync :: insert_sql where
  "sql_region_sync = \<lparr>ins_table = ''region_sync'', ins_columns = [''ts_ms'', ''region_id'', ''version''],
     ins_conflict = Ignore\<rparr>"

definition sql_region_zone_power :: insert_sql where
  "sql_region_zone_power = \<lparr>ins_table = ''region_zone_power'',
     ins_columns = [''ts_ms'', ''region_id'', ''version'', ''zone_id'', ''power_sum_mw''],
     ins_conflict = Abort\<rparr>"

definition sql_device_upsert :: insert_sql where
  "sql_device_upsert = \<lparr>ins_table = ''devices'',
     ins_columns = [''uri'', ''type'', ''region_id'', ''zone_id'', ''last_seen_ms'', ''fault'',
       ''on_state'', ''intensity'', ''power_mw''],
     ins_conflict = Do_update [''uri''] [''type'', ''region_id'', ''zone_id'', ''last_seen_ms'', ''fault'',
       ''on_state'', ''intensity'', ''power_mw'']\<rparr>"

definition sql_lamp_status :: insert_sql where
  "sql_lamp_status = \<lparr>ins_table = ''lamp_status'',
     ins_columns = [''ts_ms'', ''uri'', ''region_id'', ''zone_id'', ''on_state'', ''intensity'', ''power_mw''],
     ins_conflict = Abort\<rparr>"

definition sql_fault :: insert_sql where
  "sql_fault = \<lparr>ins_table = ''faults'',
     ins_columns = [''ts_ms'', ''uri'', ''region_id'', ''zone_id'', ''code'', ''text''],
     ins_conflict = Abort\<rparr>"

definition sql_command :: insert_sql where
  "sql_command = \<lparr>ins_table = ''commands'',
     ins_columns = [''ts_ms'', ''uri'', ''region_id'', ''cmd'', ''value'', ''source''],
     ins_conflict = Abort\<rparr>"

definition sql_alarm :: insert_sql where
  "sql_alarm = \<lparr>ins_table = ''alarm'',
     ins_columns = [''region_id'', ''ts_unix'', ''device_type'', ''zone_id'', ''code'', ''uri'', ''text''],
     ins_conflict = Abort\<rparr>"

fun prepared :: "sql_stmt \<Rightarrow> insert_sql" where
  "prepared (Insert_region_sync _ _ _) = sql_region_sync"
| "prepared (Insert_region_zone_power _ _ _ _ _) = sql_region_zone_power"
| "prepared (Upsert_device _ _ _ _ _ _ _ _ _) = sql_device_upsert"
| "prepared (Insert_lamp_status _ _ _ _ _ _ _) = sql_lamp_status"
| "prepared (Insert_fault _ _ _ _ _ _) = sql_fault"
| "prepared (Insert_command _ _ _ _ _ _) = sql_command"
| "prepared (Insert_alarm _ _ _ _ _ _ _) = sql_alarm"

text \<open>The values of the parameters, in the order of their numbers.\<close>

fun bound :: "sql_stmt \<Rightarrow> sql_value list" where
  "bound (Insert_region_sync ts r v) = [IntV ts, IntV r, IntV v]"
| "bound (Insert_region_zone_power ts r v z p) = [IntV ts, IntV r, IntV v, IntV z, IntV p]"
| "bound (Upsert_device u t r z ts f on i p) =
     [TextV u, IntV t, IntV r, IntV z, IntV ts, IntV f, IntV on, IntV i, IntV p]"
| "bound (Insert_lamp_status ts u r z on i p) = [IntV ts, TextV u, IntV r, IntV z, IntV on, IntV i, IntV p]"
| "bound (Insert_fault ts u r z c t) = [IntV ts, TextV u, IntV r, IntV z, IntV c, TextV t]"
| "bound (Insert_command ts u r c v src) = [IntV ts, TextV u, IntV r, IntV c, IntV v, TextV src]"
| "bound (Insert_alarm r ts d z c u t) = [IntV r, IntV ts, IntV d, IntV z, IntV c, TextV u, TextV t]"

section \<open>The SQL that is used\<close>

type_synonym sql_row = "sql_value list"

type_synonym sql_db = "string \<Rightarrow> sql_row list"

definition empty_db :: sql_db where
  "empty_db = (\<lambda>t. [])"

text \<open>What \<^verbatim>\<open>sqlite3_prepare_v2\<close> checks: the table and the columns exist, the conflict target is a key.\<close>

definition prepares :: "table list \<Rightarrow> insert_sql \<Rightarrow> bool" where
  "prepares tabs ins =
     (case find (\<lambda>t. tab_name t = ins_table ins) tabs of
        None \<Rightarrow> False
      | Some tab \<Rightarrow>
          list_all (List.member (map col_name (tab_columns tab))) (ins_columns ins)
          \<and> (case ins_conflict ins of
               Do_update target sets \<Rightarrow> List.member (tab_keys tab) target
                 \<and> list_all (List.member (map col_name (tab_columns tab))) sets
             | _ \<Rightarrow> True))"

definition new_row :: "table \<Rightarrow> insert_sql \<Rightarrow> sql_value list \<Rightarrow> sql_row" where
  "new_row tab ins vals =
     map (\<lambda>c. case map_of (zip (ins_columns ins) vals) (col_name c) of
         None \<Rightarrow> col_default c | Some v \<Rightarrow> v) (tab_columns tab)"

definition cell :: "table \<Rightarrow> sql_row \<Rightarrow> string \<Rightarrow> sql_value option" where
  "cell tab row n = map_of (zip (map col_name (tab_columns tab)) row) n"

definition same_key :: "table \<Rightarrow> string list \<Rightarrow> sql_row \<Rightarrow> sql_row \<Rightarrow> bool" where
  "same_key tab ns r r' =
     (map (cell tab r) ns = map (cell tab r') ns \<and> \<not> List.member (map (cell tab r) ns) (Some Null))"

definition null_violation :: "table \<Rightarrow> sql_row \<Rightarrow> bool" where
  "null_violation tab r = list_ex (\<lambda>(c, v). col_not_null c \<and> v = Null) (zip (tab_columns tab) r)"

definition set_cells :: "table \<Rightarrow> string list \<Rightarrow> sql_row \<Rightarrow> sql_row \<Rightarrow> sql_row" where
  "set_cells tab ns excluded r =
     map (\<lambda>(c, v, v'). if List.member ns (col_name c) then v else v')
       (zip (tab_columns tab) (zip excluded r))"

definition exec_insert ::
  "table \<Rightarrow> insert_sql \<Rightarrow> sql_value list \<Rightarrow> sql_row list \<Rightarrow> bool \<times> sql_row list" where
  "exec_insert tab ins vals rows =
     (let r = new_row tab ins vals;
          conflict = list_ex (\<lambda>ns. list_ex (same_key tab ns r) rows) (tab_keys tab)
      in if null_violation tab r then (ins_conflict ins = Ignore, rows)
         else case ins_conflict ins of
             Abort \<Rightarrow> if conflict then (False, rows) else (True, rows @ [r])
           | Ignore \<Rightarrow> if conflict then (True, rows) else (True, rows @ [r])
           | Do_update target sets \<Rightarrow>
               if list_ex (same_key tab target r) rows
               then (True, map (\<lambda>r'. if same_key tab target r r' then set_cells tab sets r r' else r') rows)
               else if conflict then (False, rows) else (True, rows @ [r]))"

definition sql_exec :: "sql_db \<Rightarrow> sql_stmt \<Rightarrow> bool \<times> sql_db" where
  "sql_exec d s =
     (case find (\<lambda>t. tab_name t = ins_table (prepared s)) schema of
        None \<Rightarrow> (False, d)
      | Some tab \<Rightarrow>
          (let (ok, rows) = exec_insert tab (prepared s) (bound s) (d (tab_name tab))
           in (ok, d(tab_name tab := rows))))"

lemmas column_defs = int_not_null_def int_default_0_def text_not_null_def int_nullable_def text_nullable_def

lemmas table_defs = devices_table_def lamp_status_table_def faults_table_def region_sync_table_def
  region_zone_power_table_def commands_table_def alarm_table_def

lemmas sql_defs = sql_region_sync_def sql_region_zone_power_def sql_device_upsert_def sql_lamp_status_def
  sql_fault_def sql_command_def sql_alarm_def

section \<open>The writer on a database\<close>

text \<open>The runs of the writer with their actions, and the statements run directly in them.\<close>

inductive db_run ::
  "('db \<Rightarrow> sql_stmt \<Rightarrow> bool \<times> 'db) \<Rightarrow> 'db \<Rightarrow> db_action list \<Rightarrow> 'db db_writer \<Rightarrow> bool"
  for exec d where
  run_started: "start (Some d) new_writer = Some w \<Longrightarrow> db_run exec d [] w"
| run_stepped: "db_run exec d as w \<Longrightarrow> db_step exec w a w' \<Longrightarrow> db_run exec d (as @ [a]) w'"

fun direct_stmt :: "db_action \<Rightarrow> sql_stmt list" where
  "direct_stmt (Call (Direct s)) = [s]"
| "direct_stmt _ = []"

definition directs :: "db_action list \<Rightarrow> sql_stmt list" where
  "directs as = concat (map direct_stmt as)"

definition event_stmts :: "db_event list \<Rightarrow> sql_stmt list" where
  "event_stmts evs = concat (map handle evs)"

lemma db_run_reachable: "db_run exec d as w \<Longrightarrow> db_reachable exec d w"
  by (induction rule: db_run.induct) (auto intro: db_reachable.intros)

lemma shuffles_append:
  "zs \<in> shuffles xs ys \<Longrightarrow> zs @ us \<in> shuffles (xs @ us) ys \<and> zs @ us \<in> shuffles xs (ys @ us)"
proof (induction zs arbitrary: xs ys)
  case (Cons z zs)
  consider xs' where "xs = z # xs'" "zs \<in> shuffles xs' ys" | ys' where "ys = z # ys'" "zs \<in> shuffles xs ys'"
    using Cons.prems by (cases xs; cases ys) (auto simp: Cons_in_shuffles_iff)
  then show ?case
    by cases (auto intro: Cons_in_shuffles_leftI Cons_in_shuffles_rightI dest: Cons.IH)
qed simp

text \<open>
  What the writer relies on: the database accepts every statement, and \<open>holds ss d\<close> says that \<open>d\<close> is
  what the statements \<open>ss\<close> have made of the empty one. Then in every run it holds the statements of
  the handled events shuffled with those that handlers ran directly.
\<close>

locale statement_log =
  fixes exec :: "'db \<Rightarrow> sql_stmt \<Rightarrow> bool \<times> 'db" and empty :: 'db
    and holds :: "sql_stmt list \<Rightarrow> 'db \<Rightarrow> bool"
  assumes holds_empty: "holds [] empty"
    and holds_exec: "holds ss d \<Longrightarrow> \<exists>d'. exec d s = (True, d') \<and> holds (ss @ [s]) d'"
begin

lemma holds_run:
  "holds ss d \<Longrightarrow> \<exists>d'. run_stmts exec d ss' = (True, d') \<and> holds (ss @ ss') d'"
proof (induction ss' arbitrary: ss d)
  case (Cons s ss')
  obtain d1 where d1: "exec d s = (True, d1)" "holds (ss @ [s]) d1"
    using holds_exec [OF Cons.prems] by blast
  from Cons.IH [OF d1(2)] d1(1) show ?case by simp
qed simp

lemma run_holds:
  assumes "db_run exec empty as w" "db w = Some d"
  shows "\<exists>ss \<in> shuffles (event_stmts (handled w)) (directs as). holds ss d"
  using assms
proof (induction arbitrary: d rule: db_run.induct)
  case (run_started w)
  then show ?case
    using holds_empty by (auto simp: start_def new_writer_def event_stmts_def directs_def)
next
  case (run_stepped as w a w')
  have keep: ?case if "db w' = db w" "handled w' = handled w" "direct_stmt a = []"
    using run_stepped.IH [of d] run_stepped.prems that by (simp add: directs_def)
  show ?case
  proof (cases a)
    case (Call c)
    show ?thesis
    proof (cases c)
      case (Direct s)
      then have w': "w' = log_direct exec s w" using run_stepped.hyps(2) Call by simp
      then obtain d0 where d0: "db w = Some d0" "d = snd (exec d0 s)"
        using run_stepped.prems by (auto simp: log_direct_def)
      obtain ss where ss: "ss \<in> shuffles (event_stmts (handled w)) (directs as)" "holds ss d0"
        using run_stepped.IH [OF d0(1)] by blast
      have "holds (ss @ [s]) d" using holds_exec [OF ss(2), of s] d0(2) by auto
      moreover have "ss @ [s] \<in> shuffles (event_stmts (handled w')) (directs (as @ [a]))"
        using shuffles_append [OF ss(1), of "[s]"] Call Direct by (simp add: w' log_direct_def directs_def)
      ultimately show ?thesis by blast
    qed (use keep run_stepped.hyps(2) Call in \<open>auto simp: enqueue_def\<close>)
  next
    case Handle
    then obtain ev where ev: "worker w = Handling ev" "handled w' = handled w @ [ev]"
      "db w' = map_option (\<lambda>d. snd (run_stmts exec d (handle ev))) (db w)"
      using run_stepped.hyps(2) by (auto simp: worker_handle_def split: worker.splits)
    then obtain d0 where d0: "db w = Some d0" "d = snd (run_stmts exec d0 (handle ev))"
      using run_stepped.prems by (cases "db w") auto
    obtain ss where ss: "ss \<in> shuffles (event_stmts (handled w)) (directs as)" "holds ss d0"
      using run_stepped.IH [OF d0(1)] by blast
    have "holds (ss @ handle ev) d" using holds_run [OF ss(2), of "handle ev"] d0(2) by auto
    moreover have "ss @ handle ev \<in> shuffles (event_stmts (handled w')) (directs (as @ [a]))"
      using shuffles_append [OF ss(1), of "handle ev"] Handle by (simp add: ev event_stmts_def directs_def)
    ultimately show ?thesis by blast
  qed (use keep run_stepped.hyps(2) run_stepped.prems in
      \<open>auto simp: worker_take_def stop_begin_def stop_end_def split: if_splits list.splits\<close>)
qed

end

section \<open>Each statement on the tables\<close>

text \<open>The rows of the two tables with a key, as keys and values.\<close>

definition device_row :: "string \<times> int list \<Rightarrow> sql_row" where
  "device_row uv = TextV (fst uv) # map IntV (snd uv)"

fun table_of :: "sql_stmt \<Rightarrow> table" where
  "table_of (Insert_region_sync _ _ _) = region_sync_table"
| "table_of (Insert_region_zone_power _ _ _ _ _) = region_zone_power_table"
| "table_of (Upsert_device _ _ _ _ _ _ _ _ _) = devices_table"
| "table_of (Insert_lamp_status _ _ _ _ _ _ _) = lamp_status_table"
| "table_of (Insert_fault _ _ _ _ _ _) = faults_table"
| "table_of (Insert_command _ _ _ _ _ _) = commands_table"
| "table_of (Insert_alarm _ _ _ _ _ _ _) = alarm_table"

lemma find_table: "find (\<lambda>t. tab_name t = ins_table (prepared s)) schema = Some (table_of s)"
  by (cases s) (simp_all add: schema_def table_defs sql_defs)

lemma sql_exec_table:
  "sql_exec d s = (let (ok, rows) = exec_insert (table_of s) (prepared s) (bound s) (d (tab_name (table_of s)))
     in (ok, d(tab_name (table_of s) := rows)))"
  by (simp add: sql_exec_def find_table)

lemma new_row_bound: "new_row (table_of s) (prepared s) (bound s) = bound s"
  by (cases s) (simp_all add: new_row_def sql_defs table_defs column_defs)

lemma no_null_violation: "\<not> null_violation (table_of s) (bound s)"
  by (cases s) (simp_all add: null_violation_def table_defs column_defs)

lemma exec_insert_bound:
  "exec_insert (table_of s) (prepared s) (bound s) rows =
     (let conflict = list_ex (\<lambda>ns. list_ex (same_key (table_of s) ns (bound s)) rows) (tab_keys (table_of s))
      in case ins_conflict (prepared s) of
             Abort \<Rightarrow> if conflict then (False, rows) else (True, rows @ [bound s])
           | Ignore \<Rightarrow> if conflict then (True, rows) else (True, rows @ [bound s])
           | Do_update target sets \<Rightarrow>
               if list_ex (same_key (table_of s) target (bound s)) rows
               then (True, map (\<lambda>r'. if same_key (table_of s) target (bound s) r'
                 then set_cells (table_of s) sets (bound s) r' else r') rows)
               else if conflict then (False, rows) else (True, rows @ [bound s]))"
  by (simp add: exec_insert_def new_row_bound no_null_violation Let_def)

lemma plain_conflict: "tab_keys (table_of s) = [] \<Longrightarrow> ins_conflict (prepared s) = Abort"
  by (cases s) (simp_all add: sql_defs table_defs)

text \<open>Tables without a key: the row is appended.\<close>

lemma exec_plain:
  "tab_keys (table_of s) = [] \<Longrightarrow>
    sql_exec d s = (True, d(tab_name (table_of s) := d (tab_name (table_of s)) @ [bound s]))"
  by (simp add: sql_exec_table exec_insert_bound plain_conflict)

definition sync_row :: "int \<times> int \<times> int \<Rightarrow> sql_row" where
  "sync_row trv = [IntV (fst trv), IntV (fst (snd trv)), IntV (snd (snd trv))]"

lemma exec_region_sync:
  assumes "d ''region_sync'' = map sync_row xs"
  shows "sql_exec d (Insert_region_sync ts r v) = (True, d(''region_sync'' :=
    map sync_row (if (r, v) \<in> snd ` set xs then xs else xs @ [(ts, r, v)])))"
proof -
  let ?s = "Insert_region_sync ts r v"
  have same: "same_key region_sync_table [''region_id'', ''version''] (sync_row (ts, r, v)) (sync_row x)
      \<longleftrightarrow> snd x = (r, v)" for x
    by (cases x) (auto simp: same_key_def cell_def sync_row_def region_sync_table_def column_defs)
  have b: "bound ?s = sync_row (ts, r, v)" by (simp add: sync_row_def)
  have t: "table_of ?s = region_sync_table" "tab_name region_sync_table = ''region_sync''"
    "tab_keys region_sync_table = [[''region_id'', ''version'']]"
    "ins_conflict (prepared ?s) = Ignore"
    by (simp_all add: region_sync_table_def sql_region_sync_def)
  have "exec_insert (table_of ?s) (prepared ?s) (bound ?s) (map sync_row xs)
      = (True, map sync_row (if (r, v) \<in> snd ` set xs then xs else xs @ [(ts, r, v)]))"
    unfolding exec_insert_bound unfolding b t on_conflict.case Let_def by (auto simp: list_ex_iff same image_iff) force
  then show ?thesis by (simp only: sql_exec_table t assms Let_def prod.case)
qed

text \<open>The table of devices is a map: the row of a URI is replaced where it stands, or appended.\<close>

definition devices_ok :: "(string \<times> int list) list \<Rightarrow> bool" where
  "devices_ok al \<longleftrightarrow> distinct (map fst al) \<and> (\<forall>uv \<in> set al. length (snd uv) = 8)"

lemma update_replaces:
  assumes "distinct (map fst al)"
  shows "AList.update k v al =
    (if k \<in> fst ` set al then map (\<lambda>kv. if fst kv = k then (k, v) else kv) al else al @ [(k, v)])"
  using assms by (induction al) (auto simp: image_iff intro!: map_idI [symmetric])

lemma exec_upsert:
  assumes "d ''devices'' = map device_row al" "devices_ok al"
  shows "sql_exec d (Upsert_device u t r z ts f on i p) = (True, d(''devices'' :=
    map device_row (AList.update u [t, r, z, ts, f, on, i, p] al)))"
proof -
  let ?s = "Upsert_device u t r z ts f on i p" and ?v = "[t, r, z, ts, f, on, i, p]"
  let ?sets = "[''type'', ''region_id'', ''zone_id'', ''last_seen_ms'', ''fault'', ''on_state'',
    ''intensity'', ''power_mw'']"
  have b: "bound ?s = device_row (u, ?v)" by (simp add: device_row_def)
  have same: "same_key devices_table [''uri''] (device_row (u, ?v)) (device_row x) \<longleftrightarrow> fst x = u" for x
    by (cases x) (auto simp: same_key_def cell_def device_row_def devices_table_def column_defs)
  have set: "set_cells devices_table ?sets (device_row (u, ?v)) (device_row x) = device_row (u, ?v)"
    if fst: "fst x = u" and len: "length (snd x) = 8" for x
  proof -
    obtain a b c d e f g h where "snd x = [a, b, c, d, e, f, g, h]"
      using len by (auto simp: length_Suc_conv eval_nat_numeral)
    with fst show ?thesis
      by (simp add: set_cells_def device_row_def devices_table_def column_defs)
  qed
  have t: "table_of ?s = devices_table" "tab_name devices_table = ''devices''"
    "tab_keys devices_table = [[''uri'']]" "ins_conflict (prepared ?s) = Do_update [''uri''] ?sets"
    by (simp_all add: devices_table_def sql_device_upsert_def)
  have upd: "map (\<lambda>r'. if same_key devices_table [''uri''] (device_row (u, ?v)) r'
        then set_cells devices_table ?sets (device_row (u, ?v)) r' else r') (map device_row al)
      = map device_row (map (\<lambda>kv. if fst kv = u then (u, ?v) else kv) al)"
    using assms(2) by (auto simp: devices_ok_def same set)
  have "exec_insert (table_of ?s) (prepared ?s) (bound ?s) (map device_row al)
      = (True, map device_row (AList.update u ?v al))"
    unfolding exec_insert_bound unfolding b t on_conflict.case Let_def upd
    using assms(2) by (auto simp: list_ex_iff same update_replaces devices_ok_def image_iff)
  then show ?thesis by (simp only: sql_exec_table t assms Let_def prod.case)
qed

section \<open>The tables as a history\<close>

fun device_of :: "sql_stmt \<Rightarrow> (string \<times> int list) option" where
  "device_of (Upsert_device u t r z ts f on i p) = Some (u, [t, r, z, ts, f, on, i, p])"
| "device_of _ = None"

fun sync_of :: "sql_stmt \<Rightarrow> (int \<times> int \<times> int) option" where
  "sync_of (Insert_region_sync ts r v) = Some (ts, r, v)"
| "sync_of _ = None"

text \<open>The last values of each key, in the order of the keys' first; the first of each key.\<close>

definition last_of_key :: "('k \<times> 'v) list \<Rightarrow> ('k \<times> 'v) list" where
  "last_of_key kvs = fold (\<lambda>(k, v). AList.update k v) kvs []"

definition first_of_key :: "('a \<times> 'k) list \<Rightarrow> ('a \<times> 'k) list" where
  "first_of_key xs = fold (\<lambda>x acc. if snd x \<in> snd ` set acc then acc else acc @ [x]) xs []"

definition rows_of :: "string \<Rightarrow> sql_stmt list \<Rightarrow> sql_row list" where
  "rows_of t ss = map bound (filter (\<lambda>s. tab_name (table_of s) = t) ss)"

definition log_tables :: "string list" where
  "log_tables = [''lamp_status'', ''faults'', ''region_zone_power'', ''commands'', ''alarm'']"

definition history :: "sql_stmt list \<Rightarrow> sql_db \<Rightarrow> bool" where
  "history ss d \<longleftrightarrow>
     d ''devices'' = map device_row (last_of_key (List.map_filter device_of ss))
     \<and> d ''region_sync'' = map sync_row (first_of_key (List.map_filter sync_of ss))
     \<and> (\<forall>t \<in> set log_tables. d t = rows_of t ss)"

lemma map_filter_snoc:
  "List.map_filter f (xs @ [x]) = List.map_filter f xs @ (case f x of None \<Rightarrow> [] | Some y \<Rightarrow> [y])"
  by (simp add: List.map_filter_def split: option.split)

lemma last_of_key_snoc: "last_of_key (kvs @ [(k, v)]) = AList.update k v (last_of_key kvs)"
  by (simp add: last_of_key_def)

lemma first_of_key_snoc:
  "first_of_key (xs @ [x]) = (if snd x \<in> snd ` set (first_of_key xs) then first_of_key xs
     else first_of_key xs @ [x])"
  by (simp add: first_of_key_def)

lemma map_of_last_of_key: "map_of (last_of_key kvs) = map_of (rev kvs)"
  by (induction kvs rule: rev_induct) (auto simp: last_of_key_def)

lemma snd_first_of_key: "snd ` set (first_of_key xs) = snd ` set xs"
  by (induction xs rule: rev_induct) (auto simp: first_of_key_snoc, simp add: first_of_key_def)

lemma distinct_first_of_key: "distinct (map snd (first_of_key xs))"
  by (induction xs rule: rev_induct) (auto simp: first_of_key_snoc, simp add: first_of_key_def)

lemma devices_ok_update: "devices_ok al \<Longrightarrow> length v = 8 \<Longrightarrow> devices_ok (AList.update k v al)"
proof -
  assume "devices_ok al" "length v = 8"
  then have "distinct (map fst (AList.update k v al))" by (simp add: devices_ok_def)
  then show ?thesis
    using \<open>devices_ok al\<close> \<open>length v = 8\<close> unfolding devices_ok_def
    by (simp add: update_replaces) auto
qed

lemma plain_table:
  "tab_keys (table_of s) = [] \<Longrightarrow>
    tab_name (table_of s) \<in> set log_tables \<and> device_of s = None \<and> sync_of s = None"
  by (cases s) (simp_all add: table_defs log_tables_def)

lemma devices_ok_last: "devices_ok (last_of_key (List.map_filter device_of ss))"
proof (induction ss rule: rev_induct)
  case (snoc s ss)
  then show ?case
    by (cases s) (simp_all add: map_filter_snoc last_of_key_snoc devices_ok_update)
qed (simp add: devices_ok_def last_of_key_def List.map_filter_def)

lemma history_empty: "history [] empty_db"
  by (simp add: history_def empty_db_def rows_of_def last_of_key_def first_of_key_def List.map_filter_def)

text \<open>No statement fails, and each adds itself to the history.\<close>

lemma history_exec:
  assumes "history ss d"
  shows "\<exists>d'. sql_exec d s = (True, d') \<and> history (ss @ [s]) d'"
proof -
  have dev: "d ''devices'' = map device_row (last_of_key (List.map_filter device_of ss))"
    and syn: "d ''region_sync'' = map sync_row (first_of_key (List.map_filter sync_of ss))"
    and log: "\<And>t. t \<in> set log_tables \<Longrightarrow> d t = rows_of t ss"
    using assms by (simp_all add: history_def)
  show ?thesis
  proof (cases "tab_keys (table_of s) = []")
    case True
    note plain = plain_table [OF True]
    then have "tab_name (table_of s) \<noteq> ''devices''" "tab_name (table_of s) \<noteq> ''region_sync''"
      by (auto simp: log_tables_def)
    moreover have "(d(tab_name (table_of s) := d (tab_name (table_of s)) @ [bound s])) t = rows_of t (ss @ [s])"
      if "t \<in> set log_tables" for t
      using log [OF that] by (auto simp: rows_of_def)
    ultimately show ?thesis
      using plain dev syn by (simp add: exec_plain [OF True] history_def map_filter_snoc)
  next
    case False
    then consider ts r v where "s = Insert_region_sync ts r v"
      | u t r z ts f on i p where "s = Upsert_device u t r z ts f on i p"
      by (cases s) (simp_all add: table_defs)
    then show ?thesis
    proof cases
      case 1
      with exec_region_sync [where d = d and xs = "first_of_key (List.map_filter sync_of ss)", OF syn] assms show ?thesis
        by (simp add: history_def map_filter_snoc first_of_key_snoc rows_of_def log_tables_def region_sync_table_def)
    next
      case 2
      with exec_upsert [where d = d and al = "last_of_key (List.map_filter device_of ss)", OF dev devices_ok_last] assms show ?thesis
        by (simp add: history_def map_filter_snoc last_of_key_snoc rows_of_def log_tables_def devices_table_def)
    qed
  qed
qed

interpretation tables: statement_log sql_exec empty_db history
  by unfold_locales (rule history_empty, rule history_exec)

lemma event_table: "s \<in> set (event_stmts evs) \<Longrightarrow> tab_name (table_of s) \<noteq> ''alarm''"
proof (induction evs)
  case (Cons ev evs)
  then show ?case
    by (cases ev) (auto simp: event_stmts_def handle_region_sync_def handle_device_upsert_def
        handle_lamp_status_def handle_fault_event_def handle_command_event_def table_defs)
qed (simp add: event_stmts_def)

section \<open>Well-typed tables\<close>

fun has_type :: "sql_value \<Rightarrow> affinity \<Rightarrow> bool" where
  "has_type (IntV _) INTEGER \<longleftrightarrow> True"
| "has_type (TextV _) TEXT \<longleftrightarrow> True"
| "has_type _ _ \<longleftrightarrow> False"

definition row_typed :: "table \<Rightarrow> sql_row \<Rightarrow> bool" where
  "row_typed tab r \<longleftrightarrow> list_all2 (\<lambda>c v. has_type v (col_type c)) (tab_columns tab) r"

definition key_distinct :: "table \<Rightarrow> string list \<Rightarrow> sql_row list \<Rightarrow> bool" where
  "key_distinct tab ns rows \<longleftrightarrow> distinct (map (\<lambda>r. map (cell tab r) ns) rows)"

definition table_typed :: "sql_db \<Rightarrow> table \<Rightarrow> bool" where
  "table_typed d tab \<longleftrightarrow> list_all (row_typed tab) (d (tab_name tab))
     \<and> list_all (\<lambda>ns. key_distinct tab ns (d (tab_name tab))) (tab_keys tab)"

lemma bound_typed: "row_typed (table_of s) (bound s)"
  by (cases s) (simp_all add: row_typed_def table_defs column_defs)

lemma rows_typed: "tab_name (table_of s) = tab_name tab \<Longrightarrow> tab \<in> set schema \<Longrightarrow> table_of s = tab"
  by (cases s) (auto simp: schema_def, auto simp: table_defs)

lemma log_table_typed:
  assumes "history ss d" "tab \<in> set schema" "tab_name tab \<in> set log_tables"
  shows "table_typed d tab"
proof -
  have "tab_keys tab = []"
    using assms(2,3) by (simp add: schema_def, elim disjE) (simp_all add: log_tables_def table_defs)
  moreover have "row_typed tab (bound s)" if "tab_name (table_of s) = tab_name tab" for s
    using bound_typed [of s] rows_typed [OF that assms(2)] by simp
  ultimately show ?thesis
    using assms(1,3) by (auto simp: table_typed_def history_def rows_of_def list_all_iff)
qed

lemma devices_typed:
  assumes "history ss d"
  shows "table_typed d devices_table"
proof -
  let ?al = "last_of_key (List.map_filter device_of ss)"
  have d: "d (tab_name devices_table) = map device_row ?al"
    using assms by (simp add: history_def devices_table_def)
  have "row_typed devices_table (device_row uv)" if len: "length (snd uv) = 8" for uv
  proof -
    obtain a b c d e f g h where "snd uv = [a, b, c, d, e, f, g, h]"
      using len by (auto simp: length_Suc_conv eval_nat_numeral)
    then show ?thesis by (simp add: row_typed_def device_row_def devices_table_def column_defs)
  qed
  moreover have "(\<lambda>uv. map (cell devices_table (device_row uv)) [''uri'']) = (\<lambda>uv. [Some (TextV (fst uv))])"
    by (auto simp: cell_def device_row_def devices_table_def column_defs)
  then have "key_distinct devices_table [''uri''] (map device_row ?al)"
    using devices_ok_last [of ss]
    by (simp add: key_distinct_def comp_def devices_ok_def distinct_map inj_on_def)
  moreover have "tab_keys devices_table = [[''uri'']]" by (simp add: devices_table_def)
  ultimately show ?thesis
    using devices_ok_last [of ss] by (simp add: table_typed_def d list_all_iff devices_ok_def)
qed

lemma region_sync_typed:
  assumes "history ss d"
  shows "table_typed d region_sync_table"
proof -
  let ?xs = "first_of_key (List.map_filter sync_of ss)" and ?k = "[''region_id'', ''version'']"
  have d: "d (tab_name region_sync_table) = map sync_row ?xs"
    using assms by (simp add: history_def region_sync_table_def)
  have typed: "row_typed region_sync_table (sync_row x)" for x
    by (simp add: row_typed_def sync_row_def region_sync_table_def column_defs)
  let ?g = "\<lambda>rv. [Some (IntV (fst rv)), Some (IntV (snd rv))]"
  have "map (cell region_sync_table (sync_row x)) ?k = ?g (snd x)" for x
    by (simp add: cell_def sync_row_def region_sync_table_def column_defs)
  then have "map (\<lambda>r. map (cell region_sync_table r) ?k) (map sync_row ?xs) = map ?g (map snd ?xs)" by simp
  moreover have "inj ?g" by (rule injI) (simp add: prod_eq_iff)
  ultimately have "key_distinct region_sync_table ?k (map sync_row ?xs)"
    using distinct_first_of_key [of "List.map_filter sync_of ss"]
    by (simp only: key_distinct_def distinct_map [of ?g]) (simp add: inj_on_def prod_eq_iff)
  moreover have "tab_keys region_sync_table = [?k]" by (simp add: region_sync_table_def)
  ultimately show ?thesis using typed by (simp add: table_typed_def d list_all_iff)
qed

lemma schema_cases:
  "tab \<in> set schema \<Longrightarrow> tab = devices_table \<or> tab = region_sync_table \<or> tab_name tab \<in> set log_tables"
  by (simp add: schema_def, elim disjE) (simp_all add: log_tables_def, simp_all add: table_defs)

lemma typed_history:
  assumes "history ss d" "tab \<in> set schema"
  shows "table_typed d tab"
proof (cases "tab_name tab \<in> set log_tables")
  case False
  with schema_cases [OF assms(2)] show ?thesis
    using devices_typed [OF assms(1)] region_sync_typed [OF assms(1)] by auto
qed (rule log_table_typed [OF assms])

section \<open>Properties\<close>

text \<open>
  C31: The database is well typed: every statement of the program prepares over the schema, binds one
  value of the column's type to each column, and is never refused by a constraint; so after any
  sequence of statements every row of every table has a value of the declared type, and no \<^verbatim>\<open>NULL\<close>,
  in every column, and the keys of \<^verbatim>\<open>devices\<close> and \<^verbatim>\<open>region_sync\<close> are unique.
\<close>

theorem database_well_typed:
  "prepares schema (prepared s) \<and> length (bound s) = length (ins_columns (prepared s))
   \<and> (\<exists>d. run_stmts sql_exec empty_db ss = (True, d) \<and> list_all (table_typed d) schema)"
proof -
  have "prepares schema (prepared s) \<and> length (bound s) = length (ins_columns (prepared s))"
    unfolding prepares_def find_table by (cases s) (simp_all add: table_defs sql_defs column_defs)
  moreover obtain d where d: "run_stmts sql_exec empty_db ss = (True, d)" "history ss d"
    using tables.holds_run [OF history_empty, of ss] by auto
  moreover have "list_all (table_typed d) schema"
    using typed_history [OF d(2)] by (simp add: list_all_iff)
  ultimately show ?thesis by blast
qed

text \<open>
  C17: The database is the history of what was logged: in every run of the writer the log tables hold
  exactly the rows of the handled events, in order, \<^verbatim>\<open>alarm\<close> those of the direct calls, \<^verbatim>\<open>devices\<close>
  the last values written for each URI, and \<^verbatim>\<open>region_sync\<close> the first row of each region and
  version, whatever the interleaving of the handlers with the worker.
\<close>

theorem database_is_history:
  assumes "db_run sql_exec empty_db as w" "db w = Some d" "\<forall>s \<in> set (directs as). table_of s = alarm_table"
  shows "let ss = event_stmts (handled w) in
    d ''alarm'' = map bound (directs as)
    \<and> (\<forall>t \<in> {''lamp_status'', ''faults'', ''region_zone_power'', ''commands''}. d t = rows_of t ss)
    \<and> d ''devices'' = map device_row (last_of_key (List.map_filter device_of ss))
    \<and> d ''region_sync'' = map sync_row (first_of_key (List.map_filter sync_of ss))"
proof -
  let ?es = "event_stmts (handled w)"
  obtain ss where ss: "ss \<in> shuffles ?es (directs as)" "history ss d"
    using tables.run_holds [OF assms(1,2)] by blast
  have keep: "filter P ss = filter P ?es" if "\<forall>s \<in> set (directs as). \<not> P s" for P
  proof -
    have "filter P (directs as) = []" using that by (simp add: filter_empty_conv)
    then show ?thesis using filter_shuffles [of P ?es "directs as"] ss(1) by auto
  qed
  have direct: "tab_name (table_of s) = ''alarm'' \<and> device_of s = None \<and> sync_of s = None"
    if "s \<in> set (directs as)" for s
    using assms(3) that by (cases s) (auto simp: table_defs)
  have "filter (\<lambda>s. tab_name (table_of s) = ''alarm'') ?es = []"
    using event_table [of _ "handled w"] by (auto simp: filter_empty_conv)
  then have "filter (\<lambda>s. tab_name (table_of s) = ''alarm'') ss = directs as"
    using filter_shuffles [of "\<lambda>s. tab_name (table_of s) = ''alarm''" ?es "directs as"] ss(1) direct
    by (auto simp: filter_id_conv)
  moreover have "rows_of t ss = rows_of t ?es" if "t \<noteq> ''alarm''" for t
    using keep [of "\<lambda>s. tab_name (table_of s) = t"] direct that by (auto simp: rows_of_def)
  moreover have "List.map_filter device_of ss = List.map_filter device_of ?es"
    "List.map_filter sync_of ss = List.map_filter sync_of ?es"
    using keep [of "\<lambda>s. device_of s \<noteq> None"] keep [of "\<lambda>s. sync_of s \<noteq> None"] direct
    by (simp_all add: List.map_filter_def)
  ultimately show ?thesis
    using ss(2) by (simp add: history_def log_tables_def Let_def) (simp add: rows_of_def)
qed

definition example_alarm_stmt :: sql_stmt where
  "example_alarm_stmt = Insert_alarm 1 1700000000 1 1 9 ''u'' ''comm_lost''"

lemma database_is_history_witness:
  "\<exists>w d. db_run sql_exec empty_db
       [Call (Enqueue example_event), Take, Call (Direct example_alarm_stmt), Handle] w
     \<and> db w = Some d
     \<and> d ''faults'' = [[IntV 5, TextV ''u'', IntV 1, IntV 1, IntV 1, TextV ''t'']]
     \<and> d ''alarm'' = [bound example_alarm_stmt] \<and> d ''devices'' = []"
proof -
  let ?as = "[Call (Enqueue example_event), Take, Call (Direct example_alarm_stmt), Handle]"
  let ?w0 = "new_writer\<lparr>db := Some empty_db, running := True, worker := Waiting\<rparr>"
  let ?w1 = "perform sql_exec (Enqueue example_event) ?w0"
  let ?w2 = "?w1\<lparr>q := [], worker := Handling example_event\<rparr>"
  let ?w3 = "perform sql_exec (Direct example_alarm_stmt) ?w2"
  obtain w where w: "worker_handle sql_exec ?w3 = Some w" "handled w = [example_event]" "db w \<noteq> None"
    by (simp add: worker_handle_def log_direct_def enqueue_def new_writer_def)
  have "db_run sql_exec empty_db [] ?w0" by (rule run_started) (simp add: start_def new_writer_def)
  then have "db_run sql_exec empty_db ([] @ [Call (Enqueue example_event)]) ?w1"
    by (rule run_stepped) simp
  then have "db_run sql_exec empty_db (([] @ [Call (Enqueue example_event)]) @ [Take]) ?w2"
    by (rule run_stepped) (simp add: worker_take_def enqueue_def new_writer_def)
  then have "db_run sql_exec empty_db ((([] @ [Call (Enqueue example_event)]) @ [Take])
      @ [Call (Direct example_alarm_stmt)]) ?w3"
    by (rule run_stepped) simp
  then have "db_run sql_exec empty_db (((([] @ [Call (Enqueue example_event)]) @ [Take])
      @ [Call (Direct example_alarm_stmt)]) @ [Handle]) w"
    by (rule run_stepped) (use w(1) in simp)
  then have run: "db_run sql_exec empty_db ?as w" by simp
  obtain d where d: "db w = Some d" using w(3) by blast
  have dir: "directs ?as = [example_alarm_stmt]" by (simp add: directs_def)
  have es: "event_stmts (handled w) = [Insert_fault 5 ''u'' 1 1 1 ''t'']"
    by (simp add: w(2) event_stmts_def example_event_def handle_fault_event_def bind_u32_def bind_u8_def)
  have "\<forall>s \<in> set (directs ?as). table_of s = alarm_table"
    unfolding dir by (simp add: example_alarm_stmt_def)
  from database_is_history [OF run d this] have "d ''faults'' = rows_of ''faults'' [Insert_fault 5 ''u'' 1 1 1 ''t'']"
    "d ''alarm'' = [bound example_alarm_stmt]" "d ''devices'' = []"
    by (simp_all add: dir es Let_def last_of_key_def List.map_filter_def)
  with run d show ?thesis by (auto simp: rows_of_def faults_table_def)
qed

text \<open>
  A second synchronisation under a version that a region already used, as after a restart of the
  regional server, whose versions begin at 1 again, adds its zone powers under the old row.
\<close>

lemma repeated_version:
  assumes "run_stmts sql_exec empty_db (handle (RegionSyncEvent e) @ handle (RegionSyncEvent e')) = (ok, d)"
    and "rse_region_id e' = rse_region_id e" "rse_version e' = rse_version e"
  shows "d ''region_sync'' = [sync_row (rse_ts_ms e, bind_u32 (rse_region_id e), bind_u32 (rse_version e))]"
    and "length (d ''region_zone_power'') = length (rse_zone_power_sum e) + length (rse_zone_power_sum e')"
proof -
  have h: "history (handle (RegionSyncEvent e) @ handle (RegionSyncEvent e')) d"
    using tables.holds_run [OF history_empty] assms(1) by (metis append_Nil prod.inject)
  have z: "List.map_filter sync_of (map (\<lambda>zp. Insert_region_zone_power t r v (f zp) (g zp)) zs) = []"
    "filter (\<lambda>s. tab_name (table_of s) = ''region_zone_power'')
      (map (\<lambda>zp. Insert_region_zone_power t r v (f zp) (g zp)) zs)
      = map (\<lambda>zp. Insert_region_zone_power t r v (f zp) (g zp)) zs" for t r v f g zs
    by (induction zs) (simp_all add: List.map_filter_def region_zone_power_table_def)
  have m: "List.map_filter sync_of (xs @ ys) = List.map_filter sync_of xs @ List.map_filter sync_of ys" for xs ys
    by (simp add: List.map_filter_def)
  show "d ''region_sync'' = [sync_row (rse_ts_ms e, bind_u32 (rse_region_id e), bind_u32 (rse_version e))]"
    using h assms(2,3)
    by (simp add: history_def handle_region_sync_def m z(1) first_of_key_def)
  show "length (d ''region_zone_power'') = length (rse_zone_power_sum e) + length (rse_zone_power_sum e')"
    using h by (simp add: history_def log_tables_def rows_of_def handle_region_sync_def z(2))
      (simp add: region_sync_table_def)
qed

end
