(* ===== verification/Db_Open.thy ===== *)
theory Db_Open
  imports Database
begin

text \<open>
  Opening and closing of the database (\<^verbatim>\<open>DbWriter::start\<close>, \<^verbatim>\<open>DbWriter::stop\<close> and their helpers in
  \<^verbatim>\<open>db.cpp\<close>): the order of the calls, what each failure leaves behind, and what is released. SQLite
  and the file system are parameters: whether opening succeeds, which texts \<^verbatim>\<open>sqlite3_exec\<close> accepts,
  what a file contains, and which tables exist once a schema was executed.
\<close>

section \<open>State\<close>

record sqlite_env =
  env_open :: bool
  env_exec :: "string \<Rightarrow> bool"
  env_file :: "string \<Rightarrow> string option"
  env_tables :: "string option \<Rightarrow> table list"

datatype db_error =
    Open_failed
  | Exec_failed string
  | No_schema_file
  | Prepare_failed insert_sql

text \<open>
  \<open>dc_handle\<close>: \<^verbatim>\<open>db_\<close> points to an open connection. \<open>dc_stmts\<close>: the statements whose pointer is not
  null. \<open>dc_lost\<close> is a ghost field: the connections to which no pointer is left.
\<close>

record db_conn =
  dc_handle :: bool
  dc_stmts :: "insert_sql list"
  dc_running :: bool
  dc_lost :: nat

definition closed_conn :: db_conn where
  "closed_conn = \<lparr>dc_handle = False, dc_stmts = [], dc_running = False, dc_lost = 0\<rparr>"

section \<open>Starting\<close>

definition db_open :: "sqlite_env \<Rightarrow> db_conn \<Rightarrow> db_conn \<times> db_error option" where
  "db_open env c =
     (let c = c\<lparr>dc_lost := dc_lost c + (if dc_handle c then 1 else 0)\<rparr>
      in if env_open env then (c\<lparr>dc_handle := True\<rparr>, None)
         else (c\<lparr>dc_handle := False\<rparr>, Some Open_failed))"

fun exec_all :: "sqlite_env \<Rightarrow> string list \<Rightarrow> db_error option" where
  "exec_all env [] = None"
| "exec_all env (t # ts) = (if env_exec env t then exec_all env ts else Some (Exec_failed t))"

definition pragmas :: "string list" where
  "pragmas = [''PRAGMA foreign_keys = ON;'', ''PRAGMA journal_mode = WAL;'', ''PRAGMA synchronous = NORMAL;'']"

definition apply_schema :: "sqlite_env \<Rightarrow> string \<Rightarrow> db_error option" where
  "apply_schema env path =
     (if path = [] then None
      else case env_file env path of
        None \<Rightarrow> Some No_schema_file
      | Some text \<Rightarrow> exec_all env [text])"

definition known_tables :: "sqlite_env \<Rightarrow> string \<Rightarrow> table list" where
  "known_tables env path = env_tables env (if path = [] then None else env_file env path)"

definition all_sql :: "insert_sql list" where
  "all_sql = [sql_region_sync, sql_region_zone_power, sql_device_upsert, sql_lamp_status, sql_fault, sql_command]"

text \<open>
  The statements are prepared in order; the first that fails throws. Those before it stay prepared,
  \<^verbatim>\<open>sqlite3_prepare_v2\<close> sets its own pointer to null, and the pointers after it keep their old
  values \<open>old\<close>.
\<close>

fun prepare_all :: "table list \<Rightarrow> insert_sql list \<Rightarrow> insert_sql list \<Rightarrow> insert_sql list \<times> db_error option" where
  "prepare_all tabs old [] = ([], None)"
| "prepare_all tabs old (s # ss) =
     (if prepares tabs s then (case prepare_all tabs old ss of (ps, e) \<Rightarrow> (s # ps, e))
      else (filter (List.member old) ss, Some (Prepare_failed s)))"

definition db_start :: "sqlite_env \<Rightarrow> string \<Rightarrow> db_conn \<Rightarrow> db_conn \<times> db_error option" where
  "db_start env schema_file c =
     (if dc_running c then (c, None)
      else case db_open env c of
        (c, Some e) \<Rightarrow> (c, Some e)
      | (c, None) \<Rightarrow>
          (case exec_all env pragmas of
             Some e \<Rightarrow> (c, Some e)
           | None \<Rightarrow>
               (case apply_schema env schema_file of
                  Some e \<Rightarrow> (c, Some e)
                | None \<Rightarrow>
                    (case prepare_all (known_tables env schema_file) (dc_stmts c) all_sql of
                       (ps, Some e) \<Rightarrow> (c\<lparr>dc_stmts := ps\<rparr>, Some e)
                     | (ps, None) \<Rightarrow> (c\<lparr>dc_stmts := ps, dc_running := True\<rparr>, None)))))"

section \<open>Stopping\<close>

definition finalize_statements :: "db_conn \<Rightarrow> db_conn" where
  "finalize_statements c = c\<lparr>dc_stmts := []\<rparr>"

text \<open>The part of \<^verbatim>\<open>stop\<close> after the worker was joined; the destructor is \<^verbatim>\<open>stop\<close>.\<close>

definition db_stop :: "db_conn \<Rightarrow> db_conn" where
  "db_stop c =
     (if \<not> dc_running c then c
      else let c = finalize_statements (c\<lparr>dc_running := False\<rparr>)
           in if dc_handle c then c\<lparr>dc_handle := False\<rparr> else c)"

section \<open>Lemmas\<close>

text \<open>A writer in use has its connection and all its statements.\<close>

definition conn_ok :: "db_conn \<Rightarrow> bool" where
  "conn_ok c \<longleftrightarrow> (dc_running c \<longrightarrow> dc_handle c \<and> dc_stmts c = all_sql)"

lemma prepare_all_all: "prepare_all tabs old ss = (ps, None) \<Longrightarrow> ps = ss"
  by (induction ss arbitrary: ps) (auto split: if_splits prod.splits)

lemma prepare_all_ok: "list_all (prepares tabs) ss \<Longrightarrow> prepare_all tabs old ss = (ss, None)"
  by (induction ss) auto

lemma schema_prepares: "list_all (prepares schema) all_sql"
  by (simp add: all_sql_def prepares_def schema_def table_defs sql_defs column_defs)

lemma db_start_conn_ok: "conn_ok c \<Longrightarrow> conn_ok (fst (db_start env f c))"
  by (auto simp: db_start_def db_open_def conn_ok_def Let_def dest: prepare_all_all
      split: option.splits prod.splits)

lemma db_start_error:
  assumes "db_start env f c = (c', Some e)" "dc_handle c = dc_running c"
  shows "\<not> dc_running c' \<and> dc_handle c' = (e \<noteq> Open_failed) \<and> dc_lost c' = dc_lost c"
proof -
  have exec: "exec_all env ts \<noteq> Some Open_failed" for ts by (induction ts) auto
  have schema: "apply_schema env f \<noteq> Some Open_failed"
    using exec by (auto simp: apply_schema_def split: option.split)
  have prep: "prepare_all tabs old ss \<noteq> (ps, Some Open_failed)" for tabs old ss ps
    by (induction ss arbitrary: ps) (auto split: prod.splits)
  show ?thesis
    using assms exec schema prep
    by (auto simp: db_start_def db_open_def Let_def split: if_splits option.splits prod.splits)
qed

lemma db_start_lost: "\<not> dc_running c \<Longrightarrow> dc_lost (fst (db_start env f c)) = dc_lost c + (if dc_handle c then 1 else 0)"
  by (simp add: db_start_def db_open_def Let_def split: option.split prod.split)

lemma db_start_runs:
  "db_start env f c = (c', None) \<Longrightarrow> \<not> dc_running c \<Longrightarrow>
    c' = c\<lparr>dc_lost := dc_lost c + (if dc_handle c then 1 else 0), dc_handle := True, dc_stmts := all_sql,
      dc_running := True\<rparr>"
  by (auto simp: db_start_def db_open_def Let_def split: if_splits option.splits prod.splits
      dest: prepare_all_all)

text \<open>Over the schema of the repository only SQLite's own refusals make the start fail.\<close>

lemma db_start_over_schema:
  assumes "\<not> dc_running c" "env_open env" "list_all (env_exec env) pragmas" "f \<noteq> []"
    "env_file env f = Some sql" "env_exec env sql" "env_tables env (Some sql) = schema"
  shows "snd (db_start env f c) = None"
proof -
  have "list_all (env_exec env) ts \<Longrightarrow> exec_all env ts = None" for ts by (induction ts) auto
  then show ?thesis
    using assms prepare_all_ok [OF schema_prepares]
    by (simp add: db_start_def db_open_def apply_schema_def known_tables_def)
qed

section \<open>Property\<close>

text \<open>
  C32: Starting a closed writer has exactly these outcomes. It runs, with the connection open and all
  six statements prepared, and a stop then releases everything. Or it throws and does not run; unless
  opening itself failed, the connection stays open then, and since a writer that does not run ignores
  the stop of its destructor, it is never closed, and a second start loses it.
\<close>

theorem start_opens_or_throws:
  assumes "\<not> dc_running c" "\<not> dc_handle c" "dc_stmts c = []"
  shows "case db_start env f c of
      (c', None) \<Rightarrow> dc_running c' \<and> dc_handle c' \<and> dc_stmts c' = all_sql \<and> db_stop c' = c
    | (c', Some e) \<Rightarrow> \<not> dc_running c' \<and> dc_handle c' = (e \<noteq> Open_failed) \<and> db_stop c' = c'
        \<and> dc_lost (fst (db_start env' f' c')) = dc_lost c + (if e = Open_failed then 0 else 1)"
proof (cases "db_start env f c")
  case (Pair c' e)
  show ?thesis
  proof (cases e)
    case None
    then have "c' = c\<lparr>dc_handle := True, dc_stmts := all_sql, dc_running := True\<rparr>"
      using db_start_runs [of env f c c'] Pair assms by simp
    then show ?thesis
      using Pair None assms by (simp add: db_stop_def finalize_statements_def)
  next
    case (Some err)
    then show ?thesis
      using db_start_error [of env f c c' err] db_start_lost [of c' env' f'] Pair assms
      by (simp add: db_stop_def)
  qed
qed

definition example_env :: sqlite_env where
  "example_env = \<lparr>env_open = True, env_exec = (\<lambda>t. t \<noteq> ''bad''),
     env_file = (\<lambda>f. if f = ''schema.sql'' then Some ''good'' else Some ''bad''),
     env_tables = (\<lambda>t. if t = Some ''good'' then schema else [])\<rparr>"

lemma start_opens_or_throws_witness:
  "db_stop (fst (db_start example_env ''schema.sql'' closed_conn)) = closed_conn
   \<and> db_start example_env ''other.sql'' closed_conn
       = (closed_conn\<lparr>dc_handle := True\<rparr>, Some (Exec_failed ''bad''))
   \<and> dc_lost (fst (db_start example_env ''schema.sql'' (closed_conn\<lparr>dc_handle := True\<rparr>))) = 1"
proof -
  have closed: "\<not> dc_running closed_conn" "\<not> dc_handle closed_conn" "dc_stmts closed_conn = []"
    by (simp_all add: closed_conn_def)
  have bad: "db_start example_env ''other.sql'' closed_conn
      = (closed_conn\<lparr>dc_handle := True\<rparr>, Some (Exec_failed ''bad''))"
    by (simp add: db_start_def db_open_def closed_conn_def example_env_def pragmas_def apply_schema_def)
  have "snd (db_start example_env ''schema.sql'' closed_conn) = None"
    by (rule db_start_over_schema [where sql = "''good''"]) (simp_all add: closed_conn_def example_env_def pragmas_def)
  then have stopped: "db_stop (fst (db_start example_env ''schema.sql'' closed_conn)) = closed_conn"
    using start_opens_or_throws [OF closed, where env = example_env and f = "''schema.sql''"] by (simp add: case_prod_unfold)
  have "dc_lost (fst (db_start example_env ''schema.sql'' (closed_conn\<lparr>dc_handle := True\<rparr>))) = 1"
    using start_opens_or_throws [OF closed, where env = example_env and f = "''other.sql''" and env' = example_env and f' = "''schema.sql''"]
    by (simp add: bad) (simp add: closed_conn_def)
  with stopped bad show ?thesis by blast
qed

end
