(* ===== verification/Region_Log.thy ===== *)
theory Region_Log
  imports Regional_Server Db_Open
begin

text \<open>
  What a region leaves in its database: the calls that the handlers of \<^verbatim>\<open>regional_server.cpp\<close> and
  \<^verbatim>\<open>tls_device_server.hpp\<close> make to the writer, event by event, composed with the writer's worker and
  the tables of the schema.
\<close>

section \<open>The calls of a run\<close>

fun region_trace ::
  "u64 \<Rightarrow> region_event list \<Rightarrow> region \<Rightarrow> (region \<times> (region_event \<times> region_effect list) list) option" where
  "region_trace timeout_ms [] r = Some (r, [])"
| "region_trace timeout_ms (e # es) r =
     (case region_step timeout_ms e r of
        None \<Rightarrow> None
      | Some (r1, out) \<Rightarrow>
          map_option (\<lambda>(r2, tr). (r2, (e, out) # tr)) (region_trace timeout_ms es r1))"

fun effect_calls :: "region_effect list \<Rightarrow> db_call list" where
  "effect_calls [] = []"
| "effect_calls (Db c # out) = c # effect_calls out"
| "effect_calls (Alarm a # out) = effect_calls out"

fun effect_alarms :: "region_effect list \<Rightarrow> alarm_up list" where
  "effect_alarms [] = []"
| "effect_alarms (Db c # out) = effect_alarms out"
| "effect_alarms (Alarm a # out) = a # effect_alarms out"

text \<open>The alarms that the timer did not raise: those of fault reports and of sensor markers.\<close>

fun reported :: "region_event \<Rightarrow> region_effect list \<Rightarrow> alarm_up list" where
  "reported (Tick clk) out = []"
| "reported e out = effect_alarms out"

definition trace_calls :: "(region_event \<times> region_effect list) list \<Rightarrow> db_call list" where
  "trace_calls tr = concat (map (effect_calls \<circ> snd) tr)"

definition trace_reports :: "(region_event \<times> region_effect list) list \<Rightarrow> alarm_up list" where
  "trace_reports tr = concat (map (\<lambda>(e, out). reported e out) tr)"

lemma region_trace_run:
  "region_run t es r = map_option (\<lambda>(r', tr). (r', concat (map snd tr))) (region_trace t es r)"
  by (induction es arbitrary: r) (auto split: option.split)

lemma effect_calls_append [simp]: "effect_calls (xs @ ys) = effect_calls xs @ effect_calls ys"
  by (induction xs rule: effect_calls.induct) simp_all

lemma effect_alarms_append [simp]: "effect_alarms (xs @ ys) = effect_alarms xs @ effect_alarms ys"
  by (induction xs rule: effect_alarms.induct) simp_all

fun call_stmts :: "db_call \<Rightarrow> sql_stmt list" where
  "call_stmts (Enqueue ev) = handle ev"
| "call_stmts (Direct s) = [s]"

fun is_enqueue :: "db_call \<Rightarrow> bool" where
  "is_enqueue (Enqueue ev) = True"
| "is_enqueue (Direct s) = False"

definition calls_stmts :: "db_call list \<Rightarrow> sql_stmt list" where
  "calls_stmts cs = concat (map call_stmts cs)"

lemma calls_stmts_simps [simp]:
  "calls_stmts [] = []" "calls_stmts (c # cs) = call_stmts c @ calls_stmts cs"
  "calls_stmts (cs @ ds) = calls_stmts cs @ calls_stmts ds"
  by (simp_all add: calls_stmts_def)

section \<open>What the calls of an event say\<close>

text \<open>The cells of a row of \<^verbatim>\<open>faults\<close> after its time, for an alarm.\<close>

definition fault_cells :: "alarm_up \<Rightarrow> sql_row" where
  "fault_cells a = [TextV (c_str (al_uri a)), IntV (bind_u32 (al_region_id a)),
     IntV (bind_u32 (al_zone_id a)), IntV (bind_u8 (al_code a)), TextV (c_str (al_text a))]"

definition knows :: "region \<Rightarrow> string \<Rightarrow> bool" where
  "knows r u \<longleftrightarrow> reg_get (rg_reg r) u \<noteq> None"

definition logged :: "region \<Rightarrow> alarm_up list \<Rightarrow> db_call list \<Rightarrow> bool" where
  "logged r als cs \<longleftrightarrow>
     list_all is_enqueue cs
     \<and> map tl (rows_of ''faults'' (calls_stmts cs)) = map fault_cells als
     \<and> rows_of ''commands'' (calls_stmts cs) = []
     \<and> (\<forall>uv \<in> set (List.map_filter device_of (calls_stmts cs)). \<exists>u. fst uv = c_str u \<and> knows r u)"

text \<open>From \<open>r\<close> to \<open>r'\<close> no device is forgotten, and the two copies of the region's id still agree.\<close>

definition grows :: "region \<Rightarrow> region \<Rightarrow> bool" where
  "grows r r' \<longleftrightarrow> (dv_region_id (rg_dev r) = rg_id r \<longrightarrow> dv_region_id (rg_dev r') = rg_id r' \<and> rg_id r' = rg_id r)
     \<and> (\<forall>u. knows r u \<longrightarrow> knows r' u)"

lemma rows_of_simps [simp]:
  "rows_of t [] = []" "rows_of t (ss @ ss') = rows_of t ss @ rows_of t ss'"
  "rows_of t (s # ss) = (if tab_name (table_of s) = t then [bound s] else []) @ rows_of t ss"
  by (simp_all add: rows_of_def)

lemma map_filter_append [simp]: "List.map_filter f (xs @ ys) = List.map_filter f xs @ List.map_filter f ys"
  by (simp add: List.map_filter_def)

lemma table_names [simp]:
  "tab_name devices_table = ''devices''" "tab_name lamp_status_table = ''lamp_status''"
  "tab_name faults_table = ''faults''" "tab_name commands_table = ''commands''"
  "tab_name alarm_table = ''alarm''" "tab_name region_sync_table = ''region_sync''"
  "tab_name region_zone_power_table = ''region_zone_power''"
  by (simp_all add: table_defs)

lemma logged_nil [simp]: "logged r [] []"
  by (simp add: logged_def List.map_filter_def)

lemma logged_append:
  "logged r als cs \<Longrightarrow> grows r r' \<Longrightarrow> logged r' als' cs' \<Longrightarrow> logged r' (als @ als') (cs @ cs')"
  by (fastforce simp: logged_def grows_def)

lemma logged_device [simp]:
  "logged r als (upsert_device now u type rid z f on i p # cs) \<longleftrightarrow>
     (\<exists>v. c_str u = c_str v \<and> knows r v) \<and> logged r als cs"
  by (auto simp: logged_def upsert_device_def handle_device_upsert_def List.map_filter_def)

lemma logged_lamp_status [simp]:
  "logged r als (log_lamp_status now u rid z on i p # cs) \<longleftrightarrow> logged r als cs"
  by (auto simp: logged_def log_lamp_status_def handle_lamp_status_def List.map_filter_def)

lemma logged_fault [simp]:
  "logged r (a # als) (log_fault now u rid z c t # cs) \<longleftrightarrow>
     fault_cells a = [TextV (c_str u), IntV (bind_u32 rid), IntV (bind_u32 z), IntV (bind_u8 c), TextV (c_str t)]
     \<and> logged r als cs"
  by (auto simp: logged_def log_fault_def handle_fault_event_def List.map_filter_def)

lemma grows_refl [simp]: "grows r r"
  by (simp add: grows_def)

lemma grows_trans: "grows r r' \<Longrightarrow> grows r' r'' \<Longrightarrow> grows r r''"
  by (auto simp: grows_def)

lemma knows_simps [simp]:
  "knows (rg_switch n r) u = knows r u"
  "knows (set_reg reg r) u = (reg_get reg u \<noteq> None)"
  "knows (r\<lparr>rg_last_motion := lm\<rparr>) u = knows r u"
  by (simp_all add: knows_def) (simp_all add: rg_reg_def)

lemma knows_dev [simp]: "knows (r\<lparr>rg_dev := dv\<rparr>) u = (reg_get (dv_reg dv) u \<noteq> None)"
  by (simp add: knows_def rg_reg_def)

section \<open>Each event\<close>

text \<open>Messages of devices.\<close>

lemma outcome_logged:
  assumes "outcome_result clk sid se dv oc = (se', dv', effs)" "dv_region_id dv = rg_id r"
    and "rg_reg r = dv_reg dv'"
  shows "case run_dev_effects clk effs r of (r', out) \<Rightarrow>
    rg_id r' = rg_id r \<and> rg_dev r' = rg_dev r \<and> logged r' (effect_alarms out) (effect_calls out)"
  using assms
  by (cases oc) (auto simp: handler_defs on_device_fault_def knows_def fault_cells_def split: if_splits)

lemma outcome_grows:
  assumes "outcome_result clk sid se dv oc = (se', dv', effs)"
  shows "dv_region_id dv' = dv_region_id dv
    \<and> (\<forall>u. reg_get (dv_reg dv) u \<noteq> None \<longrightarrow> reg_get (dv_reg dv') u \<noteq> None)"
  using assms by (cases oc) (auto simp: handler_defs split: if_splits)

lemma device_message_logged:
  assumes "dv_region_id (rg_dev r) = rg_id r" "device_message clk sid body r = (r', out)"
  shows "grows r r' \<and> logged r' (effect_alarms out) (effect_calls out)"
proof (cases "lock (rg_dev r) sid")
  case None
  with assms(2) show ?thesis by (auto simp: device_message_def on_body_def)
next
  case (Some se)
  obtain se' dv' effs where d: "dispatch clk sid body se (rg_dev r) = (se', dv', effs)"
    by (cases "dispatch clk sid body se (rg_dev r)")
  obtain oc where oc: "outcome_result clk sid se (rg_dev r) oc = (se', dv', effs)"
    using dispatch_outcome [of clk sid body se "rg_dev r"] d by metis
  let ?r = "r\<lparr>rg_dev := set_session sid se' dv'\<rparr>"
  have run: "run_dev_effects clk effs ?r = (r', out)"
    using assms(2) by (simp add: device_message_def on_body_eq [OF Some d])
  from outcome_logged [OF oc, of ?r] outcome_grows [OF oc] assms(1) run show ?thesis
    by (auto simp: rg_reg_def grows_def knows_def)
qed

text \<open>Datagrams.\<close>

lemma command_zone_grows:
  assumes "region_ok r" "command_zone cmds z r = Inr r'"
  shows "grows r r'"
proof -
  from assms(1) have "dv_ok (rg_dev r)" by (simp add: region_ok_def)
  from command_lamps_commanded [OF this, of cmds "get_lamps_in_zone (rg_reg r) z"] assms(2) show ?thesis
    by (auto simp: command_zone_def Let_def commanded_def grows_def knows_def rg_reg_def split: if_splits)
qed

lemma udp_event_logged:
  assumes "region_ok r" "run_udp_event clk e r = Inr (r', out)"
  shows "grows r r' \<and> logged r' (effect_alarms out) (effect_calls out)"
proof (cases e)
  case (Sensor_fault z u c)
  with assms(2) show ?thesis
    by (auto simp: sensor_fault_def Let_def grows_def fault_cells_def) (simp add: knows_def)
qed (use assms command_zone_grows in \<open>auto simp: motion_on_def motion_off_def\<close>)

lemma udp_events_logged:
  assumes "region_ok r" "events_short evs" "run_udp_events clk evs r = Inr (r', out)"
  shows "grows r r' \<and> logged r' (effect_alarms out) (effect_calls out)"
  using assms
proof (induction evs arbitrary: r out)
  case (Cons e evs)
  from run_udp_event_ok [OF Cons.prems(1), of e clk] Cons.prems(2,3) obtain r1 out1 out2
    where one: "run_udp_event clk e r = Inr (r1, out1)" "result_ok (r1, out1)"
      "run_udp_events clk evs r1 = Inr (r', out2)" "out = out1 @ out2"
    by (auto simp: events_short_def split: prod.splits)
  have rest: "grows r1 r' \<and> logged r' (effect_alarms out2) (effect_calls out2)"
    by (rule Cons.IH [OF _ _ one(3)]) (use one(2) Cons.prems(2) in \<open>simp_all add: result_ok_def events_short_def\<close>)
  with udp_event_logged [OF Cons.prems(1) one(1)] show ?case
    by (simp add: one(4)) (blast intro: grows_trans logged_append)
qed simp

lemma datagram_logged:
  assumes "region_ok r" "datagram clk ec data r = Some (r', out)"
  shows "grows r r' \<and> logged r' (effect_alarms out) (effect_calls out)"
proof (cases "\<not> ec \<and> length data \<ge> sizeof_telemetry")
  case False
  with assms(2) show ?thesis by (auto simp: datagram_skipped)
next
  case True
  with assms(2) obtain t where t: "decode_telemetry data = Some t"
    by (cases "decode_telemetry data") (auto simp: datagram_def udp_receive_def)
  obtain reg lm evs where d:
    "on_reading (now_ms clk) t (rg_reg r, rg_last_motion r) = ((reg, lm), evs)"
    "region_ok ((set_reg reg r)\<lparr>rg_last_motion := lm\<rparr>)" "events_short evs"
    "datagram clk ec data r = (case run_udp_events clk evs ((set_reg reg r)\<lparr>rg_last_motion := lm\<rparr>) of
       Inl e \<Rightarrow> None | Inr res \<Rightarrow> Some res)"
    using datagram_split [OF assms(1) _ _ t, of ec clk] True by metis
  have "reg_get reg u \<noteq> None" if "reg_get (rg_reg r) u \<noteq> None" for u
    using reg_get_on_reading [of "now_ms clk" t "(rg_reg r, rg_last_motion r)" u] that by (simp add: d(1))
  then have "grows r ((set_reg reg r)\<lparr>rg_last_motion := lm\<rparr>)" by (simp add: grows_def) (simp add: knows_def)
  moreover have "run_udp_events clk evs ((set_reg reg r)\<lparr>rg_last_motion := lm\<rparr>) = Inr (r', out)"
    using assms(2) by (simp add: d(4) split: sum.splits)
  ultimately show ?thesis using udp_events_logged [OF d(2,3)] grows_trans by blast
qed

text \<open>Connections and the timer.\<close>

lemma alarms_only [simp]: "effect_calls (map (\<lambda>u. Alarm (f u)) us) = []"
  by (induction us) simp_all

lemma region_step_logged:
  assumes "region_ok r" "dv_region_id (rg_dev r) = rg_id r" "region_step t e r = Some (r', out)"
  shows "grows r r' \<and> logged r' (reported e out) (effect_calls out)"
proof (cases e)
  case (Connection a)
  have "grows r (r\<lparr>rg_dev := dev_step a (rg_dev r)\<rparr>)"
    if "dv_reg (dev_step a (rg_dev r)) = dv_reg (rg_dev r)" "dv_region_id (dev_step a (rg_dev r)) = dv_region_id (rg_dev r)"
    using that by (simp add: grows_def knows_def rg_reg_def)
  with Connection assms(2,3) show ?thesis
    by (cases a) (auto simp: do_accept_def map_session_def set_session_def on_close_def expire_def
        device_message_logged split: option.splits)
next
  case (Datagram clk ec data)
  with datagram_logged [OF assms(1)] assms(3) show ?thesis by simp
next
  case (Tick clk)
  obtain reg lost where d: "detect_comm_lost (rg_reg r) (now_ms clk) t = (reg, lost)"
    by (cases "detect_comm_lost (rg_reg r) (now_ms clk) t")
  have "reg_get reg u \<noteq> None" if "reg_get (rg_reg r) u \<noteq> None" for u
    using reg_get_detect [of "rg_reg r" "now_ms clk" t u] that by (simp add: d)
  with comm_lost_tick_eq [OF assms(1) d] assms(3) Tick show ?thesis
    by (auto simp: grows_def knows_def)
qed

lemma region_trace_logged:
  assumes "region_ok r" "dv_region_id (rg_dev r) = rg_id r" "\<forall>e \<in> set es. event_defined e"
    and "region_trace t es r = Some (r', tr)"
  shows "grows r r' \<and> logged r' (trace_reports tr) (trace_calls tr)"
  using assms
proof (induction es arbitrary: r tr)
  case (Cons e es)
  from region_step_ok [of r e t] Cons.prems obtain r1 out1 tr1
    where one: "region_step t e r = Some (r1, out1)" "result_ok (r1, out1)"
      "region_trace t es r1 = Some (r', tr1)" "tr = (e, out1) # tr1"
    by (auto split: option.splits prod.splits)
  note step = region_step_logged [OF Cons.prems(1,2) one(1)]
  have "grows r1 r' \<and> logged r' (trace_reports tr1) (trace_calls tr1)"
    by (rule Cons.IH [OF _ _ _ one(3)])
      (use one(2) Cons.prems(2,3) step in \<open>auto simp: result_ok_def grows_def\<close>)
  with step show ?case
    by (simp add: one(4) trace_reports_def trace_calls_def) (blast intro: grows_trans logged_append)
qed (simp add: trace_reports_def trace_calls_def)

section \<open>The writer's side\<close>

fun action_calls :: "db_action \<Rightarrow> db_call list" where
  "action_calls (Call c) = [c]"
| "action_calls _ = []"

definition calls :: "db_action list \<Rightarrow> db_call list" where
  "calls as = concat (map action_calls as)"

fun call_events :: "db_call \<Rightarrow> db_event list" where
  "call_events (Enqueue ev) = [ev]"
| "call_events (Direct s) = []"

lemma calls_simps [simp]: "calls [] = []" "calls (as @ bs) = calls as @ calls bs" "calls (a # as) = action_calls a @ calls as"
  by (simp_all add: calls_def)

text \<open>While the writer runs it has accepted every event that was given to it.\<close>

lemma accepted_calls:
  assumes "db_run exec d as w" "running w"
  shows "accepted w = concat (map call_events (calls as))"
  using assms
proof (induction rule: db_run.induct)
  case (run_stepped as w a w')
  have "running w"
  proof (cases a)
    case (Call c)
    with run_stepped show ?thesis by (cases c) (simp_all add: writer_defs split: if_splits)
  qed (use run_stepped in \<open>auto simp: writer_defs split: if_splits worker.splits list.splits\<close>)
  show ?case
  proof (cases a)
    case (Call c)
    with run_stepped \<open>running w\<close> show ?thesis by (cases c) (auto simp: writer_defs)
  qed (use run_stepped \<open>running w\<close> in \<open>auto simp: writer_defs split: if_splits worker.splits list.splits\<close>)
qed (auto simp: start_def new_writer_def)

lemma enqueued_stmts:
  "list_all is_enqueue cs \<Longrightarrow> event_stmts (concat (map call_events cs)) = calls_stmts cs"
proof (induction cs)
  case (Cons c cs)
  then show ?case by (cases c) (simp_all add: event_stmts_def)
qed (simp add: event_stmts_def)

lemma no_directs: "list_all is_enqueue (calls as) \<Longrightarrow> directs as = []"
proof (induction as)
  case (Cons a as)
  then have "direct_stmt a = []" by (cases a rule: direct_stmt.cases) simp_all
  with Cons show ?case by (simp add: directs_def)
qed (simp add: directs_def)

lemma drained_history:
  assumes "db_run sql_exec empty_db as w" "running w" "worker w = Exited" "q w = []"
    and "list_all is_enqueue (calls as)" "db w = Some d"
  shows "history (calls_stmts (calls as)) d"
proof -
  have "handled w = concat (map call_events (calls as))"
    using writer_ok_reachable [OF db_run_reachable [OF assms(1)]] accepted_calls [OF assms(1,2)] assms(2-4)
    by (simp add: writer_ok_def)
  with tables.run_holds [OF assms(1,6)] show ?thesis by (simp add: no_directs [OF assms(5)] enqueued_stmts [OF assms(5)])
qed

lemma history_devices:
  "history ss d \<Longrightarrow> set (d ''devices'') = device_row ` set (last_of_key (List.map_filter device_of ss))"
  by (simp add: history_def)

text \<open>A stop request after any calls leads there.\<close>

lemma drain_run:
  "db_run exec d as w \<Longrightarrow> drain exec n w = Some w' \<Longrightarrow> \<exists>bs. db_run exec d (as @ bs) w' \<and> calls bs = []"
proof (induction n arbitrary: as w)
  case 0
  then have "db_run exec d (as @ [Take]) w'" by (auto intro: run_stepped)
  then show ?case by (intro exI [of _ "[Take]"]) simp
next
  case (Suc n)
  from Suc.prems(2) obtain w1 w2 where w: "worker_take w = Some w1" "worker_handle exec w1 = Some w2"
    "drain exec n w2 = Some w'" by (auto simp: bind_eq_Some_conv)
  have "db_run exec d (as @ [Take]) w1" using Suc.prems(1) by (rule run_stepped) (simp add: w(1))
  then have "db_run exec d ((as @ [Take]) @ [Handle]) w2" by (rule run_stepped) (simp add: w(2))
  from Suc.IH [OF this w(3)] obtain bs where "db_run exec d (as @ ([Take, Handle] @ bs)) w'" "calls bs = []" by auto
  then show ?case by (intro exI [of _ "[Take, Handle] @ bs"]) simp
qed

lemma enqueue_run:
  assumes "list_all is_enqueue cs"
  shows "\<exists>w. db_run exec d (map Call cs) w \<and> running w \<and> worker w = Waiting \<and> db w = Some d"
  using assms
proof (induction cs rule: rev_induct)
  case Nil
  have "db_run exec d [] (new_writer\<lparr>db := Some d, running := True, worker := Waiting\<rparr>)"
    by (rule run_started) (simp add: start_def new_writer_def)
  then show ?case by (intro exI [of _ "new_writer\<lparr>db := Some d, running := True, worker := Waiting\<rparr>"]) simp
next
  case (snoc c cs)
  then obtain w where w: "db_run exec d (map Call cs) w" "running w" "worker w = Waiting" "db w = Some d" by auto
  have "db_run exec d (map Call cs @ [Call c]) (perform exec c w)" using w(1) by (rule run_stepped) simp
  moreover have "running (perform exec c w) \<and> worker (perform exec c w) = Waiting \<and> db (perform exec c w) = Some d"
    using w snoc.prems by (cases c) (simp_all add: enqueue_def)
  ultimately show ?case by (intro exI [of _ "perform exec c w"]) simp
qed

lemma stopped_run:
  assumes "list_all is_enqueue cs"
  shows "\<exists>as w d'. db_run exec d as w \<and> calls as = cs \<and> running w \<and> worker w = Exited \<and> q w = [] \<and> db w = Some d'"
proof -
  obtain w where w: "db_run exec d (map Call cs) w" "running w" "worker w = Waiting" "db w = Some d"
    using enqueue_run [OF assms, of exec d] by blast
  have c: "calls (map Call cs) = cs" by (induct cs) simp_all
  let ?w = "stop_begin w"
  have b: "db_run exec d (map Call cs @ [Stop_begin]) ?w" using w(1) by (rule run_stepped) simp
  have "worker ?w = Waiting" "stop_requested ?w" using w by (simp_all add: stop_begin_def)
  from drain_queue [OF this, where exec = exec] obtain w' where "drain exec (length (q ?w)) ?w = Some w'"
    "running w'" "worker w' = Exited" "q w' = []" "db w' \<noteq> None"
    using w by (simp add: stop_begin_def)
  moreover obtain bs where "db_run exec d ((map Call cs @ [Stop_begin]) @ bs) w'" "calls bs = []"
    using drain_run [OF b calculation(1)] by blast
  ultimately show ?thesis using c
    by (intro exI [of _ "(map Call cs @ [Stop_begin]) @ bs"] exI [of _ w']) simp
qed

section \<open>Properties\<close>

text \<open>
  C13: What a region did can be read in its database. Let a region process any events from its start,
  and let the writer be stopped after the calls of its handlers, with the worker in between in any
  order: then the rows of \<^verbatim>\<open>faults\<close> are, one for one and in order, the alarms that the region raised
  for fault reports and sensor markers, with the same URI, region, zone, code and text; alarms of
  the timer leave no row; \<^verbatim>\<open>devices\<close> holds only devices of the registry; and \<^verbatim>\<open>commands\<close> is empty,
  whatever the region commanded.
\<close>

theorem region_database:
  assumes "\<forall>e \<in> set es. event_defined e" "region_trace t es (boot rid) = Some (r, tr)"
    and "db_run sql_exec empty_db as w" "calls as = trace_calls tr"
    and "running w" "worker w = Exited" "q w = []" "db w = Some d"
  shows "map tl (d ''faults'') = map fault_cells (trace_reports tr)
    \<and> (\<forall>row \<in> set (d ''devices''). \<exists>u. hd row = TextV (c_str u) \<and> reg_get (rg_reg r) u \<noteq> None)
    \<and> d ''commands'' = [] \<and> d ''alarm'' = []"
proof -
  have "dv_region_id (rg_dev (boot rid)) = rg_id (boot rid)"
    by (simp add: boot_def Let_def) (simp add: new_server_def)
  from region_trace_logged [OF region_ok_boot this assms(1,2)]
  have l: "logged r (trace_reports tr) (calls as)" by (simp add: assms(4))
  then have e: "list_all is_enqueue (calls as)" by (simp add: logged_def)
  have h: "history (calls_stmts (calls as)) d" by (rule drained_history [OF assms(3,5-7) e assms(8)])
  have "rows_of ''alarm'' (calls_stmts cs) = []" if "list_all is_enqueue cs" for cs
  proof -
    have "\<forall>s \<in> set (calls_stmts cs). tab_name (table_of s) \<noteq> ''alarm''"
      using event_table [of _ "concat (map call_events cs)"] by (simp add: enqueued_stmts [OF that])
    then show ?thesis by (simp add: rows_of_def filter_empty_conv)
  qed
  moreover have "\<exists>u. hd row = TextV (c_str u) \<and> reg_get (rg_reg r) u \<noteq> None" if row: "row \<in> set (d ''devices'')" for row
  proof -
    obtain uv where uv: "row = device_row uv" "uv \<in> set (last_of_key (List.map_filter device_of (calls_stmts (calls as))))"
      using row history_devices [OF h] by auto
    then have "fst uv \<in> fst ` set (List.map_filter device_of (calls_stmts (calls as)))"
      by (metis domI dom_map_of_conv_image_fst map_of_last_of_key image_eqI set_rev)
    then obtain v where "v \<in> set (List.map_filter device_of (calls_stmts (calls as)))" "fst v = fst uv" by force
    then have "\<exists>u. fst uv = c_str u \<and> knows r u" using l by (simp only: logged_def) metis
    with uv(1) show ?thesis by (auto simp: knows_def device_row_def)
  qed
  ultimately show ?thesis using h l e by (simp add: history_def log_tables_def logged_def)
qed

lemma region_database_witness:
  "\<exists>es r tr as w d. region_trace 20000 es (boot 1) = Some (r, tr) \<and> db_run sql_exec empty_db as w
     \<and> calls as = trace_calls tr \<and> db w = Some d
     \<and> map tl (d ''faults'') = [[TextV ''s'', IntV 1, IntV 1, IntV 1, TextV ''sensor_fault'']]"
proof -
  let ?e = "Datagram example_clock False (telemetry_packet ''s'' 1 200 254 235)"
  have "''s'' = take 47 (c_str ''s'')" by simp
  from sensor_marker_raises_alarm [OF region_ok_boot [of 1] this, where clk = example_clock and zone = 1
      and lux = 200 and temp = 235] obtain r out
    where step: "region_step 20000 ?e (boot 1) = Some (r, out)"
      "out = [Db (upsert_device (now_ms_utc example_clock) ''s'' 2 (rg_id (boot 1)) 1 True 0 0 0),
           Db (log_fault (now_ms_utc example_clock) ''s'' (rg_id (boot 1)) 1 1 ''sensor_fault''),
           Alarm \<lparr>al_region_id = rg_id (boot 1), al_ts_unix = time_unix example_clock, al_device_type = 2,
             al_zone_id = 1, al_code = 1, al_uri = ''s'', al_text = ''sensor_fault''\<rparr>]"
    by (auto split: option.splits)
  let ?tr = "[(?e, out)]"
  have tr: "region_trace 20000 [?e] (boot 1) = Some (r, ?tr)" using step(1) by simp
  have "list_all is_enqueue (trace_calls ?tr)"
    by (simp add: trace_calls_def step(2) upsert_device_def log_fault_def)
  from stopped_run [OF this, of sql_exec empty_db] obtain as w d where
    run: "db_run sql_exec empty_db as w" "calls as = trace_calls ?tr" "running w" "worker w = Exited"
      "q w = []" "db w = Some d" by blast
  have "\<forall>e \<in> set [?e]. event_defined e" using decode_packet [of "''s''" 1 200 254 235 "[]"] by simp
  from region_database [OF this tr run]
  have "map tl (d ''faults'') = [[TextV ''s'', IntV (bind_u32 (rg_id (boot 1))), IntV 1, IntV 1, TextV ''sensor_fault'']]"
    by (simp add: trace_reports_def step(2) fault_cells_def bind_u32_def bind_u8_def)
  moreover have "rg_id (boot 1) = 1" by (simp add: boot_def Let_def)
  ultimately have "map tl (d ''faults'') = [[TextV ''s'', IntV 1, IntV 1, IntV 1, TextV ''sensor_fault'']]"
    by (simp add: bind_u32_def)
  with tr run(1,2,6) show ?thesis by (intro exI conjI)
qed

text \<open>
  \<^verbatim>\<open>devices\<close> is not the last known state of each URI: a fault report makes a device faulty in the
  registry and a tick may, but neither touches the table.
\<close>

lemma faults_leave_devices:
  assumes "history ss d"
  shows "case handle_fault clk f se dv of (se', dv', effs) \<Rightarrow>
      \<exists>c ty st. effs = [Db_call c, Fault_cb f ty]
        \<and> reg_get (dv_reg dv') (flt_uri f) = Some st \<and> ds_fault st
        \<and> snd (run_stmts sql_exec d (call_stmts c)) ''devices'' = d ''devices''"
    and "region_ok r \<Longrightarrow> effect_calls (snd (comm_lost_tick clk t r)) = []"
proof -
  show "case handle_fault clk f se dv of (se', dv', effs) \<Rightarrow>
      \<exists>c ty st. effs = [Db_call c, Fault_cb f ty]
        \<and> reg_get (dv_reg dv') (flt_uri f) = Some st \<and> ds_fault st
        \<and> snd (run_stmts sql_exec d (call_stmts c)) ''devices'' = d ''devices''"
    by (simp add: handle_fault_def Let_def log_fault_def handle_fault_event_def exec_plain table_defs)
  show "effect_calls (snd (comm_lost_tick clk t r)) = []" if "region_ok r"
    using comm_lost_tick_eq [OF that, of clk t]
    by (cases "detect_comm_lost (rg_reg r) (now_ms clk) t") (metis alarms_only snd_conv)
qed

end
