(* ===== verification/Registry_Races.thy ===== *)
theory Registry_Races
  imports Device_Server Udp_Server
begin

text \<open>
  The handlers of a region inside: \<^verbatim>\<open>io.run()\<close> is called by several threads, so handlers of different
  connections, of the UDP socket and of the timer overlap, and only the single operations of the
  registry are protected by its mutex. Here a handler is the sequence of its operations on the
  registry; the atomic handlers of the other theories are its runs without interference.
\<close>

section \<open>Handlers as sequences of operations\<close>

text \<open>The value of a handler: the devices that it reports as faulty, by an alarm.\<close>

datatype handler =
    Return "string list"
  | Lookup string "device_state option \<Rightarrow> handler"
  | Write string device_state handler
  | List_lamp string u32 handler
  | Sweep u64 u64 "string list \<Rightarrow> handler"

fun first_op :: "handler \<Rightarrow> registry \<Rightarrow> handler \<times> registry" where
  "first_op (Return v) reg = (Return v, reg)"
| "first_op (Lookup u k) reg = (k (reg_get reg u), reg)"
| "first_op (Write u st h) reg = (h, upsert reg u st)"
| "first_op (List_lamp u z h) reg = (h, register_lamp reg u z)"
| "first_op (Sweep now timeout_ms k) reg =
     (let (reg', lost) = detect_comm_lost reg now timeout_ms in (k lost, reg'))"

text \<open>A handler without interference.\<close>

primrec run_handler :: "handler \<Rightarrow> registry \<Rightarrow> string list \<times> registry" where
  "run_handler (Return v) = (\<lambda>reg. (v, reg))"
| "run_handler (Lookup u k) = (\<lambda>reg. run_handler (k (reg_get reg u)) reg)"
| "run_handler (Write u st h) = (\<lambda>reg. run_handler h (upsert reg u st))"
| "run_handler (List_lamp u z h) = (\<lambda>reg. run_handler h (register_lamp reg u z))"
| "run_handler (Sweep now timeout_ms k) =
     (\<lambda>reg. let (reg', lost) = detect_comm_lost reg now timeout_ms in run_handler (k lost) reg')"

subsection \<open>The handlers of the region\<close>

definition register_handler :: "u64 \<Rightarrow> register_req \<Rightarrow> handler" where
  "register_handler now req =
     (if req_uri req = [] \<or> req_zone_id req = 0 then Return []
      else Write (req_uri req) ((blank_device (req_type req) (req_zone_id req))\<lparr>ds_last_seen_ms := now\<rparr>)
        (if req_type req = LUMINAIRE then List_lamp (req_uri req) (req_zone_id req) (Return [])
         else Return []))"

definition status_handler :: "u64 \<Rightarrow> status_report \<Rightarrow> device_session \<Rightarrow> handler" where
  "status_handler now s se =
     (let store = (\<lambda>st. Write (sr_uri s) (st\<lparr>ds_zone_id := sr_zone_id s, ds_on := sr_on s,
            ds_intensity := sr_intensity s, ds_power_mw := sr_power_mw s, ds_last_seen_ms := now\<rparr>) (Return []))
      in Lookup (sr_uri s) (\<lambda>found. case found of
           Some st \<Rightarrow> store st
         | None \<Rightarrow>
             if \<not> se_registered se \<or> se_uri se = [] \<or> sr_uri s \<noteq> se_uri se then Return []
             else store (blank_device (se_session_type se) (sr_zone_id s))))"

definition fault_handler :: "u64 \<Rightarrow> fault_report \<Rightarrow> device_session \<Rightarrow> handler" where
  "fault_handler now f se =
     Lookup (flt_uri f) (\<lambda>found.
       let st = (case found of
             Some st \<Rightarrow> st
           | None \<Rightarrow>
               if se_registered se \<and> se_uri se \<noteq> [] \<and> flt_uri f = se_uri se
               then blank_device (se_session_type se) (flt_zone_id f)
               else blank_device LUMINAIRE (flt_zone_id f))
       in Write (flt_uri f) (st\<lparr>ds_zone_id := flt_zone_id f, ds_fault := True, ds_last_seen_ms := now\<rparr>)
            (Return [flt_uri f]))"

definition marker_handler :: "u64 \<Rightarrow> reading \<Rightarrow> handler" where
  "marker_handler now t =
     (if rd_motion t = 254
      then Lookup (rd_uri t) (\<lambda>found.
        let callback = Write (rd_uri t) \<lparr>ds_type = SENSOR, ds_zone_id = rd_zone_id t, ds_on = 0,
              ds_intensity = 0, ds_power_mw = 0, ds_fault = True, ds_last_seen_ms = now\<rparr> (Return [rd_uri t])
        in case found of
            Some s2 \<Rightarrow> Write (rd_uri t) (s2\<lparr>ds_fault := True, ds_last_seen_ms := now\<rparr>) callback
          | None \<Rightarrow> callback)
      else Return [])"

definition reading_handler :: "u64 \<Rightarrow> reading \<Rightarrow> handler" where
  "reading_handler now t =
     Lookup (rd_uri t) (\<lambda>found. Write (rd_uri t)
       (case found of
          Some st \<Rightarrow> st\<lparr>ds_type := SENSOR, ds_zone_id := rd_zone_id t, ds_last_seen_ms := now\<rparr>
        | None \<Rightarrow> new_sensor now (rd_zone_id t))
       (marker_handler now t))"

text \<open>The timer looks up each device that it raises an alarm for.\<close>

fun look_up_all :: "string list \<Rightarrow> handler \<Rightarrow> handler" where
  "look_up_all [] h = h"
| "look_up_all (u # us) h = Lookup u (\<lambda>found. look_up_all us h)"

definition tick_handler :: "u64 \<Rightarrow> u64 \<Rightarrow> string list \<Rightarrow> handler" where
  "tick_handler now timeout_ms active =
     Sweep now timeout_ms (\<lambda>lost.
       let new = filter (\<lambda>u. \<not> List.member active u) lost in look_up_all new (Return new))"

section \<open>Without interference: the atomic handlers\<close>

lemma run_register:
  "case handle_register clk sid req se dv of (se', dv', effs) \<Rightarrow>
     run_handler (register_handler (now_ms clk) req) (dv_reg dv) = ([], dv_reg dv')"
  by (simp add: handle_register_def register_handler_def Let_def)

lemma run_status:
  "case handle_status clk s se dv of (se', dv', effs) \<Rightarrow>
     run_handler (status_handler (now_ms clk) s se) (dv_reg dv) = ([], dv_reg dv')"
  by (cases "reg_get (dv_reg dv) (sr_uri s)")
    (auto simp: handle_status_def store_status_def status_handler_def Let_def)

lemma run_fault:
  "case handle_fault clk f se dv of (se', dv', effs) \<Rightarrow>
     run_handler (fault_handler (now_ms clk) f se) (dv_reg dv) = ([flt_uri f], dv_reg dv')"
  by (simp add: handle_fault_def fault_handler_def Let_def)

lemma run_reading:
  "case on_reading now t (reg, lm) of ((reg', lm'), evs) \<Rightarrow>
     run_handler (reading_handler now t) reg =
       (if rd_motion t = 254
        then ([rd_uri t], upsert reg' (rd_uri t) \<lparr>ds_type = SENSOR, ds_zone_id = rd_zone_id t, ds_on = 0,
          ds_intensity = 0, ds_power_mw = 0, ds_fault = True, ds_last_seen_ms = now\<rparr>)
        else ([], reg'))"
  by (simp add: on_reading_def update_sensor_def mark_sensor_fault_def reading_handler_def
      marker_handler_def Let_def split: option.split prod.split)

lemma run_look_up_all [simp]: "run_handler (look_up_all us h) = run_handler h"
  by (induction us) simp_all

lemma run_tick:
  "run_handler (tick_handler now t active) reg =
     (case detect_comm_lost reg now t of (reg', lost) \<Rightarrow> (filter (\<lambda>u. u \<notin> set active) lost, reg'))"
  by (simp add: tick_handler_def Let_def split: prod.split)

lemma run_first_op: "run_handler h reg = (case first_op h reg of (h', reg') \<Rightarrow> run_handler h' reg')"
  by (cases h) (simp_all split: prod.split)

section \<open>Interleavings\<close>

text \<open>One handler per thread; a schedule is the list of the threads that make the next operation.\<close>

type_synonym threads = "handler list \<times> registry"

definition thread_step :: "nat \<Rightarrow> threads \<Rightarrow> threads" where
  "thread_step i = (\<lambda>(hs, reg).
     if i < length hs then (let (h, reg') = first_op (hs ! i) reg in (hs[i := h], reg')) else (hs, reg))"

definition run_schedule :: "nat list \<Rightarrow> threads \<Rightarrow> threads" where
  "run_schedule = fold thread_step"

fun returned :: "handler \<Rightarrow> bool" where
  "returned (Return v) = True"
| "returned _ = False"

fun value_of :: "handler \<Rightarrow> string list" where
  "value_of (Return v) = v"
| "value_of _ = []"

text \<open>The same handlers one after the other.\<close>

definition serial :: "handler list \<Rightarrow> registry \<Rightarrow> registry" where
  "serial hs reg = fold (\<lambda>h reg. snd (run_handler h reg)) hs reg"

text \<open>The events that start a handler, each with the URI of the device that it is about.\<close>

datatype job =
    Register_job u64 register_req
  | Status_job u64 status_report device_session
  | Fault_job u64 fault_report device_session
  | Reading_job u64 reading
  | Tick_job u64 u64 "string list"

fun handler_of :: "job \<Rightarrow> handler" where
  "handler_of (Register_job now req) = register_handler now req"
| "handler_of (Status_job now s se) = status_handler now s se"
| "handler_of (Fault_job now f se) = fault_handler now f se"
| "handler_of (Reading_job now t) = reading_handler now t"
| "handler_of (Tick_job now timeout_ms active) = tick_handler now timeout_ms active"

fun job_uri :: "job \<Rightarrow> string option" where
  "job_uri (Register_job now req) = Some (req_uri req)"
| "job_uri (Status_job now s se) = Some (sr_uri s)"
| "job_uri (Fault_job now f se) = Some (flt_uri f)"
| "job_uri (Reading_job now t) = Some (rd_uri t)"
| "job_uri (Tick_job now timeout_ms active) = None"

definition device_faulty :: "registry \<Rightarrow> string \<Rightarrow> bool" where
  "device_faulty reg u \<longleftrightarrow> (\<exists>st. reg_get reg u = Some st \<and> ds_fault st)"

section \<open>Every handler returns\<close>

lemma thread_step_simp:
  "i < length hs \<Longrightarrow> thread_step i (hs, reg) = (hs[i := fst (first_op (hs ! i) reg)], snd (first_op (hs ! i) reg))"
  by (simp add: thread_step_def split: prod.split)

lemma run_schedule_simps [simp]:
  "run_schedule [] c = c" "run_schedule (i # is) c = run_schedule is (thread_step i c)"
  "run_schedule (is @ js) c = run_schedule js (run_schedule is c)"
  by (simp_all add: run_schedule_def)

lemma length_thread_step: "length (fst (thread_step i c)) = length (fst c)"
  by (simp add: thread_step_def split: prod.split)

lemma length_run_schedule: "length (fst (run_schedule is c)) = length (fst c)"
  by (induction "is" arbitrary: c) (simp_all add: length_thread_step)

definition can_return :: "nat \<Rightarrow> threads \<Rightarrow> bool" where
  "can_return i c \<longleftrightarrow> (\<exists>n v reg'. run_schedule (replicate n i) c = ((fst c)[i := Return v], reg'))"

lemma can_return_step:
  assumes "first_op (hs ! i) reg = (h, reg1)" "i < length hs"
    and "\<And>hs reg. h = hs ! i \<Longrightarrow> i < length hs \<Longrightarrow> can_return i (hs, reg)"
  shows "can_return i (hs, reg)"
proof -
  have one: "thread_step i (hs, reg) = (hs[i := h], reg1)" using assms(1,2) by (simp add: thread_step_simp)
  obtain n v reg' where "run_schedule (replicate n i) (hs[i := h], reg1) = (hs[i := Return v], reg')"
    using assms(3) [of "hs[i := h]" reg1] assms(2) by (auto simp: can_return_def)
  then have "run_schedule (replicate (Suc n) i) (hs, reg) = (hs[i := Return v], reg')" by (simp add: one)
  then show ?thesis unfolding can_return_def fst_conv by blast
qed

lemma thread_returns: "i < length hs \<Longrightarrow> can_return i (hs, reg)"
proof (induction "hs ! i" arbitrary: hs reg)
  case (Return v)
  have "hs[i := Return v] = hs" by (simp add: Return.hyps)
  then have "run_schedule (replicate 0 i) (hs, reg) = (hs[i := Return v], reg)" by simp
  then show ?case unfolding can_return_def fst_conv by blast
next
  case (Lookup u k)
  have ret: "can_return i (hs, reg)" if "k found = hs ! i" "i < length hs" for found hs reg
    using Lookup.hyps(1) [of hs reg] that by (metis rangeI)
  show ?case by (rule can_return_step [OF _ Lookup.prems ret]) (simp_all add: Lookup.hyps(2) [symmetric])
next
  case (Write u st h)
  show ?case by (rule can_return_step [OF _ Write.prems Write.hyps(1)]) (simp_all add: Write.hyps(2) [symmetric])
next
  case (List_lamp u z h)
  show ?case by (rule can_return_step [OF _ List_lamp.prems List_lamp.hyps(1)]) (simp_all add: List_lamp.hyps(2) [symmetric])
next
  case (Sweep now t k)
  have ret: "can_return i (hs, reg)" if "k lost = hs ! i" "i < length hs" for lost hs reg
    using Sweep.hyps(1) [of hs reg] that by (metis rangeI)
  show ?case
    by (rule can_return_step [OF _ Sweep.prems ret]) (simp_all add: Sweep.hyps(2) [symmetric] case_prod_unfold Let_def)
qed

lemma handlers_return: "\<exists>sched. list_all returned (fst (run_schedule sched (hs, reg)))"
proof -
  have "\<exists>sched. \<forall>j < n. returned (fst (run_schedule sched (hs, reg)) ! j)" if "n \<le> length hs" for n
    using that
  proof (induction n)
    case (Suc n)
    then obtain sched hs1 reg1 where s: "run_schedule sched (hs, reg) = (hs1, reg1)" "\<forall>j < n. returned (hs1 ! j)"
      by (metis Suc_leD prod.collapse)
    have len: "length hs1 = length hs" using length_run_schedule [of sched "(hs, reg)"] s(1) by simp
    then obtain m v reg2 where "run_schedule (replicate m n) (hs1, reg1) = (hs1[n := Return v], reg2)"
      using thread_returns [of n hs1 reg1] Suc.prems by (auto simp: can_return_def)
    then have "run_schedule (sched @ replicate m n) (hs, reg) = (hs1[n := Return v], reg2)" by (simp add: s(1))
    moreover have "\<forall>j < Suc n. returned (hs1[n := Return v] ! j)"
      using s(2) Suc.prems len by (auto simp: less_Suc_eq)
    ultimately show ?case by (metis fst_conv)
  qed simp
  then show ?thesis by (auto simp: list_all_length length_run_schedule)
qed

section \<open>Handlers of different devices\<close>

text \<open>All that concerns one device: its entry, and the zones that list it as a lamp.\<close>

definition view :: "string \<Rightarrow> registry \<Rightarrow> device_state option \<times> (u32 \<Rightarrow> bool)" where
  "view u reg = (reg_get reg u, \<lambda>z. u \<in> set (get_lamps_in_zone reg z))"

inductive only :: "string \<Rightarrow> handler \<Rightarrow> bool" for u where
  "only u (Return v)"
| "(\<And>found. only u (k found)) \<Longrightarrow> only u (Lookup u k)"
| "only u h \<Longrightarrow> only u (Write u st h)"
| "only u h \<Longrightarrow> only u (List_lamp u z h)"

inductive_simps only_simps [simp]:
  "only u (Return v)" "only u (Lookup w k)" "only u (Write w st h)" "only u (List_lamp w z h)"
  "only u (Sweep now t k)"

lemma only_job: "job_uri j = Some u \<Longrightarrow> only u (handler_of j)"
  by (cases j) (auto simp: register_handler_def status_handler_def fault_handler_def
      reading_handler_def marker_handler_def Let_def split: option.split)

lemma view_upsert: "view u (upsert reg w st) =
    (if u = w then (Some st, \<lambda>z. u \<in> set (get_lamps_in_zone reg z) \<or> ds_type st = LUMINAIRE \<and> z = ds_zone_id st \<and> z \<noteq> 0)
     else view u reg)"
  by (auto simp: view_def lamps_upsert fun_eq_iff)

lemma view_register_lamp: "view u (register_lamp reg w z) =
    (if u = w then (reg_get reg u, \<lambda>y. u \<in> set (get_lamps_in_zone reg y) \<or> y = z) else view u reg)"
  by (auto simp: view_def lamps_register_lamp fun_eq_iff)

lemma view_eq_iff: "view u r1 = view u r2 \<longleftrightarrow> reg_get r1 u = reg_get r2 u
    \<and> (\<forall>z. u \<in> set (get_lamps_in_zone r1 z) \<longleftrightarrow> u \<in> set (get_lamps_in_zone r2 z))"
  by (auto simp: view_def fun_eq_iff)

lemma first_op_local:
  assumes "only u h" "view u r1 = view u r2"
  shows "fst (first_op h r1) = fst (first_op h r2) \<and> view u (snd (first_op h r1)) = view u (snd (first_op h r2))"
proof -
  have e: "reg_get r1 u = reg_get r2 u"
    "\<And>z. u \<in> set (get_lamps_in_zone r1 z) \<longleftrightarrow> u \<in> set (get_lamps_in_zone r2 z)"
    using assms(2) by (simp_all add: view_eq_iff)
  show ?thesis using assms(1) by cases (simp_all add: view_upsert view_register_lamp e assms(2))
qed

lemma first_op_only:
  assumes "only u h"
  shows "only u (fst (first_op h reg)) \<and> (v \<noteq> u \<longrightarrow> view v (snd (first_op h reg)) = view v reg)"
  using assms by (cases h) (auto simp: view_upsert view_register_lamp)

lemma run_local:
  assumes "only u h" "view u r1 = view u r2"
  shows "fst (run_handler h r1) = fst (run_handler h r2)
    \<and> view u (snd (run_handler h r1)) = view u (snd (run_handler h r2))"
  using assms
proof (induction arbitrary: r1 r2)
  case (2 k)
  then have "reg_get r1 u = reg_get r2 u" by (simp add: view_eq_iff)
  then show ?case using 2(2) [OF 2(3), of "reg_get r2 u"] by (simp only: run_handler.simps)
next
  case (3 h st)
  then have "view u (upsert r1 u st) = view u (upsert r2 u st)" by (simp add: view_eq_iff view_upsert)
  from 3(2) [OF this] show ?case by (simp only: run_handler.simps)
next
  case (4 h z)
  then have "view u (register_lamp r1 u z) = view u (register_lamp r2 u z)"
    by (simp add: view_eq_iff view_register_lamp)
  from 4(2) [OF this] show ?case by (simp only: run_handler.simps)
qed simp

lemma run_only: "only u h \<Longrightarrow> v \<noteq> u \<Longrightarrow> view v (snd (run_handler h reg)) = view v reg"
  by (induction arbitrary: reg rule: only.induct) (auto simp: view_upsert view_register_lamp)

text \<open>
  The invariant of an interleaving: completing any thread alone from here gives its device and its
  value what they would be, had it run alone from the start.
\<close>

definition completes_to :: "string list \<Rightarrow> threads \<Rightarrow> threads \<Rightarrow> bool" where
  "completes_to us c c' \<longleftrightarrow>
     list_all2 only us (fst c') \<and> length (fst c) = length (fst c')
     \<and> (\<forall>i < length us.
         fst (run_handler (fst c' ! i) (snd c')) = fst (run_handler (fst c ! i) (snd c))
         \<and> view (us ! i) (snd (run_handler (fst c' ! i) (snd c')))
           = view (us ! i) (snd (run_handler (fst c ! i) (snd c))))
     \<and> (\<forall>v. v \<notin> set us \<longrightarrow> view v (snd c') = view v (snd c))"

lemma completes_to_refl: "list_all2 only us hs \<Longrightarrow> completes_to us (hs, reg) (hs, reg)"
  by (simp add: completes_to_def)

lemma completes_to_step:
  assumes "completes_to us c c'" "distinct us"
  shows "completes_to us c (thread_step i c')"
proof (cases "i < length (fst c')")
  case False
  with assms(1) show ?thesis by (simp add: thread_step_def case_prod_unfold)
next
  case True
  obtain hs reg where c': "c' = (hs, reg)" by (cases c')
  let ?h = "fst (first_op (hs ! i) reg)" and ?reg = "snd (first_op (hs ! i) reg)"
  have step: "thread_step i c' = (hs[i := ?h], ?reg)" using True by (simp add: c' thread_step_simp)
  have all: "list_all2 only us hs" using assms(1) by (simp add: completes_to_def c')
  then have len: "length us = length hs" by (rule list_all2_lengthD)
  have only: "only (us ! j) (hs ! j)" if "j < length us" for j using all that by (simp add: list_all2_nthD)
  have i: "i < length us" using True len by (simp add: c')
  have others: "view v ?reg = view v reg" if "v \<noteq> us ! i" for v
    using first_op_only [OF only [OF i]] that by simp
  have new: "list_all2 only us (hs[i := ?h])"
    using list_all2_update_cong [OF all, of "us ! i" ?h i] first_op_only [OF only [OF i]] by simp
  have "run_handler (hs[i := ?h] ! j) ?reg = run_handler (hs ! i) reg" if "j = i" for j
    using that i len run_first_op [of "hs ! i" reg] by (simp add: case_prod_unfold)
  moreover have "fst (run_handler (hs[i := ?h] ! j) ?reg) = fst (run_handler (hs ! j) reg)
      \<and> view (us ! j) (snd (run_handler (hs[i := ?h] ! j) ?reg)) = view (us ! j) (snd (run_handler (hs ! j) reg))"
    if "j \<noteq> i" "j < length us" for j
  proof -
    have "us ! j \<noteq> us ! i" using assms(2) that i by (simp add: nth_eq_iff_index_eq)
    from run_local [OF only [OF that(2)] others [OF this]] that(1) show ?thesis by simp
  qed
  ultimately have "fst (run_handler (hs[i := ?h] ! j) ?reg) = fst (run_handler (hs ! j) reg)
      \<and> view (us ! j) (snd (run_handler (hs[i := ?h] ! j) ?reg)) = view (us ! j) (snd (run_handler (hs ! j) reg))"
    if "j < length us" for j
    using that by (cases "j = i") auto
  moreover have "view v ?reg = view v reg" if "v \<notin> set us" for v
    using others that i by (metis nth_mem)
  ultimately show ?thesis
    using assms(1) new unfolding step unfolding completes_to_def c' fst_conv snd_conv by simp
qed

lemma completes_to_run: "completes_to us c c' \<Longrightarrow> distinct us \<Longrightarrow> completes_to us c (run_schedule is c')"
proof (induction "is" arbitrary: c')
  case (Cons i "is")
  then show ?case using completes_to_step [OF Cons.prems] by simp
qed simp

lemma serial_view:
  assumes "list_all2 only us hs" "distinct us"
  shows "(\<forall>i < length us. view (us ! i) (serial hs reg) = view (us ! i) (snd (run_handler (hs ! i) reg)))
    \<and> (\<forall>v. v \<notin> set us \<longrightarrow> view v (serial hs reg) = view v reg)"
  using assms
proof (induction arbitrary: reg rule: list_all2_induct)
  case (Cons u us h hs)
  let ?reg = "snd (run_handler h reg)"
  have s: "serial (h # hs) reg = serial hs ?reg" by (simp add: serial_def)
  have other: "view v ?reg = view v reg" if "v \<noteq> u" for v using run_only [OF Cons.hyps(1) that] .
  have "view (us ! i) (snd (run_handler (hs ! i) ?reg)) = view (us ! i) (snd (run_handler (hs ! i) reg))"
    if "i < length us" for i
  proof -
    have "us ! i \<noteq> u" using that Cons.prems by (metis distinct.simps(2) nth_mem)
    from run_local [OF list_all2_nthD [OF Cons.hyps(2) that] other [OF this]] show ?thesis by simp
  qed
  with Cons.IH [of ?reg] Cons.prems other show ?case
    unfolding s by (auto simp: nth_Cons split: nat.split)
qed (simp add: serial_def)

section \<open>Handlers that report a fault\<close>

fun reports_fault :: "string \<Rightarrow> job \<Rightarrow> bool" where
  "reports_fault u (Fault_job now f se) \<longleftrightarrow> flt_uri f = u"
| "reports_fault u (Reading_job now t) \<longleftrightarrow> rd_uri t = u \<and> rd_motion t = 254"
| "reports_fault u _ \<longleftrightarrow> False"

text \<open>Handlers that never write the device \<open>u\<close>, and handlers whose last write marks it faulty.\<close>

inductive spares :: "string \<Rightarrow> handler \<Rightarrow> bool" for u where
  "spares u (Return v)"
| "(\<And>found. spares u (k found)) \<Longrightarrow> spares u (Lookup w k)"
| "w \<noteq> u \<Longrightarrow> spares u h \<Longrightarrow> spares u (Write w st h)"
| "spares u h \<Longrightarrow> spares u (List_lamp w z h)"
| "(\<And>lost. spares u (k lost)) \<Longrightarrow> spares u (Sweep now t k)"

inductive_simps spares_simps [simp]:
  "spares u (Return v)" "spares u (Lookup w k)" "spares u (Write w st h)" "spares u (List_lamp w z h)"
  "spares u (Sweep now t k)"

inductive marks :: "string \<Rightarrow> handler \<Rightarrow> bool" for u where
  "ds_fault st \<Longrightarrow> u \<in> set v \<Longrightarrow> marks u (Write u st (Return v))"
| "marks u h \<Longrightarrow> marks u (Write w st h)"
| "(\<And>found. marks u (k found)) \<Longrightarrow> marks u (Lookup w k)"

inductive_simps marks_simps [simp]:
  "marks u (Return v)" "marks u (Write w st h)" "marks u (Lookup w k)"

lemma spares_look_up_all: "spares u h \<Longrightarrow> spares u (look_up_all us h)"
  by (induction us) simp_all

lemma spares_only: "only w h \<Longrightarrow> w \<noteq> u \<Longrightarrow> spares u h"
  by (induction rule: only.induct) auto

lemma spares_job:
  assumes "job_uri j \<noteq> Some u"
  shows "spares u (handler_of j)"
proof (cases "job_uri j")
  case None
  then show ?thesis by (cases j) (simp_all add: tick_handler_def Let_def spares_look_up_all)
next
  case (Some w)
  with assms spares_only [OF only_job [OF Some]] show ?thesis by simp
qed

lemma marks_job: "reports_fault u j \<Longrightarrow> marks u (handler_of j)"
  by (cases j) (auto simp: fault_handler_def reading_handler_def marker_handler_def Let_def
      split: option.split)

lemma spares_step:
  assumes "spares u h"
  shows "spares u (fst (first_op h reg)) \<and> (device_faulty reg u \<longrightarrow> device_faulty (snd (first_op h reg)) u)"
  using assms
  by cases (auto simp: device_faulty_def case_prod_unfold Let_def reg_get_detect)

lemma marks_step:
  assumes "marks u h"
  shows "marks u (fst (first_op h reg))
    \<or> (\<exists>v. fst (first_op h reg) = Return v \<and> u \<in> set v \<and> device_faulty (snd (first_op h reg)) u)"
  using assms by cases (auto simp: device_faulty_def)

definition fault_pending :: "string \<Rightarrow> nat \<Rightarrow> threads \<Rightarrow> bool" where
  "fault_pending u i c \<longleftrightarrow> i < length (fst c) \<and> (\<forall>k < length (fst c). k \<noteq> i \<longrightarrow> spares u (fst c ! k))
     \<and> (marks u (fst c ! i) \<or> (\<exists>v. fst c ! i = Return v \<and> u \<in> set v \<and> device_faulty (snd c) u))"

lemma fault_pending_step: "fault_pending u i c \<Longrightarrow> fault_pending u i (thread_step k c)"
proof (cases "k < length (fst c)")
  case True
  assume p: "fault_pending u i c"
  obtain hs reg where c: "c = (hs, reg)" by (cases c)
  note step = thread_step_simp [of k hs reg]
  show ?thesis
  proof (cases "k = i")
    case True
    with p show ?thesis using marks_step [of u "hs ! i" reg] step by (auto simp: fault_pending_def c)
  next
    case False
    with p True have "spares u (hs ! k)" by (simp add: fault_pending_def c)
    from spares_step [OF this, of reg] p True False show ?thesis
      using step by (auto simp: fault_pending_def c nth_list_update)
  qed
qed (simp add: thread_step_def case_prod_unfold)

lemma fault_pending_run: "fault_pending u i c \<Longrightarrow> fault_pending u i (run_schedule is c)"
proof (induction "is" arbitrary: c)
  case (Cons i "is")
  then show ?case using fault_pending_step [OF Cons.prems] by simp
qed simp

section \<open>Handlers that keep a fault\<close>

text \<open>
  \<open>keeps u\<close>: as long as the device \<open>u\<close> is faulty whenever the handler looks it up, the handler writes it as
  faulty only. \<open>names u\<close>: the handler names \<open>u\<close> in its value only if a sweep found it silent.
\<close>

inductive keeps :: "string \<Rightarrow> handler \<Rightarrow> bool" for u where
  "keeps u (Return v)"
| "(\<And>found. w = u \<Longrightarrow> \<exists>st. found = Some st \<and> ds_fault st \<Longrightarrow> keeps u (k found))
     \<Longrightarrow> (\<And>found. w \<noteq> u \<Longrightarrow> keeps u (k found)) \<Longrightarrow> keeps u (Lookup w k)"
| "(w = u \<Longrightarrow> ds_fault st) \<Longrightarrow> keeps u h \<Longrightarrow> keeps u (Write w st h)"
| "keeps u h \<Longrightarrow> keeps u (List_lamp w z h)"
| "(\<And>lost. keeps u (k lost)) \<Longrightarrow> keeps u (Sweep now t k)"

inductive_simps keeps_simps [simp]:
  "keeps u (Return v)" "keeps u (Lookup w k)" "keeps u (Write w st h)" "keeps u (List_lamp w z h)"
  "keeps u (Sweep now t k)"

inductive names_swept :: "string \<Rightarrow> handler \<Rightarrow> bool" for u where
  "u \<notin> set v \<Longrightarrow> names_swept u (Return v)"
| "(\<And>found. names_swept u (k found)) \<Longrightarrow> names_swept u (Lookup w k)"
| "names_swept u h \<Longrightarrow> names_swept u (Write w st h)"
| "names_swept u h \<Longrightarrow> names_swept u (List_lamp w z h)"
| "(\<And>lost. u \<notin> set lost \<Longrightarrow> names_swept u (k lost)) \<Longrightarrow> names_swept u (Sweep now t k)"

inductive_simps names_swept_simps [simp]:
  "names_swept u (Return v)" "names_swept u (Lookup w k)" "names_swept u (Write w st h)"
  "names_swept u (List_lamp w z h)" "names_swept u (Sweep now t k)"

fun registers_job :: "string \<Rightarrow> job \<Rightarrow> bool" where
  "registers_job u (Register_job now req) \<longleftrightarrow> req_uri req = u \<and> req_uri req \<noteq> [] \<and> req_zone_id req \<noteq> 0"
| "registers_job u _ \<longleftrightarrow> False"

fun is_tick :: "job \<Rightarrow> bool" where
  "is_tick (Tick_job now timeout_ms active) \<longleftrightarrow> True"
| "is_tick _ \<longleftrightarrow> False"

lemma keeps_look_up_all: "keeps u h \<Longrightarrow> keeps u (look_up_all us h)"
  by (induction us) simp_all

lemma names_swept_look_up_all: "names_swept u h \<Longrightarrow> names_swept u (look_up_all us h)"
  by (induction us) simp_all

lemma keeps_job: "\<not> registers_job u j \<Longrightarrow> keeps u (handler_of j)"
  by (cases j) (auto simp: register_handler_def status_handler_def fault_handler_def
      reading_handler_def marker_handler_def tick_handler_def Let_def
      intro!: keeps_look_up_all split: option.split)

lemma names_swept_tick: "is_tick j \<Longrightarrow> names_swept u (handler_of j)"
  by (cases j) (auto simp: tick_handler_def Let_def intro!: names_swept_look_up_all)

lemma keeps_step:
  "keeps u h \<Longrightarrow> device_faulty reg u
     \<Longrightarrow> keeps u (fst (first_op h reg)) \<and> device_faulty (snd (first_op h reg)) u"
  by (cases h) (auto simp: device_faulty_def case_prod_unfold Let_def reg_get_detect)

lemma names_swept_step:
  assumes "names_swept u h" "device_faulty reg u" "registry_ok reg"
  shows "names_swept u (fst (first_op h reg))"
proof -
  have "distinct (keys (dev reg))" using assms(3) by (simp add: registry_ok_def)
  from lost_iff [OF this, of u] assms(2) have "u \<notin> set (snd (detect_comm_lost reg now t))" for now t
    by (auto simp: device_faulty_def is_lost_def)
  with assms(1) show ?thesis by (cases h) (auto simp: case_prod_unfold Let_def)
qed

lemma registry_ok_first_op: "registry_ok reg \<Longrightarrow> registry_ok (snd (first_op h reg))"
  by (cases h) (auto simp: case_prod_unfold Let_def
      intro: registry_ok_upsert registry_ok_register_lamp registry_ok_detect)

text \<open>The device is faulty, every thread keeps it so, and no timer among the threads reports it.\<close>

definition fault_kept :: "string \<Rightarrow> nat set \<Rightarrow> threads \<Rightarrow> bool" where
  "fault_kept u ticks c \<longleftrightarrow> registry_ok (snd c) \<and> device_faulty (snd c) u \<and> list_all (keeps u) (fst c)
     \<and> (\<forall>i \<in> ticks. i < length (fst c) \<longrightarrow> names_swept u (fst c ! i))"

lemma list_all_update: "list_all P xs \<Longrightarrow> P x \<Longrightarrow> list_all P (xs[i := x])"
  using set_update_subset_insert [of xs i x] by (auto simp: list_all_iff)

lemma fault_kept_thread_step: "fault_kept u ticks c \<Longrightarrow> fault_kept u ticks (thread_step i c)"
proof (cases "i < length (fst c)")
  case True
  assume k: "fault_kept u ticks c"
  obtain hs reg where c: "c = (hs, reg)" by (cases c)
  have here: "registry_ok reg" "device_faulty reg u" "keeps u (hs ! i)" "list_all (keeps u) hs"
    using k True by (auto simp: fault_kept_def c list_all_length)
  have "list_all (keeps u) (hs[i := fst (first_op (hs ! i) reg)])"
    by (intro list_all_update here(4) keeps_step [OF here(3,2), THEN conjunct1])
  moreover have "names_swept u (hs[i := fst (first_op (hs ! i) reg)] ! j)" if "j \<in> ticks" "j < length hs" for j
  proof (cases "j = i")
    case True
    with that k show ?thesis using names_swept_step [OF _ here(2,1), of "hs ! i"] by (simp add: fault_kept_def c)
  next
    case False
    with that k show ?thesis by (simp add: fault_kept_def c)
  qed
  ultimately show ?thesis
    using keeps_step [OF here(3,2)] registry_ok_first_op [OF here(1)] thread_step_simp [of i hs reg] True
    by (simp add: fault_kept_def c)
qed (simp add: thread_step_def case_prod_unfold)

lemma fault_kept_schedule: "fault_kept u ticks c \<Longrightarrow> fault_kept u ticks (run_schedule is c)"
proof (induction "is" arbitrary: c)
  case (Cons i "is")
  then show ?case using fault_kept_thread_step [OF Cons.prems] by simp
qed simp

lemma run_look_ups:
  "run_schedule (replicate (length us) (Suc 0)) ([h, look_up_all us (Return v)], reg) = ([h, Return v], reg)"
  by (induction us) (simp_all add: thread_step_def)

section \<open>Properties\<close>

text \<open>
  C14: Handlers of different devices do not interfere: whatever the schedule of their operations on the
  registry, every handler returns, and when all have, every device, the lamps of every zone and the
  faults that the handlers report are as if the handlers had run one after the other.
\<close>

theorem disjoint_handlers_serializable:
  assumes "distinct (map job_uri jobs)" "None \<notin> set (map job_uri jobs)"
  shows "(\<exists>sched. list_all returned (fst (run_schedule sched (map handler_of jobs, reg))))
    \<and> (\<forall>sched hs reg'. run_schedule sched (map handler_of jobs, reg) = (hs, reg') \<and> list_all returned hs \<longrightarrow>
         reg_get reg' = reg_get (serial (map handler_of jobs) reg)
         \<and> (\<forall>z. set (get_lamps_in_zone reg' z) = set (get_lamps_in_zone (serial (map handler_of jobs) reg) z))
         \<and> map value_of hs = map (\<lambda>j. fst (run_handler (handler_of j) reg)) jobs)"
proof -
  let ?us = "map (the \<circ> job_uri) jobs" and ?hs = "map handler_of jobs"
  have some: "job_uri j = Some (the (job_uri j))" if "j \<in> set jobs" for j
    using assms(2) that by (cases "job_uri j") (auto simp: image_iff)
  then have "map job_uri jobs = map Some ?us" by simp
  then have dist: "distinct ?us" using assms(1) by (metis distinct_map)
  have all: "list_all2 only ?us ?hs" using some only_job by (auto simp: list_all2_conv_all_nth)
  have "reg_get reg' = reg_get (serial ?hs reg)
      \<and> (\<forall>z. set (get_lamps_in_zone reg' z) = set (get_lamps_in_zone (serial ?hs reg) z))
      \<and> map value_of hs = map (\<lambda>j. fst (run_handler (handler_of j) reg)) jobs"
    if run: "run_schedule sched (?hs, reg) = (hs, reg')" "list_all returned hs" for sched hs reg'
  proof -
    have c: "completes_to ?us (?hs, reg) (hs, reg')"
      using completes_to_run [OF completes_to_refl [OF all, of reg] dist, of sched] run(1) by simp
    have len: "length hs = length jobs" using length_run_schedule [of sched "(?hs, reg)"] run(1) by simp
    have ret: "run_handler (hs ! i) reg' = (value_of (hs ! i), reg')" if "i < length jobs" for i
      using run(2) that len by (cases "hs ! i") (auto simp: list_all_length)
    have "view v reg' = view v (serial ?hs reg)" for v
    proof (cases "v \<in> set ?us")
      case True
      then obtain i where "i < length ?us" "v = ?us ! i" by (metis in_set_conv_nth)
      with c ret [of i] serial_view [OF all dist, of reg] show ?thesis by (auto simp: completes_to_def)
    next
      case False
      with c serial_view [OF all dist, of reg] show ?thesis by (simp add: completes_to_def)
    qed
    moreover have "map value_of hs = map (\<lambda>j. fst (run_handler (handler_of j) reg)) jobs"
      using c ret len by (intro nth_equalityI) (auto simp: completes_to_def)
    ultimately show ?thesis by (auto simp: view_def fun_eq_iff)
  qed
  with handlers_return [of ?hs reg] show ?thesis by blast
qed

definition race_reading :: "string \<Rightarrow> u8 \<Rightarrow> job" where
  "race_reading u m = Reading_job 1000 \<lparr>rd_uri = u, rd_zone_id = 1, rd_lux = 10, rd_motion = m, rd_temp10 = 235\<rparr>"

lemma disjoint_handlers_serializable_witness:
  "\<exists>sched hs reg'. run_schedule sched (map handler_of [race_reading ''a'' 254, race_reading ''b'' 1], empty_registry)
       = (hs, reg')
     \<and> map value_of hs = [[''a''], []] \<and> device_faulty reg' ''a'' \<and> \<not> device_faulty reg' ''b''"
proof -
  let ?jobs = "[race_reading ''a'' 254, race_reading ''b'' 1]"
  have "distinct (map job_uri ?jobs)" "None \<notin> set (map job_uri ?jobs)" by (simp_all add: race_reading_def)
  note now_holds = disjoint_handlers_serializable [OF this, of empty_registry]
  from now_holds obtain sched hs reg' where r: "run_schedule sched (map handler_of ?jobs, empty_registry) = (hs, reg')"
    "list_all returned hs" by (metis fst_conv prod.collapse)
  with now_holds have e: "reg_get reg' = reg_get (serial (map handler_of ?jobs) empty_registry)"
    "map value_of hs = map (\<lambda>j. fst (run_handler (handler_of j) empty_registry)) ?jobs" by blast+
  have "map value_of hs = [[''a''], []]"
    unfolding e(2) by (simp add: race_reading_def reading_handler_def marker_handler_def Let_def)
  moreover have "device_faulty reg' ''a'' \<and> \<not> device_faulty reg' ''b''"
    unfolding device_faulty_def e(1)
    by (simp add: serial_def race_reading_def reading_handler_def marker_handler_def Let_def new_sensor_def)
      (simp add: empty_registry_def reg_get_def new_sensor_def)
  ultimately show ?thesis using r(1) by (intro exI conjI) (assumption, blast+)
qed

text \<open>
  C15: A fault that was reported stays as long as no other handler concerns the same device: once the
  handler of a fault report, or of the fault marker of a sensor, has returned, the device is marked
  faulty and named in the alarm, in every schedule in which all other handlers are those of other
  devices and the timer, whatever they did in between or do afterwards.
\<close>

theorem reported_fault_stays:
  assumes "i < length jobs" "reports_fault u (jobs ! i)" "\<forall>k < length jobs. k \<noteq> i \<longrightarrow> job_uri (jobs ! k) \<noteq> Some u"
  shows "case run_schedule sched (map handler_of jobs, reg) of (hs, reg') \<Rightarrow>
    returned (hs ! i) \<longrightarrow> device_faulty reg' u \<and> u \<in> set (value_of (hs ! i))"
proof -
  have "fault_pending u i (map handler_of jobs, reg)"
    using assms marks_job spares_job by (simp add: fault_pending_def)
  from fault_pending_run [OF this, of sched] show ?thesis
    by (cases "run_schedule sched (map handler_of jobs, reg)")
      (auto simp: fault_pending_def elim: returned.elims)
qed

lemma reported_fault_stays_witness:
  "case run_schedule [1, 0, 0, 0, 0, 0] (map handler_of [race_reading ''a'' 254, Tick_job 5000 10 []], empty_registry) of
     (hs, reg') \<Rightarrow> device_faulty reg' ''a''"
proof -
  let ?jobs = "[race_reading ''a'' 254, Tick_job 5000 10 []]"
  let ?c = "run_schedule [1, 0, 0, 0, 0, 0] (map handler_of ?jobs, empty_registry)"
  have "reports_fault ''a'' (?jobs ! 0)" "\<forall>k < length ?jobs. k \<noteq> 0 \<longrightarrow> job_uri (?jobs ! k) \<noteq> Some ''a''"
    by (auto simp: race_reading_def less_Suc_eq)
  note now_holds = reported_fault_stays [where i = 0 and jobs = ?jobs and u = "''a''", OF _ this]
  have "returned (fst ?c ! 0)"
    by (simp add: race_reading_def reading_handler_def marker_handler_def tick_handler_def Let_def
        thread_step_def case_prod_unfold)
  with now_holds [of "[1, 0, 0, 0, 0, 0]" empty_registry] show ?thesis by (simp only: case_prod_unfold) simp
qed

text \<open>
  C16: A device that the timer reports lost while its status report is being handled can end up without
  its fault: \<^verbatim>\<open>handle_status\<close> reads the entry, the timer marks it and raises the alarm, and
  \<^verbatim>\<open>handle_status\<close> writes back the entry it read. No order of the two handlers does that: after the
  tick the report keeps the fault, and after the report the tick does not find the device silent.
\<close>

theorem status_race_hides_fault:
  assumes "registry_ok reg" "reg_get reg (sr_uri s) = Some st" "is_lost now' t st"
    and "sr_uri s \<notin> set active" "now' - now \<le> t"
  shows "(\<exists>sched. case run_schedule sched (map handler_of [Status_job now s se, Tick_job now' t active], reg) of
       (hs, reg') \<Rightarrow> list_all returned hs \<and> sr_uri s \<in> set (value_of (hs ! 1)) \<and> \<not> device_faulty reg' (sr_uri s))
     \<and> device_faulty (serial (map handler_of [Tick_job now' t active, Status_job now s se]) reg) (sr_uri s)
     \<and> sr_uri s \<notin> set (fst (run_handler (handler_of (Tick_job now' t active))
           (serial [handler_of (Status_job now s se)] reg)))"
proof -
  let ?u = "sr_uri s"
  let ?st = "st\<lparr>ds_zone_id := sr_zone_id s, ds_on := sr_on s, ds_intensity := sr_intensity s,
    ds_power_mw := sr_power_mw s, ds_last_seen_ms := now\<rparr>"
  obtain reg1 lost where d: "detect_comm_lost reg now' t = (reg1, lost)" by (cases "detect_comm_lost reg now' t")
  let ?new = "filter (\<lambda>u. u \<notin> set active) lost"
  let ?reg2 = "upsert reg1 ?u ?st"
  have "distinct (keys (dev reg))" using assms(1) by (simp add: registry_ok_def)
  from lost_iff [OF this, of ?u now' t] have new: "?u \<in> set ?new" using assms(2-4) by (auto simp: d)
  have "run_schedule [0, 1, 0] ([status_handler now s se, tick_handler now' t active], reg)
      = ([Return [], look_up_all ?new (Return ?new)], ?reg2)"
    by (simp add: thread_step_def status_handler_def tick_handler_def Let_def d assms(2))
  then have "run_schedule ([0, 1, 0] @ replicate (length ?new) 1)
      (map handler_of [Status_job now s se, Tick_job now' t active], reg) = ([Return [], Return ?new], ?reg2)"
    by (simp add: run_look_ups del: replicate_Suc)
  moreover have "\<not> device_faulty ?reg2 ?u" using assms(3) by (simp add: device_faulty_def is_lost_def)
  moreover have "reg_get reg1 ?u = Some (mark_lost now' t st)"
    using reg_get_detect [of reg now' t ?u] assms(2) by (simp add: d)
  then have "device_faulty (serial (map handler_of [Tick_job now' t active, Status_job now s se]) reg) ?u"
    using assms(3) by (simp add: serial_def run_tick d status_handler_def device_faulty_def Let_def)
  moreover have "?u \<notin> set (fst (run_handler (tick_handler now' t active) (upsert reg ?u ?st)))"
  proof -
    have "registry_ok (upsert reg ?u ?st)" using assms(1) by (rule registry_ok_upsert)
    then have "distinct (keys (dev (upsert reg ?u ?st)))" by (simp add: registry_ok_def)
    from lost_iff [OF this, of ?u now' t] assms(5) show ?thesis
      by (auto simp: run_tick is_lost_def split: prod.split)
  qed
  then have "?u \<notin> set (fst (run_handler (handler_of (Tick_job now' t active))
      (serial [handler_of (Status_job now s se)] reg)))"
    by (simp add: serial_def status_handler_def assms(2) Let_def)
  ultimately show ?thesis using new
    by (intro conjI exI [of _ "[0, 1, 0] @ replicate (length ?new) 1"]) simp_all
qed

lemma status_race_hides_fault_witness:
  "\<exists>sched. case run_schedule sched (map handler_of
       [Status_job 1000 \<lparr>sr_uri = ''u'', sr_zone_id = 1, sr_on = 1, sr_intensity = 60, sr_power_mw = 9000\<rparr> new_session,
        Tick_job 1000 500 []], upsert empty_registry ''u'' (example_lamp 1 100)) of
     (hs, reg') \<Rightarrow> value_of (hs ! 1) \<noteq> [] \<and> \<not> device_faulty reg' ''u''"
proof -
  let ?s = "\<lparr>sr_uri = ''u'', sr_zone_id = 1, sr_on = 1, sr_intensity = 60, sr_power_mw = 9000\<rparr>"
  let ?reg = "upsert empty_registry ''u'' (example_lamp 1 100)"
  have "registry_ok ?reg" by (intro registry_ok_upsert registry_ok_empty)
  moreover have "reg_get ?reg (sr_uri ?s) = Some (example_lamp 1 100)" by simp
  moreover have "is_lost 1000 500 (example_lamp 1 100)" by (simp add: is_lost_def example_lamp_def new_device_def)
  ultimately have "\<exists>sched. case run_schedule sched (map handler_of [Status_job 1000 ?s new_session, Tick_job 1000 500 []], ?reg) of
      (hs, reg') \<Rightarrow> list_all returned hs \<and> sr_uri ?s \<in> set (value_of (hs ! 1)) \<and> \<not> device_faulty reg' (sr_uri ?s)"
    by (rule status_race_hides_fault [THEN conjunct1]) simp_all
  then obtain sched where "case run_schedule sched (map handler_of [Status_job 1000 ?s new_session, Tick_job 1000 500 []], ?reg) of
      (hs, reg') \<Rightarrow> list_all returned hs \<and> sr_uri ?s \<in> set (value_of (hs ! 1)) \<and> \<not> device_faulty reg' (sr_uri ?s)" ..
  then show ?thesis by (intro exI [of _ sched]) (auto split: prod.splits)
qed

text \<open>
  C28: Once a device is marked faulty while no handler of a device or the timer is under way, only a
  registration clears it: whatever handlers start from then on, on any threads and in any number, status
  reports, readings and fault reports of the device itself and ticks of the timer included, in every
  schedule of their operations the device is faulty at every moment, and no tick reports it silent
  again. Only an accepted registration is excepted, and one clears the fault at once. (A handler that was
  under way already can still clear it: that is the race of \<open>status_race_hides_fault\<close>.)
\<close>

theorem fault_cleared_by_registration_only:
  assumes "registry_ok reg" "device_faulty reg u"
  shows "(\<forall>jobs sched hs reg'. (\<forall>j \<in> set jobs. \<not> registers_job u j)
        \<and> run_schedule sched (map handler_of jobs, reg) = (hs, reg') \<longrightarrow>
      device_faulty reg' u
      \<and> (\<forall>i < length jobs. is_tick (jobs ! i) \<longrightarrow> u \<notin> set (value_of (hs ! i))))
    \<and> (\<forall>now req. registers_job u (Register_job now req) \<longrightarrow>
        \<not> device_faulty (snd (run_handler (handler_of (Register_job now req)) reg)) u)"
proof (intro conjI allI impI)
  fix jobs sched hs reg'
  assume a: "(\<forall>j \<in> set jobs. \<not> registers_job u j) \<and> run_schedule sched (map handler_of jobs, reg) = (hs, reg')"
  let ?ticks = "{i. i < length jobs \<and> is_tick (jobs ! i)}"
  have "fault_kept u ?ticks (map handler_of jobs, reg)"
    using assms a keeps_job names_swept_tick by (auto simp: fault_kept_def list_all_iff)
  from fault_kept_schedule [OF this, of sched] a have k: "fault_kept u ?ticks (hs, reg')" by simp
  then show "device_faulty reg' u" by (simp add: fault_kept_def)
  have len: "length hs = length jobs" using length_run_schedule [of sched "(map handler_of jobs, reg)"] a by simp
  fix i assume "i < length jobs" "is_tick (jobs ! i)"
  with k len have "names_swept u (hs ! i)" by (simp add: fault_kept_def)
  then show "u \<notin> set (value_of (hs ! i))" by (cases "hs ! i") simp_all
next
  fix now req
  assume "registers_job u (Register_job now req)"
  then show "\<not> device_faulty (snd (run_handler (handler_of (Register_job now req)) reg)) u"
    by (auto simp: register_handler_def device_faulty_def blank_device_def new_device_def)
qed

lemma fault_cleared_by_registration_only_witness:
  "let s = \<lparr>sr_uri = ''u'', sr_zone_id = 1, sr_on = 1, sr_intensity = 60, sr_power_mw = 9000\<rparr>;
       reg = upsert empty_registry ''u'' ((example_lamp 1 100)\<lparr>ds_fault := True\<rparr>)
   in case run_schedule [0, 1, 0] (map handler_of [Status_job 1000 s new_session, Tick_job 1000 500 []], reg) of
        (hs, reg') \<Rightarrow> device_faulty reg' ''u'' \<and> value_of (hs ! 1) = []"
proof -
  let ?s = "\<lparr>sr_uri = ''u'', sr_zone_id = 1, sr_on = 1, sr_intensity = 60, sr_power_mw = 9000\<rparr>"
  let ?reg = "upsert empty_registry ''u'' ((example_lamp 1 100)\<lparr>ds_fault := True\<rparr>)"
  let ?jobs = "[Status_job 1000 ?s new_session, Tick_job 1000 500 []]"
  let ?c = "run_schedule [0, 1, 0] (map handler_of ?jobs, ?reg)"
  have ok: "registry_ok ?reg" "device_faulty ?reg ''u''"
    by (intro registry_ok_upsert registry_ok_empty) (simp add: device_faulty_def)
  have "\<forall>j \<in> set ?jobs. \<not> registers_job ''u'' j" "?c = (fst ?c, snd ?c)" by simp_all
  with fault_cleared_by_registration_only [OF ok, THEN conjunct1] have
    "device_faulty (snd ?c) ''u''" by blast
  moreover have "value_of (fst ?c ! 1) = []"
    by (simp add: thread_step_def status_handler_def tick_handler_def Let_def detect_comm_lost_eq
        case_prod_unfold upsert_def empty_registry_def is_lost_def reg_get_def)
  ultimately show ?thesis by (simp only: Let_def case_prod_unfold)
qed

end
