(* ===== verification/Command_Line.thy ===== *)
theory Command_Line
  imports Lamp_Link Sensor_Link
begin

text \<open>
  The command lines of the programs (the first lines of each \<^verbatim>\<open>main\<close>): how \<^verbatim>\<open>std::stoi\<close>,
  \<^verbatim>\<open>std::stoul\<close> and \<^verbatim>\<open>std::stoull\<close> read an argument, the casts to the types of the configuration, the
  defaults of the optional arguments, and what each program starts with. \<^verbatim>\<open>argv\<close> is a list with the
  program's name first, \<^verbatim>\<open>argc\<close> its length; \<^verbatim>\<open>long\<close> has 64 bits.
\<close>

section \<open>Numbers in arguments\<close>

datatype start_error = Invalid_argument | Out_of_range | Bad_address

text \<open>The outcome of the start: exit code 1 with a usage message, an exception that leaves \<^verbatim>\<open>main\<close>, or
  the configuration with which the program runs.\<close>

datatype 'a startup = Usage | Thrown start_error | Runs 'a

fun with_arg :: "start_error + 'a \<Rightarrow> ('a \<Rightarrow> 'b startup) \<Rightarrow> 'b startup" where
  "with_arg (Inl e) f = Thrown e"
| "with_arg (Inr x) f = f x"

text \<open>Spaces as \<^verbatim>\<open>isspace\<close> has them: blank, tab, newline, vertical tab, form feed, carriage return.\<close>

definition is_space :: "char \<Rightarrow> bool" where
  "is_space c = (of_char c = (32::nat) \<or> (9 \<le> (of_char c :: nat) \<and> of_char c \<le> (13::nat)))"

definition digit :: "char \<Rightarrow> nat option" where
  "digit c = (let n = of_char c in if 48 \<le> n \<and> n \<le> 57 then Some (n - 48) else None)"

fun digits_value :: "nat \<Rightarrow> string \<Rightarrow> nat" where
  "digits_value acc [] = acc"
| "digits_value acc (c # cs) =
     (case digit c of None \<Rightarrow> acc | Some d \<Rightarrow> digits_value (10 * acc + d) cs)"

text \<open>Spaces, an optional sign, and at least one digit; whatever follows the digits is ignored.\<close>

definition read_sign :: "string \<Rightarrow> bool \<times> string" where
  "read_sign s = (case s of
     [] \<Rightarrow> (False, [])
   | c # cs \<Rightarrow> if c = CHR ''-'' then (True, cs) else if c = CHR ''+'' then (False, cs) else (False, s))"

definition read_number :: "string \<Rightarrow> (bool \<times> nat) option" where
  "read_number s =
     (case read_sign (dropWhile is_space s) of
        (neg, []) \<Rightarrow> None
      | (neg, c # cs) \<Rightarrow> if digit c = None then None else Some (neg, digits_value 0 (c # cs)))"

definition stoi :: "string \<Rightarrow> start_error + int" where
  "stoi s =
     (case read_number s of
        None \<Rightarrow> Inl Invalid_argument
      | Some (neg, n) \<Rightarrow>
          (let v = (if neg then - int n else int n)
           in if - (2 ^ 31) \<le> v \<and> v < 2 ^ 31 then Inr v else Inl Out_of_range))"

text \<open>\<^verbatim>\<open>strtoul\<close> accepts a sign and negates in the unsigned type. \<^verbatim>\<open>std::stoull\<close> is the same function.\<close>

definition stoul :: "string \<Rightarrow> start_error + u64" where
  "stoul s =
     (case read_number s of
        None \<Rightarrow> Inl Invalid_argument
      | Some (neg, n) \<Rightarrow>
          if n < 2 ^ 64 then Inr (if neg then - word_of_nat n else word_of_nat n)
          else Inl Out_of_range)"

text \<open>The cast of a signed integer to an unsigned type of fewer bits.\<close>

abbreviation to_u16 :: "int \<Rightarrow> u16" where "to_u16 \<equiv> word_of_int"

section \<open>The programs\<close>

record central_args =
  ct_port :: u16
  ct_cert :: string
  ct_key :: string

definition central_main :: "string list \<Rightarrow> central_args startup" where
  "central_main argv =
     (if length argv < 4 then Usage
      else with_arg (stoi (argv ! 1)) (\<lambda>port.
        Runs \<lparr>ct_port = to_u16 port, ct_cert = argv ! 2, ct_key = argv ! 3\<rparr>))"

record regional_args =
  ra_region_id :: u32
  ra_tls_port :: u16
  ra_udp_port :: u16
  ra_central_host :: string
  ra_central_port :: u16
  ra_sync_interval_s :: int
  ra_cert :: string
  ra_key :: string
  ra_comm_lost_timeout_s :: u64

definition regional_main :: "string list \<Rightarrow> regional_args startup" where
  "regional_main argv =
     (if length argv < 10 then Usage
      else
        with_arg (stoul (argv ! 1)) (\<lambda>region_id.
        with_arg (stoi (argv ! 2)) (\<lambda>tls_port.
        with_arg (stoi (argv ! 3)) (\<lambda>udp_port.
        with_arg (stoi (argv ! 5)) (\<lambda>central_port.
        with_arg (stoi (argv ! 6)) (\<lambda>sync_interval_s.
        with_arg (stoul (argv ! 9)) (\<lambda>timeout.
        Runs \<lparr>ra_region_id = ucast region_id, ra_tls_port = to_u16 tls_port, ra_udp_port = to_u16 udp_port,
          ra_central_host = argv ! 4, ra_central_port = to_u16 central_port,
          ra_sync_interval_s = sync_interval_s, ra_cert = argv ! 7, ra_key = argv ! 8,
          ra_comm_lost_timeout_s = timeout\<rparr>)))))))"

text \<open>The timeout that \<^verbatim>\<open>schedule_comm_lost_check\<close> gets.\<close>

definition comm_lost_timeout_ms :: "regional_args \<Rightarrow> u64" where
  "comm_lost_timeout_ms ra = ra_comm_lost_timeout_s ra * 1000"

record lamp_args =
  la_host :: string
  la_port :: u16
  la_run_s :: int
  la_reset_after_s :: int
  la_config :: lamp_config

definition opt_stoi :: "string list \<Rightarrow> nat \<Rightarrow> int \<Rightarrow> start_error + int" where
  "opt_stoi argv i d = (if i < length argv then stoi (argv ! i) else Inr d)"

definition opt_stoul :: "string list \<Rightarrow> nat \<Rightarrow> u64 \<Rightarrow> start_error + u64" where
  "opt_stoul argv i d = (if i < length argv then stoul (argv ! i) else Inr d)"

definition lamp_main :: "string list \<Rightarrow> lamp_args startup" where
  "lamp_main argv =
     (if length argv < 6 then Usage
      else
        with_arg (stoi (argv ! 2)) (\<lambda>port.
        with_arg (stoul (argv ! 4)) (\<lambda>zone.
        with_arg (stoi (argv ! 5)) (\<lambda>run_s.
        with_arg (opt_stoi argv 6 0) (\<lambda>reset_after.
        with_arg (opt_stoi argv 7 10) (\<lambda>heartbeat_s.
        with_arg (opt_stoi argv 8 0) (\<lambda>fault_ppm.
        Runs \<lparr>la_host = argv ! 1, la_port = to_u16 port, la_run_s = run_s,
          la_reset_after_s = reset_after,
          la_config = \<lparr>cf_uri = argv ! 3, cf_zone = ucast zone, cf_heartbeat_s = heartbeat_s,
            cf_fault_prob_per_mille = fault_ppm\<rparr>\<rparr>)))))))"

text \<open>The admin client passes host and port on as they are.\<close>

definition admin_args :: "string list \<Rightarrow> (string \<times> string) startup" where
  "admin_args argv = (if length argv < 3 then Usage else Runs (argv ! 1, argv ! 2))"

text \<open>
  \<open>make_address\<close> of asio is a parameter: the address that a text denotes, if it denotes one. Address
  and port are two arguments of one constructor, which C++ may evaluate in either order; here the
  address comes first, which matters only for which of two exceptions ends the program.
\<close>

record 'a sensor_args =
  sa_server :: 'a
  sa_port :: u16
  sa_run_s :: int
  sa_config :: sensor_config

definition sensor_main :: "(string \<Rightarrow> 'a option) \<Rightarrow> string list \<Rightarrow> 'a sensor_args startup" where
  "sensor_main make_address argv =
     (if length argv < 6 then Usage
      else
        with_arg (case make_address (argv ! 1) of None \<Rightarrow> Inl Bad_address | Some a \<Rightarrow> Inr a) (\<lambda>addr.
        with_arg (stoi (argv ! 2)) (\<lambda>port.
        with_arg (stoul (argv ! 4)) (\<lambda>zone.
        with_arg (stoi (argv ! 5)) (\<lambda>run_s.
        with_arg (opt_stoul argv 6 25) (\<lambda>lux_threshold.
        with_arg (opt_stoi argv 7 10) (\<lambda>temp_threshold.
        with_arg (opt_stoi argv 8 30) (\<lambda>heartbeat_s.
        with_arg (opt_stoul argv 9 0) (\<lambda>fault_prob.
        with_arg (opt_stoi argv 10 0) (\<lambda>fault_reset.
        Runs \<lparr>sa_server = addr, sa_port = to_u16 port, sa_run_s = run_s,
          sa_config = \<lparr>sc_uri = argv ! 3, sc_zone = ucast zone, sc_lux_threshold = ucast lux_threshold,
            sc_temp_threshold_x10 = to_u16 temp_threshold, sc_heartbeat_s = heartbeat_s,
            sc_fault_prob_per_mille = ucast fault_prob, sc_fault_reset_after_s = fault_reset\<rparr>\<rparr>))))))))))"

section \<open>Decimal numerals\<close>

text \<open>How a number is written on a command line, and by \<^verbatim>\<open>std::to_string\<close> when a client resolves its port.\<close>

fun decimal :: "nat \<Rightarrow> string" where
  "decimal n = (if n < 10 then [char_of (48 + n)] else decimal (n div 10) @ [char_of (48 + n mod 10)])"

declare decimal.simps [simp del]

lemma digit_char: "d < 10 \<Longrightarrow> digit (char_of (48 + d)) = Some d"
  by (simp add: digit_def Let_def)

lemma digits_value_decimal:
  "digits_value acc (decimal n @ s) = digits_value (acc * 10 ^ length (decimal n) + n) s"
proof (induction n arbitrary: acc s rule: decimal.induct)
  case (1 n)
  show ?case
  proof (cases "n < 10")
    case True
    then show ?thesis by (simp add: decimal.simps [of n] digit_char mult.commute)
  next
    case False
    have d: "n mod 10 < 10" by simp
    with False 1 [OF False] show ?thesis
      by (simp add: decimal.simps [of n] digit_char [OF d] mult.left_commute add.commute)
  qed
qed

lemma decimal_hd: "\<exists>c cs. decimal n = c # cs \<and> digit c \<noteq> None"
proof (induction n rule: decimal.induct)
  case (1 n)
  show ?case
  proof (cases "n < 10")
    case True
    then show ?thesis by (simp add: decimal.simps [of n] digit_char)
  next
    case False
    from 1 [OF this] obtain c cs where "decimal (n div 10) = c # cs" "digit c \<noteq> None" by blast
    with False show ?thesis by (simp add: decimal.simps [of n])
  qed
qed

lemma digit_no_space: "digit c \<noteq> None \<Longrightarrow> \<not> is_space c"
  by (auto simp: digit_def is_space_def Let_def split: if_splits)

lemma read_sign_digit: "digit c \<noteq> None \<Longrightarrow> read_sign (c # cs) = (False, c # cs)"
  by (auto simp: read_sign_def digit_def)

lemma read_number_decimal [simp]: "read_number (decimal n) = Some (False, n)"
proof -
  obtain c cs where c: "decimal n = c # cs" "digit c \<noteq> None" using decimal_hd by blast
  then show ?thesis
    using digits_value_decimal [of 0 n "[]"]
    by (simp add: read_number_def digit_no_space read_sign_digit del: digits_value.simps(2))
qed

lemma stoi_decimal: "stoi (decimal n) = (if n < 2 ^ 31 then Inr (int n) else Inl Out_of_range)"
  by (simp add: stoi_def)

lemma stoul_decimal: "stoul (decimal n) = (if n < 2 ^ 64 then Inr (word_of_nat n) else Inl Out_of_range)"
  by (simp add: stoul_def)

lemma cast_u32: "ucast (word_of_nat n :: u64) = (word_of_nat n :: u32)"
  by transfer (simp add: take_bit_take_bit)

lemma cast_u16: "ucast (word_of_nat n :: u64) = (word_of_nat n :: u16)"
  by transfer (simp add: take_bit_take_bit)

lemmas numeral_arguments = stoi_decimal stoul_decimal opt_stoi_def opt_stoul_def cast_u32 cast_u16

lemma central_arguments:
  "central_main [prog, decimal cport, cert, key]
     = (if cport < 2 ^ 31 then Runs \<lparr>ct_port = word_of_nat cport, ct_cert = cert, ct_key = key\<rparr>
        else Thrown Out_of_range)"
  by (simp add: central_main_def numeral_arguments)

lemma regional_arguments:
  "regional_main [prog, decimal rid, decimal tls, decimal udp, host, decimal cport, decimal interval,
       cert, key, decimal timeout]
     = (if rid < 2 ^ 64 \<and> tls < 2 ^ 31 \<and> udp < 2 ^ 31 \<and> cport < 2 ^ 31 \<and> interval < 2 ^ 31 \<and> timeout < 2 ^ 64
        then Runs \<lparr>ra_region_id = word_of_nat rid, ra_tls_port = word_of_nat tls,
          ra_udp_port = word_of_nat udp, ra_central_host = host, ra_central_port = word_of_nat cport,
          ra_sync_interval_s = int interval, ra_cert = cert, ra_key = key,
          ra_comm_lost_timeout_s = word_of_nat timeout\<rparr>
        else Thrown Out_of_range)"
  by (simp add: regional_main_def numeral_arguments)

lemma lamp_arguments:
  "lamp_main [prog, host, decimal port, uri, decimal zone, decimal run_s]
     = (if port < 2 ^ 31 \<and> zone < 2 ^ 64 \<and> run_s < 2 ^ 31
        then Runs \<lparr>la_host = host, la_port = word_of_nat port, la_run_s = int run_s, la_reset_after_s = 0,
          la_config = \<lparr>cf_uri = uri, cf_zone = word_of_nat zone, cf_heartbeat_s = 10,
            cf_fault_prob_per_mille = 0\<rparr>\<rparr>
        else Thrown Out_of_range)"
  by (simp add: lamp_main_def numeral_arguments)

lemma sensor_arguments:
  "sensor_main Some [prog, host, decimal port, uri, decimal zone, decimal run_s]
     = (if port < 2 ^ 31 \<and> zone < 2 ^ 64 \<and> run_s < 2 ^ 31
        then Runs \<lparr>sa_server = host, sa_port = word_of_nat port, sa_run_s = int run_s,
          sa_config = \<lparr>sc_uri = uri, sc_zone = word_of_nat zone, sc_lux_threshold = 25,
            sc_temp_threshold_x10 = 10, sc_heartbeat_s = 30, sc_fault_prob_per_mille = 0,
            sc_fault_reset_after_s = 0\<rparr>\<rparr>
        else Thrown Out_of_range)"
  by (simp add: sensor_main_def numeral_arguments)

text \<open>A port is taken modulo \<open>2 ^ 16\<close>, and a negative number where an unsigned one is read is not refused.\<close>

lemma port_wraps: "central_main [prog, decimal (port + 2 ^ 16), cert, key] =
    (if port + 2 ^ 16 < 2 ^ 31 then central_main [prog, decimal port, cert, key] else Thrown Out_of_range)"
  by (auto simp: central_arguments)

lemma region_refuses_lamp:
  assumes "short_str (cf_uri cf)" "cf_uri cf = [] \<or> cf_zone cf = 0" "lock (rg_dev r) sid = Some se"
  shows "case device_message clk sid (body_of REGISTER_REQ (lamp_request cf)) r of (r', out) \<Rightarrow>
     out = [] \<and> rg_reg r' = rg_reg r
     \<and> lock (rg_dev r') sid = Some (Device_Server.queue_send REGISTER_NACK [] se)"
proof -
  have "decode_register_req (lamp_request cf)
      = Inr \<lparr>req_type = LUMINAIRE, req_uri = cf_uri cf, req_zone_id = cf_zone cf\<rparr>"
    using assms(1) register_req.decode_encode [of _ "lamp_request cf" "[]"]
    by (simp add: register_req.encode_eq lamp_request_def)
  with assms(2,3) show ?thesis
    by (auto simp: device_message_def on_body_def body_of_def dispatch_eqs handle_register_def Let_def
        rg_reg_def simp del: msg_code.simps)
qed

lemma zone_number: "(word_of_nat z = (0::u32)) \<longleftrightarrow> z mod 2 ^ 32 = 0"
  by (simp add: word_of_nat_eq_0_iff dvd_eq_mod_eq_0)

section \<open>Properties\<close>

text \<open>
  The zone that a lamp is started with decides whether it ever joins a region: of any number
  below \<open>2 ^ 64\<close> the low 32 bits are taken, and if they are 0 (or the URI is empty) the region answers
  the request with a refusal and enters nothing; otherwise it enters the lamp in that zone, lets
  commands reach it and acknowledges. A larger number ends the program.
\<close>

theorem zone_argument_decides:
  assumes "short_str uri" "lock (rg_dev r) sid = Some se" "port < 2 ^ 31" "run_s < 2 ^ 31"
  shows "case lamp_main [prog, host, decimal port, uri, decimal zone, decimal run_s] of
      Usage \<Rightarrow> False
    | Thrown e \<Rightarrow> e = Out_of_range \<and> 2 ^ 64 \<le> zone
    | Runs la \<Rightarrow>
        (let (r', out) = device_message clk sid (body_of REGISTER_REQ (lamp_request (la_config la))) r
         in if uri = [] \<or> zone mod 2 ^ 32 = 0
            then rg_reg r' = rg_reg r
              \<and> map_option se_posted (lock (rg_dev r') sid) = Some (se_posted se @ [(REGISTER_NACK, [])])
            else uri \<in> set (get_lamps_in_zone (rg_reg r') (word_of_nat zone))
              \<and> held_by uri sid (rg_dev r')
              \<and> map_option se_posted (lock (rg_dev r') sid) = Some (se_posted se @ [(REGISTER_ACK,
                  encode_register_ack \<lparr>rack_server_time_unix = time_unix clk\<rparr>)]))"
proof (cases "zone < 2 ^ 64")
  case True
  let ?cf = "\<lparr>cf_uri = uri, cf_zone = word_of_nat zone, cf_heartbeat_s = 10, cf_fault_prob_per_mille = 0\<rparr>"
  show ?thesis
  proof (cases "uri = [] \<or> zone mod 2 ^ 32 = 0")
    case refused: True
    then have "cf_uri ?cf = [] \<or> cf_zone ?cf = 0" by (simp add: zone_number)
    from region_refuses_lamp [OF _ this assms(2), of clk] show ?thesis
      using assms True refused
      by (auto simp: lamp_arguments Device_Server.queue_send_def add_posts_def Let_def split: prod.splits)
  next
    case joined: False
    then have "configured ?cf" using assms(1) by (simp add: configured_def zone_number)
    from region_registers_lamp [OF this assms(2), of clk] show ?thesis
      using assms True joined
      by (auto simp: lamp_arguments Device_Server.queue_send_def add_posts_def Let_def split: prod.splits)
  qed
qed (use assms in \<open>simp add: lamp_arguments\<close>)

lemma zone_argument_decides_witness:
  "case lamp_main [''lamp'', ''host'', decimal 5555, ''u'', decimal (2 ^ 32), decimal 0] of
      Usage \<Rightarrow> False
    | Thrown e \<Rightarrow> False
    | Runs la \<Rightarrow> map_option se_posted (lock (rg_dev (fst (device_message example_clock 1
        (body_of REGISTER_REQ (lamp_request (la_config la)))
        ((boot 1)\<lparr>rg_dev := do_accept 1 (new_server 1)\<rparr>)))) 1) = Some [(REGISTER_NACK, [])]"
proof -
  have l: "lock (rg_dev ((boot 1)\<lparr>rg_dev := do_accept 1 (new_server 1)\<rparr>)) 1 = Some new_session" by simp
  have s: "short_str ''u''" by (simp add: short_str_def)
  show ?thesis
    using zone_argument_decides [OF s l, where port = 5555 and run_s = 0 and prog = "''lamp''"
        and host = "''host''" and zone = "2 ^ 32" and clk = example_clock]
    by (simp add: lamp_arguments case_prod_beta Let_def new_session_def)
qed

end
