(* ===== verification/Pqc_Tls.thy ===== *)
theory Pqc_Tls
  imports Main
begin

text \<open>
  The TLS set-up (\<^verbatim>\<open>pqc_tls.hpp\<close>): which protocol version, key exchange group and signature
  algorithm a context is restricted to, and the handles that the server side allocates and frees
  while it loads key and certificate. OpenSSL is not part of the repository: the outcome of each of
  its calls is a field of the record \<open>openssl\<close>, over which every definition and theorem is stated.
  That includes the two calls that set the protocol versions: both may refuse, which leaves the
  version as it was, and the code does not look at what they return.
\<close>

section \<open>OpenSSL\<close>

text \<open>
  \<open>'k\<close> and \<open>'c\<close> stand for private keys and certificates. \<open>bio_new_file\<close> says whether a file can be
  opened, \<open>read_private_key\<close> and \<open>read_x509\<close> what is parsed from it, the others whether the call
  returns 1.
\<close>

datatype tls_version = Any_version | TLS1_2_VERSION | TLS1_3_VERSION

record ('k, 'c) openssl =
  set_min_proto_version :: "tls_version \<Rightarrow> bool"
  set_max_proto_version :: "tls_version \<Rightarrow> bool"
  set1_groups_list :: "string \<Rightarrow> bool"
  set1_sigalgs_list :: "string \<Rightarrow> bool"
  bio_new_file :: "string \<Rightarrow> bool"
  read_private_key :: "string \<Rightarrow> 'k option"
  read_x509 :: "string \<Rightarrow> 'c option"
  use_certificate :: "'c \<Rightarrow> bool"
  use_private_key :: "'k \<Rightarrow> 'c option \<Rightarrow> bool"
  check_private_key :: "'k option \<Rightarrow> 'c option \<Rightarrow> bool"

text \<open>
  The last three fields are what the constructors of the programs set before the functions below
  run: the options against SSL 2 and 3, and whether the peer's certificate is verified.
\<close>

record ('k, 'c) ssl_ctx =
  min_proto :: tls_version
  max_proto :: tls_version
  groups :: string
  sigalgs :: string
  ctx_cert :: "'c option"
  ctx_key :: "'k option"
  no_sslv2 :: bool
  no_sslv3 :: bool
  verify_peer :: bool

text \<open>
  The handles the function owns: \<open>live\<close> holds those allocated and not freed, \<open>misused\<close> says that
  one was freed or used while not live.
\<close>

datatype tls_handle = Key_bio | Cert_bio | Pkey | Cert

record ('k, 'c) tls_state =
  ctx :: "('k, 'c) ssl_ctx"
  live :: "tls_handle list"
  misused :: bool

datatype tls_error =
    SSL_CTX_set1_groups_list_failed
  | SSL_CTX_set1_sigalgs_list_failed
  | BIO_new_file_key_failed
  | PEM_read_bio_PrivateKey_failed
  | BIO_new_file_cert_failed
  | PEM_read_bio_X509_failed
  | SSL_CTX_use_certificate_failed
  | SSL_CTX_use_PrivateKey_failed
  | SSL_CTX_check_private_key_failed

type_synonym ('k, 'c) tls_result = "('k, 'c) tls_state \<times> tls_error option"

definition alloc :: "tls_handle \<Rightarrow> ('k, 'c) tls_state \<Rightarrow> ('k, 'c) tls_state" where
  "alloc h s = s\<lparr>live := h # live s\<rparr>"

definition free :: "tls_handle \<Rightarrow> ('k, 'c) tls_state \<Rightarrow> ('k, 'c) tls_state" where
  "free h s = s\<lparr>live := remove1 h (live s), misused := (misused s \<or> h \<notin> set (live s))\<rparr>"

definition touch :: "tls_handle \<Rightarrow> ('k, 'c) tls_state \<Rightarrow> ('k, 'c) tls_state" where
  "touch h s = s\<lparr>misused := (misused s \<or> h \<notin> set (live s))\<rparr>"

section \<open>The two functions\<close>

text \<open>The first two calls of both functions; their return values are discarded.\<close>

definition set_versions ::
  "('k, 'c) openssl \<Rightarrow> ('k, 'c) ssl_ctx \<Rightarrow> ('k, 'c) ssl_ctx" where
  "set_versions ssl c =
     (let c = (if set_min_proto_version ssl TLS1_3_VERSION then c\<lparr>min_proto := TLS1_3_VERSION\<rparr> else c)
      in if set_max_proto_version ssl TLS1_3_VERSION then c\<lparr>max_proto := TLS1_3_VERSION\<rparr> else c)"

definition apply_pqc_client ::
  "('k, 'c) openssl \<Rightarrow> ('k, 'c) tls_state \<Rightarrow> ('k, 'c) tls_result" where
  "apply_pqc_client ssl s =
     (let s = s\<lparr>ctx := set_versions ssl (ctx s)\<rparr>
      in if \<not> set1_groups_list ssl ''X25519MLKEM768'' then (s, Some SSL_CTX_set1_groups_list_failed)
         else let s = s\<lparr>ctx := (ctx s)\<lparr>groups := ''X25519MLKEM768''\<rparr>\<rparr>
         in if \<not> set1_sigalgs_list ssl ''ML-DSA-44'' then (s, Some SSL_CTX_set1_sigalgs_list_failed)
            else (s\<lparr>ctx := (ctx s)\<lparr>sigalgs := ''ML-DSA-44''\<rparr>\<rparr>, None))"

text \<open>
  Closing a \<^verbatim>\<open>BIO\<close> reads from it first, hence \<open>touch\<close>. Key and certificate are shared with the
  context by reference count, so the function frees its own references also after it attached them.
\<close>

definition attach ::
  "('k, 'c) openssl \<Rightarrow> 'c \<Rightarrow> 'k \<Rightarrow> ('k, 'c) tls_state \<Rightarrow> ('k, 'c) tls_result" where
  "attach ssl cert pkey s =
     (let s = touch Cert s
      in if \<not> use_certificate ssl cert
         then (free Pkey (free Cert s), Some SSL_CTX_use_certificate_failed)
         else let s = touch Pkey (s\<lparr>ctx := (ctx s)\<lparr>ctx_cert := Some cert\<rparr>\<rparr>)
         in if \<not> use_private_key ssl pkey (ctx_cert (ctx s))
            then (free Pkey (free Cert s), Some SSL_CTX_use_PrivateKey_failed)
            else let s = s\<lparr>ctx := (ctx s)\<lparr>ctx_key := Some pkey\<rparr>\<rparr>;
                     s = free Pkey (free Cert s)
                 in if \<not> check_private_key ssl (ctx_key (ctx s)) (ctx_cert (ctx s))
                    then (s, Some SSL_CTX_check_private_key_failed) else (s, None))"

definition load_cert ::
  "('k, 'c) openssl \<Rightarrow> string \<Rightarrow> 'k \<Rightarrow> ('k, 'c) tls_state \<Rightarrow> ('k, 'c) tls_result" where
  "load_cert ssl cert_file pkey s =
     (if \<not> bio_new_file ssl cert_file then (free Pkey s, Some BIO_new_file_cert_failed)
      else let s = free Cert_bio (touch Cert_bio (alloc Cert_bio s))
           in case read_x509 ssl cert_file of
                None \<Rightarrow> (free Pkey s, Some PEM_read_bio_X509_failed)
              | Some cert \<Rightarrow> attach ssl cert pkey (alloc Cert s))"

definition apply_pqc_server ::
  "('k, 'c) openssl \<Rightarrow> string \<Rightarrow> string \<Rightarrow> ('k, 'c) tls_state \<Rightarrow> ('k, 'c) tls_result" where
  "apply_pqc_server ssl cert_file key_file s =
     (let s = s\<lparr>ctx := set_versions ssl (ctx s)\<rparr>
      in if \<not> set1_groups_list ssl ''X25519MLKEM768'' then (s, Some SSL_CTX_set1_groups_list_failed)
         else let s = s\<lparr>ctx := (ctx s)\<lparr>groups := ''X25519MLKEM768''\<rparr>\<rparr>
         in if \<not> set1_sigalgs_list ssl ''ML-DSA-44'' then (s, Some SSL_CTX_set1_sigalgs_list_failed)
         else let s = s\<lparr>ctx := (ctx s)\<lparr>sigalgs := ''ML-DSA-44''\<rparr>\<rparr>
         in if \<not> bio_new_file ssl key_file then (s, Some BIO_new_file_key_failed)
         else let s = free Key_bio (touch Key_bio (alloc Key_bio s))
         in case read_private_key ssl key_file of
              None \<Rightarrow> (s, Some PEM_read_bio_PrivateKey_failed)
            | Some pkey \<Rightarrow> load_cert ssl cert_file pkey (alloc Pkey s))"

section \<open>Lemmas\<close>

lemma handle_simps [simp]:
  "ctx (alloc h s) = ctx s" "ctx (free h s) = ctx s" "ctx (touch h s) = ctx s"
  "live (alloc h s) = h # live s" "live (free h s) = remove1 h (live s)" "live (touch h s) = live s"
  "misused (alloc h s) = misused s" "misused (free h s) = (misused s \<or> h \<notin> set (live s))"
  "misused (touch h s) = (misused s \<or> h \<notin> set (live s))"
  by (simp_all add: alloc_def free_def touch_def)

lemma transient_bio [simp]: "free h (touch h (alloc h s)) = s"
  by (simp add: alloc_def free_def touch_def)

text \<open>
  What a successful set-up makes of a context \<open>c0\<close>: group and signature algorithm are restricted in
  any case, each version bound exactly where its call did not refuse, the rest stays.
\<close>

definition hardened :: "('k, 'c) openssl \<Rightarrow> ('k, 'c) ssl_ctx \<Rightarrow> ('k, 'c) ssl_ctx \<Rightarrow> bool" where
  "hardened ssl c0 c \<longleftrightarrow> groups c = ''X25519MLKEM768'' \<and> sigalgs c = ''ML-DSA-44''
     \<and> min_proto c = (if set_min_proto_version ssl TLS1_3_VERSION then TLS1_3_VERSION else min_proto c0)
     \<and> max_proto c = (if set_max_proto_version ssl TLS1_3_VERSION then TLS1_3_VERSION else max_proto c0)
     \<and> no_sslv2 c = no_sslv2 c0 \<and> no_sslv3 c = no_sslv3 c0 \<and> verify_peer c = verify_peer c0"

definition tls13_only :: "('k, 'c) ssl_ctx \<Rightarrow> bool" where
  "tls13_only c \<longleftrightarrow> min_proto c = TLS1_3_VERSION \<and> max_proto c = TLS1_3_VERSION"

lemma set_versions_simps [simp]:
  "groups (set_versions ssl c) = groups c" "sigalgs (set_versions ssl c) = sigalgs c"
  "ctx_cert (set_versions ssl c) = ctx_cert c" "ctx_key (set_versions ssl c) = ctx_key c"
  "no_sslv2 (set_versions ssl c) = no_sslv2 c" "no_sslv3 (set_versions ssl c) = no_sslv3 c"
  "verify_peer (set_versions ssl c) = verify_peer c"
  "min_proto (set_versions ssl c)
     = (if set_min_proto_version ssl TLS1_3_VERSION then TLS1_3_VERSION else min_proto c)"
  "max_proto (set_versions ssl c)
     = (if set_max_proto_version ssl TLS1_3_VERSION then TLS1_3_VERSION else max_proto c)"
  by (simp_all add: set_versions_def)

text \<open>The calls after the key was parsed, as seen by a function that starts with the key alone.\<close>

lemma attach_outcome:
  assumes "live s = [Cert, Pkey]"
  shows "live (fst (attach ssl cert pkey s)) = [] \<and> misused (fst (attach ssl cert pkey s)) = misused s
    \<and> (snd (attach ssl cert pkey s) = None \<longrightarrow>
         ctx (fst (attach ssl cert pkey s)) = (ctx s)\<lparr>ctx_cert := Some cert, ctx_key := Some pkey\<rparr>
         \<and> check_private_key ssl (Some pkey) (Some cert))"
  using assms by (simp add: attach_def Let_def)

lemma load_cert_outcome:
  assumes "live s = [Pkey]"
  shows "live (fst (load_cert ssl f pkey s)) = [] \<and> misused (fst (load_cert ssl f pkey s)) = misused s
    \<and> (snd (load_cert ssl f pkey s) = None \<longrightarrow> (\<exists>cert. read_x509 ssl f = Some cert
         \<and> ctx (fst (load_cert ssl f pkey s)) = (ctx s)\<lparr>ctx_cert := Some cert, ctx_key := Some pkey\<rparr>
         \<and> check_private_key ssl (Some pkey) (Some cert)))"
  using assms attach_outcome [of "alloc Cert s" ssl _ pkey]
  by (auto simp: load_cert_def Let_def split: option.split)

text \<open>A server with one key and its certificate, for the witness.\<close>

definition example_openssl :: "(nat, nat) openssl" where
  "example_openssl =
     \<lparr>set_min_proto_version = (\<lambda>v. True), set_max_proto_version = (\<lambda>v. True),
      set1_groups_list = (\<lambda>g. g = ''X25519MLKEM768''), set1_sigalgs_list = (\<lambda>a. a = ''ML-DSA-44''),
      bio_new_file = (\<lambda>f. f = ''server.key'' \<or> f = ''server.crt''),
      read_private_key = (\<lambda>f. if f = ''server.key'' then Some 7 else None),
      read_x509 = (\<lambda>f. if f = ''server.crt'' then Some 7 else None),
      use_certificate = (\<lambda>cert. True), use_private_key = (\<lambda>pkey cert. cert = Some pkey),
      check_private_key = (=)\<rparr>"

definition fresh_context :: "(nat, nat) ssl_ctx" where
  "fresh_context = \<lparr>min_proto = Any_version, max_proto = Any_version, groups = [], sigalgs = [],
     ctx_cert = None, ctx_key = None, no_sslv2 = False, no_sslv3 = False, verify_peer = False\<rparr>"

text \<open>
  An OpenSSL that refuses the two version calls: both functions report success although the context
  still takes part in handshakes of any version.
\<close>

lemma refused_version_goes_unnoticed:
  "let ssl = example_openssl\<lparr>set_min_proto_version := (\<lambda>v. False), set_max_proto_version := (\<lambda>v. False)\<rparr>;
       s = \<lparr>ctx = fresh_context, live = [], misused = False\<rparr>;
       (sc, ec) = apply_pqc_client ssl s;
       (ss, es) = apply_pqc_server ssl ''server.crt'' ''server.key'' s
   in ec = None \<and> es = None \<and> min_proto (ctx sc) = Any_version \<and> min_proto (ctx ss) = Any_version"
  by (simp add: apply_pqc_client_def apply_pqc_server_def load_cert_def attach_def set_versions_def
      example_openssl_def fresh_context_def)

section \<open>Property\<close>

text \<open>
  C40: Whatever OpenSSL answers, both functions free every handle they allocated exactly once and use
  none after it is freed, also on the failing paths. If they succeed, the context is restricted to
  the hybrid key exchange and ML-DSA-44, and the server's holds the parsed certificate and key,
  which belong together. It is restricted to TLS 1.3 exactly if each of the two version calls was
  granted or would have changed nothing: the functions do not check what the two calls return.
\<close>

theorem tls_setup_sound:
  "let s = \<lparr>ctx = c, live = [], misused = False\<rparr>;
       (sc, ec) = apply_pqc_client ssl s;
       (ss, es) = apply_pqc_server ssl cert_file key_file s;
       versions_granted = ((set_min_proto_version ssl TLS1_3_VERSION \<or> min_proto c = TLS1_3_VERSION)
          \<and> (set_max_proto_version ssl TLS1_3_VERSION \<or> max_proto c = TLS1_3_VERSION))
   in live sc = [] \<and> \<not> misused sc \<and> live ss = [] \<and> \<not> misused ss
      \<and> (ec = None \<longrightarrow> hardened ssl c (ctx sc) \<and> (tls13_only (ctx sc) \<longleftrightarrow> versions_granted))
      \<and> (es = None \<longrightarrow> ec = None \<and> hardened ssl c (ctx ss) \<and> (tls13_only (ctx ss) \<longleftrightarrow> versions_granted)
          \<and> (\<exists>cert pkey. ctx_cert (ctx ss) = Some cert \<and> read_x509 ssl cert_file = Some cert
               \<and> ctx_key (ctx ss) = Some pkey \<and> read_private_key ssl key_file = Some pkey
               \<and> check_private_key ssl (Some pkey) (Some cert)))"
proof -
  let ?s = "\<lparr>ctx = (set_versions ssl c)\<lparr>groups := ''X25519MLKEM768'', sigalgs := ''ML-DSA-44''\<rparr>,
      live = [Pkey], misused = False\<rparr>"
  note defs = apply_pqc_client_def apply_pqc_server_def hardened_def tls13_only_def alloc_def [of Pkey]
    case_prod_beta Let_def
  show ?thesis
  proof (cases "read_private_key ssl key_file")
    case None
    then show ?thesis by (simp add: defs)
  next
    case (Some pkey)
    have "live ?s = [Pkey]" by simp
    from load_cert_outcome [OF this, of ssl cert_file pkey] show ?thesis
      using Some by (auto simp: defs)
  qed
qed

lemma tls_setup_sound_witness:
  "let (s, e) = apply_pqc_server example_openssl ''server.crt'' ''server.key''
         \<lparr>ctx = fresh_context, live = [], misused = False\<rparr>
   in e = None \<and> live s = [] \<and> hardened example_openssl fresh_context (ctx s) \<and> tls13_only (ctx s)
      \<and> ctx_cert (ctx s) = Some 7"
proof -
  let ?r = "apply_pqc_server example_openssl ''server.crt'' ''server.key''
    \<lparr>ctx = fresh_context, live = [], misused = False\<rparr>"
  have "snd ?r = None"
    by (simp add: apply_pqc_server_def load_cert_def attach_def example_openssl_def fresh_context_def)
  with tls_setup_sound [of fresh_context example_openssl "''server.crt''" "''server.key''"]
  show ?thesis by (simp add: case_prod_beta Let_def example_openssl_def)
qed

end
