(* ===== verification/Read_Chain.thy ===== *)
theory Read_Chain
  imports Frame
begin

text \<open>
  The read chain of a TLS session (\<^verbatim>\<open>start\<close>, \<^verbatim>\<open>read_header\<close> and \<^verbatim>\<open>read_body\<close> of \<^verbatim>\<open>DeviceSession\<close> in
  \<^verbatim>\<open>tls_device_server.hpp\<close>) as its asynchronous completions see it: the bytes of the peer arrive in
  pieces of any size, \<^verbatim>\<open>async_read\<close> of \<open>n\<close> bytes completes when \<open>n\<close> bytes are there, its
  completion handler runs some time after that, and each handler starts the next operation. Whatever the pieces, the chain hands over the
  bodies that \<open>read_loop\<close> finds in the whole stream.
\<close>

section \<open>State\<close>

text \<open>
  \<open>rc_phase\<close>: the operation that is pending; \<open>At_body n\<close> holds \<^verbatim>\<open>body_len_\<close>; the last two have none,
  after a length out of range and after an error. \<open>rc_ready\<close>: that operation completed without error
  and its handler is queued, but did not run yet. \<open>rc_arrived\<close>: the bytes that arrived and that no
  handler took yet. \<open>rc_received\<close> is a ghost field: all bytes that arrived.
\<close>

datatype chain_phase =
    In_handshake
  | At_header
  | At_body u32
  | Refused
  | Broken

record read_chain =
  rc_phase :: chain_phase
  rc_ready :: bool
  rc_arrived :: bytes
  rc_received :: bytes

fun chain_open :: "chain_phase \<Rightarrow> bool" where
  "chain_open Refused \<longleftrightarrow> False"
| "chain_open Broken \<longleftrightarrow> False"
| "chain_open _ \<longleftrightarrow> True"

section \<open>Completions\<close>

definition bytes_in :: "bytes \<Rightarrow> 'a read_chain_scheme \<Rightarrow> 'a read_chain_scheme" where
  "bytes_in bs c = c\<lparr>rc_arrived := rc_arrived c @ bs, rc_received := rc_received c @ bs\<rparr>"

text \<open>The pending \<^verbatim>\<open>async_read\<close> completes: it has all the bytes that it was started for.\<close>

definition enough :: "'a read_chain_scheme \<Rightarrow> bool" where
  "enough c \<longleftrightarrow>
     (case rc_phase c of
        At_header \<Rightarrow> 4 \<le> length (rc_arrived c)
      | At_body body_len \<Rightarrow> unat body_len \<le> length (rc_arrived c)
      | _ \<Rightarrow> False)"

definition read_completes :: "'a read_chain_scheme \<Rightarrow> 'a read_chain_scheme" where
  "read_completes c = (if enough c then c\<lparr>rc_ready := True\<rparr> else c)"

text \<open>
  The handlers return the chain and what they call: \<open>header_done\<close> whether \<^verbatim>\<open>on_close\<close> is called,
  \<open>body_done\<close> the body for \<^verbatim>\<open>on_message\<close>. They run only for an operation that completed.
\<close>

definition header_done :: "'a read_chain_scheme \<Rightarrow> 'a read_chain_scheme \<times> bool" where
  "header_done c =
     (if rc_phase c = At_header \<and> rc_ready c then
        let body_len = from_be32 (load32 (take 4 (rc_arrived c)));
            c = c\<lparr>rc_arrived := drop 4 (rc_arrived c), rc_ready := False\<rparr>
        in if body_len < 1 \<or> body_len > 1024 * 1024 then (c\<lparr>rc_phase := Refused\<rparr>, True)
           else (c\<lparr>rc_phase := At_body body_len\<rparr>, False)
      else (c, False))"

definition body_done :: "'a read_chain_scheme \<Rightarrow> 'a read_chain_scheme \<times> bytes option" where
  "body_done c =
     (case rc_phase c of
        At_body body_len \<Rightarrow>
          if rc_ready c then
            (c\<lparr>rc_phase := At_header, rc_ready := False, rc_arrived := drop (unat body_len) (rc_arrived c)\<rparr>,
             Some (take (unat body_len) (rc_arrived c)))
          else (c, None)
      | _ \<Rightarrow> (c, None))"

text \<open>Nothing can complete until more bytes arrive.\<close>

definition chain_waits :: "'a read_chain_scheme \<Rightarrow> bool" where
  "chain_waits c \<longleftrightarrow>
     (case rc_phase c of
        At_header \<Rightarrow> length (rc_arrived c) < 4
      | At_body n \<Rightarrow> length (rc_arrived c) < unat n
      | Refused \<Rightarrow> True
      | _ \<Rightarrow> False)"

section \<open>The invariant\<close>

text \<open>
  \<open>reads_on bodies before c\<close>: the stream of \<open>c\<close> splits into the \<open>bodies\<close> that were handed over and a rest
  that begins with the bytes \<open>before\<close>, whatever follows.
\<close>

definition reads_on :: "bytes list \<Rightarrow> bytes \<Rightarrow> 'a read_chain_scheme \<Rightarrow> bool" where
  "reads_on bodies before c \<longleftrightarrow>
     (\<forall>later. fst (read_loop (rc_received c @ later))
        = bodies @ fst (read_loop (before @ rc_arrived c @ later)))"

definition chain_ok :: "bytes list \<Rightarrow> 'a read_chain_scheme \<Rightarrow> bool" where
  "chain_ok bodies c \<longleftrightarrow> (rc_ready c \<longrightarrow> enough c) \<and>
     (case rc_phase c of
        In_handshake \<Rightarrow> bodies = [] \<and> rc_arrived c = rc_received c
      | At_header \<Rightarrow> reads_on bodies [] c
      | At_body n \<Rightarrow> \<not> n < 1 \<and> \<not> n > 1024 * 1024
          \<and> (\<exists>h. length h = 4 \<and> from_be32 (load32 h) = n \<and> reads_on bodies h c)
      | Refused \<Rightarrow> bodies = fst (read_loop (rc_received c))
      | Broken \<Rightarrow> prefix bodies (fst (read_loop (rc_received c))))"

lemma reads_on_prefix: "reads_on bodies h c \<Longrightarrow> prefix bodies (fst (read_loop (rc_received c)))"
  unfolding reads_on_def by (metis append_Nil2 prefixI)

lemma chain_ok_prefix: "chain_ok bodies c \<Longrightarrow> prefix bodies (fst (read_loop (rc_received c)))"
  by (auto simp: chain_ok_def reads_on_prefix split: chain_phase.splits)

lemma chain_ok_handshake:
  "chain_ok bodies c \<Longrightarrow> rc_phase c = In_handshake \<Longrightarrow> chain_ok bodies (c\<lparr>rc_phase := At_header\<rparr>)"
  by (simp add: chain_ok_def reads_on_def enough_def)

lemma chain_ok_broken:
  "chain_ok bodies c \<Longrightarrow> \<not> rc_ready c \<Longrightarrow> chain_ok bodies (c\<lparr>rc_phase := Broken\<rparr>)"
  using chain_ok_prefix [of bodies c] by (simp add: chain_ok_def)

lemma chain_ok_completes: "chain_ok bodies c \<Longrightarrow> chain_ok bodies (read_completes c)"
  by (cases "rc_phase c") (auto simp: chain_ok_def read_completes_def reads_on_def enough_def)

lemma chain_ok_not_ready: "chain_ok bodies c \<Longrightarrow> chain_waits c \<Longrightarrow> \<not> rc_ready c"
  by (auto simp: chain_ok_def chain_waits_def enough_def split: chain_phase.splits)

lemma chain_ok_bytes:
  "chain_ok bodies c \<Longrightarrow> chain_open (rc_phase c) \<Longrightarrow> chain_ok bodies (bytes_in bs c)"
  by (cases "rc_phase c") (auto simp: chain_ok_def bytes_in_def reads_on_def enough_def)

lemma read_header_split:
  "length h = 4 \<Longrightarrow> read_header (h @ s) = (let n = from_be32 (load32 h)
     in if n < 1 \<or> n > 1024 * 1024 then Bad_length else read_body n s)"
  by (simp add: read_header_def Let_def)

lemma chain_ok_header:
  assumes "chain_ok bodies c" "rc_phase c = At_header"
  shows "chain_ok bodies (fst (header_done c))"
proof (cases "rc_ready c")
  case ready: True
  then have True: "4 \<le> length (rc_arrived c)" using assms by (simp add: chain_ok_def enough_def)
  let ?h = "take 4 (rc_arrived c)" and ?s = "drop 4 (rc_arrived c)"
  let ?n = "from_be32 (load32 ?h)"
  have h: "length ?h = 4" using True by simp
  have on: "fst (read_loop (rc_received c @ xs)) = bodies @ fst (read_loop (?h @ ?s @ xs))" for xs
    using assms unfolding chain_ok_def reads_on_def by (simp add: append_assoc [symmetric] del: append_assoc)
  show ?thesis
  proof (cases "?n < 1 \<or> ?n > 1024 * 1024")
    case bad: True
    have "fst (read_loop (?h @ ?s @ [])) = []"
      by (rule read_loop_bad) (use bad in \<open>simp only: read_header_split [OF h] Let_def if_True\<close>)
    with on [of "[]"] bad ready assms(2) show ?thesis
      by (simp add: chain_ok_def header_done_def Let_def)
  next
    case False
    have "reads_on bodies ?h (c\<lparr>rc_arrived := ?s, rc_ready := False, rc_phase := At_body ?n\<rparr>)"
      using on by (simp add: reads_on_def)
    with False h ready assms(2) show ?thesis
      by (auto simp: chain_ok_def header_done_def Let_def not_less intro!: exI [of _ ?h])
  qed
qed (use assms in \<open>simp add: header_done_def\<close>)

lemma chain_ok_body:
  assumes "chain_ok bodies c" "body_done c = (c', Some b)"
  shows "chain_ok (bodies @ [b]) c'"
proof -
  obtain n where ready: "rc_phase c = At_body n" "rc_ready c"
    and n: "c' = c\<lparr>rc_phase := At_header, rc_ready := False, rc_arrived := drop (unat n) (rc_arrived c)\<rparr>"
    and b: "b = take (unat n) (rc_arrived c)"
    using assms(2) by (auto simp: body_done_def split: chain_phase.splits if_splits)
  obtain h where h: "length h = 4" "from_be32 (load32 h) = n" "\<not> n < 1" "\<not> n > 1024 * 1024" "reads_on bodies h c"
    using assms(1) ready(1) by (auto simp: chain_ok_def)
  have len: "unat n \<le> length (rc_arrived c)" using assms(1) ready by (simp add: chain_ok_def enough_def)
  have "fst (read_loop (h @ rc_arrived c @ xs)) = b # fst (read_loop (drop (unat n) (rc_arrived c) @ xs))" for xs
    by (rule read_loop_got) (use h len in \<open>simp add: read_header_split read_body_def b Let_def\<close>)
  with h(5) show ?thesis by (simp add: n chain_ok_def reads_on_def)
qed

lemma body_done_other: "snd (body_done c) = None \<Longrightarrow> fst (body_done c) = c"
  by (simp add: body_done_def split: chain_phase.splits if_splits)

lemma chain_waits_complete:
  assumes "chain_ok bodies c" "chain_waits c"
  shows "bodies = fst (read_loop (rc_received c))"
proof (cases "rc_phase c")
  case At_header
  then have "read_header (rc_arrived c) = Read_error"
    using assms(2) by (simp add: chain_waits_def read_header_def)
  with assms(1) At_header show ?thesis
    by (auto simp: chain_ok_def reads_on_def read_loop.simps [of "rc_arrived c"] dest: spec [of _ "[]"])
next
  case (At_body n)
  then obtain h where h: "length h = 4" "from_be32 (load32 h) = n" "\<not> n < 1" "\<not> n > 1024 * 1024" "reads_on bodies h c"
    using assms(1) by (auto simp: chain_ok_def)
  have "read_header (h @ rc_arrived c) = Read_error"
    using h At_body assms(2) by (simp add: read_header_split read_body_def chain_waits_def Let_def)
  with h(5) show ?thesis
    by (auto simp: reads_on_def read_loop.simps [of "h @ rc_arrived c"] dest: spec [of _ "[]"])
qed (use assms in \<open>simp_all add: chain_ok_def chain_waits_def\<close>)

interpretation chain_reader: framed_reader chain_ok rc_received
  by unfold_locales (rule chain_ok_prefix)

end
