(* ===== verification/Device_Net.thy ===== *)
theory Device_Net
  imports Read_Chain Regional_Server
begin

text \<open>
  The TLS connections of a region (\<^verbatim>\<open>RegionalDeviceServer::do_accept\<close> and the asynchronous operations of
  \<^verbatim>\<open>DeviceSession\<close> in \<^verbatim>\<open>tls_device_server.hpp\<close>) above the region of \<open>Regional_Server\<close>: accepting,
  handshake, the read chain, the writes and their failures, and when a session object dies. A run
  of the network is a run of the region whose events it produces; which connection events the
  region sees, and when, is no longer free but follows from bytes and completions.
\<close>

section \<open>State\<close>

text \<open>
  \<open>dl_failed\<close>: a write failed, its handler closed the socket and started no further write. From
  then on no read completes without error; a read that completed before still has its handler run.
  \<open>nt_trace\<close> is a ghost field: the events that the region went through.
\<close>

record device_link = read_chain +
  dl_failed :: bool

record net =
  nt_links :: "(nat \<times> device_link) list"
  nt_region :: region
  nt_effects :: "region_effect list"
  nt_trace :: "region_event list"

definition new_link :: device_link where
  "new_link = \<lparr>rc_phase = In_handshake, rc_ready = False, rc_arrived = [], rc_received = [], dl_failed = False\<rparr>"

definition new_net :: "u32 \<Rightarrow> net" where
  "new_net rid = \<lparr>nt_links = [], nt_region = boot rid, nt_effects = [], nt_trace = []\<rparr>"

definition link_of :: "net \<Rightarrow> nat \<Rightarrow> device_link option" where
  "link_of n sid = map_of (nt_links n) sid"

section \<open>Events\<close>

text \<open>
  The Boolean of the first two is the error code. \<open>Read_ready\<close> completes the pending read without error,
  \<open>Header_read\<close> and \<open>Body_read\<close> are the handlers that run afterwards. \<open>Read_failed\<close> and \<open>Send_failed\<close>
  are completions with an error, which can come at any time while the operation is pending. A \<open>Sent\<close>
  on a connection that was closed meanwhile stands for a write that had completed before.
\<close>

datatype net_event =
    Tcp_accepted bool nat
  | Handshake_done bool nat
  | Bytes_in nat bytes
  | Read_ready nat
  | Header_read nat
  | Body_read clock nat
  | Read_failed nat
  | Sent nat
  | Send_failed nat
  | Executor_ran nat nat
  | Session_freed nat
  | Udp_in clock bool bytes
  | Timer_fired clock

fun net_defined :: "net_event \<Rightarrow> bool" where
  "net_defined (Udp_in clk ec data) \<longleftrightarrow> event_defined (Datagram clk ec data)"
| "net_defined _ \<longleftrightarrow> True"

text \<open>A write of the session is in flight: its handler holds the session and reports the outcome.\<close>

definition write_pending :: "net \<Rightarrow> nat \<Rightarrow> device_link \<Rightarrow> bool" where
  "write_pending n sid l \<longleftrightarrow>
     (case lock (rg_dev (nt_region n)) sid of
        None \<Rightarrow> False
      | Some se \<Rightarrow> writing (se_box se) \<and> \<not> dl_failed l)"

text \<open>
  A session lives as long as a handler holds a \<^verbatim>\<open>shared_ptr\<close> to it: that of the pending read, of the
  write in flight, or a posted closure.
\<close>

definition unreferenced :: "net \<Rightarrow> nat \<Rightarrow> device_link \<Rightarrow> bool" where
  "unreferenced n sid l \<longleftrightarrow>
     \<not> chain_open (rc_phase l) \<and> \<not> write_pending n sid l
     \<and> (case lock (rg_dev (nt_region n)) sid of None \<Rightarrow> False | Some se \<Rightarrow> se_posted se = [])"

text \<open>
  The handlers of a connection: what each does to its link, and which events the region then goes
  through. A completion that cannot happen in the state changes nothing.
\<close>

type_synonym link_result = "device_link \<times> region_event list"

definition handshake_done :: "bool \<Rightarrow> nat \<Rightarrow> device_link \<Rightarrow> link_result" where
  "handshake_done ec sid l =
     (if rc_phase l \<noteq> In_handshake then (l, [])
      else if ec then (l\<lparr>rc_phase := Broken\<rparr>, [Connection (Close sid)])
      else (l\<lparr>rc_phase := At_header\<rparr>, []))"

text \<open>Bytes arrive and reads complete only while the socket is open.\<close>

definition socket_open :: "device_link \<Rightarrow> bool" where
  "socket_open l \<longleftrightarrow> chain_open (rc_phase l) \<and> \<not> dl_failed l"

definition read_ready :: "device_link \<Rightarrow> link_result" where
  "read_ready l = (if socket_open l then (read_completes l, []) else (l, []))"

definition header_read :: "nat \<Rightarrow> device_link \<Rightarrow> link_result" where
  "header_read sid l =
     (let (l', closes) = header_done l in (l', if closes then [Connection (Close sid)] else []))"

definition body_read :: "clock \<Rightarrow> nat \<Rightarrow> device_link \<Rightarrow> link_result" where
  "body_read clk sid l =
     (case body_done l of
        (l', None) \<Rightarrow> (l', [])
      | (l', Some body) \<Rightarrow> (l', [Connection (Body clk sid body)]))"

definition read_failed :: "nat \<Rightarrow> device_link \<Rightarrow> link_result" where
  "read_failed sid l =
     (if chain_open (rc_phase l) \<and> rc_phase l \<noteq> In_handshake \<and> \<not> rc_ready l
      then (l\<lparr>rc_phase := Broken\<rparr>, [Connection (Close sid)]) else (l, []))"

definition write_completed :: "bool \<Rightarrow> net \<Rightarrow> nat \<Rightarrow> device_link \<Rightarrow> link_result" where
  "write_completed ec n sid l =
     (if \<not> write_pending n sid l then (l, [])
      else if ec then (l\<lparr>dl_failed := True\<rparr>, [Connection (Close sid)])
      else (l, [Connection (Written sid)]))"

fun link_step :: "net_event \<Rightarrow> net \<Rightarrow> nat \<Rightarrow> device_link \<Rightarrow> link_result" where
  "link_step (Handshake_done ec _) n sid l = handshake_done ec sid l"
| "link_step (Bytes_in _ bs) n sid l =
     (if socket_open l then (bytes_in bs l, []) else (l, []))"
| "link_step (Read_ready _) n sid l = read_ready l"
| "link_step (Header_read _) n sid l = header_read sid l"
| "link_step (Body_read clk _) n sid l = body_read clk sid l"
| "link_step (Read_failed _) n sid l = read_failed sid l"
| "link_step (Sent _) n sid l = write_completed False n sid l"
| "link_step (Send_failed _) n sid l = write_completed True n sid l"
| "link_step (Executor_ran k _) n sid l = (l, [Connection (Run_posted sid k)])"
| "link_step (Session_freed _) n sid l =
     (if unreferenced n sid l then (l, [Connection (Expire sid)]) else (l, []))"
| "link_step _ n sid l = (l, [])"

text \<open>\<^verbatim>\<open>do_accept\<close>: a connection with a session of its own, which starts the handshake; or an error.\<close>

definition accept_done :: "bool \<Rightarrow> nat \<Rightarrow> net \<Rightarrow> (nat \<times> device_link) list \<times> region_event list" where
  "accept_done ec sid n =
     (if ec \<or> link_of n sid \<noteq> None \<or> \<not> fresh (rg_dev (nt_region n)) sid then (nt_links n, [])
      else (AList.update sid new_link (nt_links n), [Connection (Accept sid)]))"

fun session_of :: "net_event \<Rightarrow> nat option" where
  "session_of (Handshake_done _ sid) = Some sid"
| "session_of (Bytes_in sid _) = Some sid"
| "session_of (Read_ready sid) = Some sid"
| "session_of (Header_read sid) = Some sid"
| "session_of (Body_read _ sid) = Some sid"
| "session_of (Read_failed sid) = Some sid"
| "session_of (Sent sid) = Some sid"
| "session_of (Send_failed sid) = Some sid"
| "session_of (Executor_ran _ sid) = Some sid"
| "session_of (Session_freed sid) = Some sid"
| "session_of _ = None"

definition links_step :: "net_event \<Rightarrow> net \<Rightarrow> (nat \<times> device_link) list \<times> region_event list" where
  "links_step e n =
     (case session_of e of
        Some sid \<Rightarrow> (case link_of n sid of
            None \<Rightarrow> (nt_links n, [])
          | Some l \<Rightarrow> (let (l', evs) = link_step e n sid l in (AList.update sid l' (nt_links n), evs)))
      | None \<Rightarrow> (case e of
            Tcp_accepted ec sid \<Rightarrow> accept_done ec sid n
          | Udp_in clk ec data \<Rightarrow> (nt_links n, [Datagram clk ec data])
          | Timer_fired clk \<Rightarrow> (nt_links n, [Tick clk])
          | _ \<Rightarrow> (nt_links n, [])))"

definition net_step :: "u64 \<Rightarrow> net_event \<Rightarrow> net \<Rightarrow> net option" where
  "net_step t e n =
     (let (links, evs) = links_step e n
      in case region_run t evs (nt_region n) of
           None \<Rightarrow> None
         | Some (r, effs) \<Rightarrow> Some \<lparr>nt_links = links, nt_region = r,
             nt_effects = nt_effects n @ effs, nt_trace = nt_trace n @ evs\<rparr>)"

fun net_run :: "u64 \<Rightarrow> net_event list \<Rightarrow> net \<Rightarrow> net option" where
  "net_run t [] n = Some n"
| "net_run t (e # es) n = Option.bind (net_step t e n) (net_run t es)"

text \<open>The bodies that the region handled for a session, in order.\<close>

fun body_from :: "nat \<Rightarrow> region_event \<Rightarrow> bytes option" where
  "body_from sid (Connection (Body clk s body)) = (if s = sid then Some body else None)"
| "body_from sid _ = None"

definition bodies_of :: "nat \<Rightarrow> net \<Rightarrow> bytes list" where
  "bodies_of sid n = List.map_filter (body_from sid) (nt_trace n)"

section \<open>What a region event does to the sessions\<close>

text \<open>
  \<open>same_sessions sid\<close>: the session kept its URI and got no route. Only its own acceptance, end and
  messages can do otherwise.
\<close>

definition same_sessions :: "nat \<Rightarrow> device_server \<Rightarrow> device_server \<Rightarrow> bool" where
  "same_sessions sid dv dv' \<longleftrightarrow>
     map_option se_uri (lock dv' sid) = map_option se_uri (lock dv sid)
     \<and> (\<forall>u. held_by u sid dv' \<longrightarrow> held_by u sid dv)"

lemma same_sessions_refl [simp]: "same_sessions sid dv dv"
  by (simp add: same_sessions_def)

lemma same_sessions_trans:
  "same_sessions sid dv dv1 \<Longrightarrow> same_sessions sid dv1 dv2 \<Longrightarrow> same_sessions sid dv dv2"
  by (simp add: same_sessions_def)

lemma same_sessions_reg [simp]:
  "same_sessions sid dv (dv'\<lparr>dv_reg := reg\<rparr>) = same_sessions sid dv dv'"
  "same_sessions sid (dv\<lparr>dv_reg := reg\<rparr>) dv' = same_sessions sid dv dv'"
  by (simp_all add: same_sessions_def held_by_def)

lemma same_sessions_commanded: "commanded f dv dv' \<Longrightarrow> same_sessions sid dv dv'"
  by (simp add: same_sessions_def commanded_def option.map_comp comp_def)

lemma same_sessions_delete: "same_sessions sid dv (dv\<lparr>dv_sessions := AList.delete u (dv_sessions dv)\<rparr>)"
  by (auto simp: same_sessions_def held_by_def delete_conv' split: if_splits)

lemma same_sessions_close: "same_sessions sid dv (on_close s dv)"
  by (auto simp: on_close_def same_sessions_delete split: option.splits)

lemma same_sessions_map:
  "(\<And>se. se_uri (f se) = se_uri se) \<Longrightarrow> same_sessions sid dv (map_session s f dv)"
  by (auto simp: map_session_def same_sessions_def held_by_def split: option.splits)

lemma same_sessions_command_zone:
  assumes "region_ok r" "command_zone cmds z r = Inr r'"
  shows "same_sessions sid (rg_dev r) (rg_dev r')"
proof -
  from assms(1) have "dv_ok (rg_dev r)" by (simp add: region_ok_def)
  from command_lamps_commanded [OF this, of cmds "get_lamps_in_zone (rg_reg r) z"] assms(2)
  show ?thesis by (auto simp: command_zone_def Let_def dest: same_sessions_commanded split: if_splits)
qed

lemma same_sessions_udp:
  assumes "region_ok r" "events_short evs" "run_udp_events clk evs r = Inr (r', effs)"
  shows "same_sessions sid (rg_dev r) (rg_dev r')"
  using assms
proof (induction evs arbitrary: r effs)
  case (Cons e evs)
  from run_udp_event_ok [OF Cons.prems(1), of e clk] Cons.prems(2) obtain r1 out1
    where one: "run_udp_event clk e r = Inr (r1, out1)" "result_ok (r1, out1)"
    by (auto simp: events_short_def)
  have "same_sessions sid (rg_dev r) (rg_dev r1)"
    using one(1) same_sessions_command_zone [OF Cons.prems(1)]
    by (cases e) (auto simp: motion_on_def motion_off_def sensor_fault_def Let_def bind_result_def
        split: sum.splits)
  moreover have "same_sessions sid (rg_dev r1) (rg_dev r')"
    using Cons.prems(2,3) one Cons.IH [of r1]
    by (auto simp: events_short_def result_ok_def bind_result_def split: sum.splits)
  ultimately show ?case by (rule same_sessions_trans)
qed simp

lemma same_sessions_datagram:
  assumes "region_ok r" "event_defined (Datagram clk ec data)" "datagram clk ec data r = Some (r', effs)"
  shows "same_sessions sid (rg_dev r) (rg_dev r')"
proof (cases "\<not> ec \<and> length data \<ge> sizeof_telemetry")
  case False
  with assms(3) show ?thesis by (auto simp: datagram_skipped)
next
  case True
  with assms(2) obtain t where t: "decode_telemetry data = Some t" by auto
  obtain reg lm evs where d: "region_ok ((set_reg reg r)\<lparr>rg_last_motion := lm\<rparr>)" "events_short evs"
    "datagram clk ec data r = (case run_udp_events clk evs ((set_reg reg r)\<lparr>rg_last_motion := lm\<rparr>) of
       Inl e \<Rightarrow> None | Inr res \<Rightarrow> Some res)"
    using datagram_split [OF assms(1) _ _ t, of ec clk] True by metis
  from same_sessions_udp [OF d(1,2), of clk r' effs sid] d(3) assms(3) show ?thesis
    by (auto split: sum.splits)
qed

lemma rg_dev_effects [simp]: "rg_dev (fst (run_dev_effects clk effs r)) = rg_dev r"
  by (induction clk effs r rule: run_dev_effects.induct)
    (auto simp: on_device_fault_def split: prod.splits)

lemma rg_dev_message: "rg_dev (fst (device_message clk sid body r)) = fst (on_body clk sid body (rg_dev r))"
  by (simp add: device_message_def split: prod.split)

lemma lock_on_body_other: "s \<noteq> sid \<Longrightarrow> lock (fst (on_body clk s body dv)) sid = lock dv sid"
proof (cases "lock dv s")
  case (Some se)
  assume "s \<noteq> sid"
  obtain se' dv' effs where d: "dispatch clk s body se dv = (se', dv', effs)"
    by (cases "dispatch clk s body se dv")
  from dispatch_tables [OF d] \<open>s \<noteq> sid\<close> show ?thesis
    by (simp add: on_body_eq [OF Some d] keeps_tables_def)
qed (simp add: on_body_def)

lemma same_sessions_on_body: "s \<noteq> sid \<Longrightarrow> same_sessions sid dv (fst (on_body clk s body dv))"
proof (cases "lock dv s")
  case (Some se)
  assume "s \<noteq> sid"
  then show ?thesis
    by (auto simp: same_sessions_def held_by_def lock_on_body_other on_body_tables(1) [OF Some]
        split: option.splits if_splits)
qed (simp add: on_body_def)

lemma same_sessions_other:
  "s \<noteq> sid \<Longrightarrow> same_sessions sid dv (do_accept s dv)"
  "s \<noteq> sid \<Longrightarrow> same_sessions sid dv (expire s dv)"
  by (auto simp: same_sessions_def held_by_def do_accept_def)

text \<open>The events of a region that concern the life of a session.\<close>

fun own_event :: "nat \<Rightarrow> region_event \<Rightarrow> bool" where
  "own_event sid (Connection (Accept s)) \<longleftrightarrow> s = sid"
| "own_event sid (Connection (Body clk s b)) \<longleftrightarrow> s = sid"
| "own_event sid (Connection (Expire s)) \<longleftrightarrow> s = sid"
| "own_event sid _ \<longleftrightarrow> False"

lemma same_sessions_step:
  assumes "region_ok r" "event_defined e" "\<not> own_event sid e" "region_step t e r = Some (r', effs)"
  shows "same_sessions sid (rg_dev r) (rg_dev r')"
proof (cases e)
  case (Connection a)
  show ?thesis
  proof (cases a)
    case (Body clk s body)
    with assms Connection have "rg_dev r' = fst (on_body clk s body (rg_dev r))" "s \<noteq> sid"
      by (auto simp: rg_dev_message [symmetric])
    then show ?thesis by (simp add: same_sessions_on_body)
  next
    case (Close s)
    with assms Connection show ?thesis by (auto simp: same_sessions_close)
  qed (use assms Connection in \<open>auto simp: same_sessions_map same_sessions_other\<close>)
next
  case (Datagram clk ec data)
  with assms same_sessions_datagram show ?thesis by simp
next
  case (Tick clk)
  obtain reg lost where d: "detect_comm_lost (rg_reg r) (now_ms clk) t = (reg, lost)"
    by (cases "detect_comm_lost (rg_reg r) (now_ms clk) t")
  from comm_lost_tick_eq [OF assms(1) d] assms(4) Tick show ?thesis by auto
qed

section \<open>The invariant\<close>

text \<open>
  \<open>unrouted\<close>: the server's table does not lead from the URI of a session to the session.
\<close>

definition unrouted :: "nat \<Rightarrow> device_server \<Rightarrow> bool" where
  "unrouted sid dv \<longleftrightarrow> (\<forall>se. lock dv sid = Some se \<longrightarrow> \<not> held_by (se_uri se) sid dv)"

definition link_ok :: "nat \<Rightarrow> bytes list \<Rightarrow> device_server \<Rightarrow> device_link \<Rightarrow> bool" where
  "link_ok sid bodies dv l \<longleftrightarrow>
     chain_ok bodies l \<and> (if chain_open (rc_phase l) then lock dv sid \<noteq> None else unrouted sid dv)"

definition session_fine :: "net \<Rightarrow> nat \<Rightarrow> bool" where
  "session_fine n sid \<longleftrightarrow>
     (case link_of n sid of
        None \<Rightarrow> bodies_of sid n = []
      | Some l \<Rightarrow> link_ok sid (bodies_of sid n) (rg_dev (nt_region n)) l)"

definition net_ok :: "u64 \<Rightarrow> u32 \<Rightarrow> net \<Rightarrow> bool" where
  "net_ok t rid n \<longleftrightarrow>
     region_ok (nt_region n)
     \<and> region_run t (nt_trace n) (boot rid) = Some (nt_region n, nt_effects n)
     \<and> (\<forall>sid. session_fine n sid)"

lemma unrouted_same: "unrouted sid dv \<Longrightarrow> same_sessions sid dv dv' \<Longrightarrow> unrouted sid dv'"
  by (auto simp: unrouted_def same_sessions_def) (metis option.simps(9) option.map_sel option.distinct(1)
      not_Some_eq option.map_disc_iff option.sel)

lemma link_ok_same: "link_ok sid bs dv l \<Longrightarrow> same_sessions sid dv dv' \<Longrightarrow> link_ok sid bs dv' l"
  by (auto simp: link_ok_def unrouted_same split: if_splits) (auto simp: same_sessions_def)

lemma unrouted_on_close: "dv_ok dv \<Longrightarrow> unrouted sid (on_close sid dv)"
  by (auto simp: unrouted_def held_by_def on_close_def delete_conv' dest: dv_ok_routes
      split: option.splits if_splits)

lemma region_run_snoc:
  "region_run t es r = Some (r1, out1) \<Longrightarrow> region_step t e r1 = Some (r2, out2)
     \<Longrightarrow> region_run t (es @ [e]) r = Some (r2, out1 @ out2)"
  by (induction es arbitrary: r out1) (auto split: option.splits prod.splits)

lemma body_from_own: "\<not> own_event sid e \<Longrightarrow> body_from sid e = None"
  by (cases "(sid, e)" rule: body_from.cases) auto

lemma bodies_of_more:
  "nt_trace n' = nt_trace n @ [e] \<Longrightarrow>
     bodies_of sid n' = bodies_of sid n @ (case body_from sid e of None \<Rightarrow> [] | Some b \<Rightarrow> [b])"
  by (simp add: bodies_of_def List.map_filter_def split: option.split)

lemma net_ok_link: "net_ok t rid n \<Longrightarrow> link_of n sid = Some l
    \<Longrightarrow> link_ok sid (bodies_of sid n) (rg_dev (nt_region n)) l"
  by (auto simp: net_ok_def session_fine_def dest: spec [of _ sid])

text \<open>
  \<open>event_fine\<close>: the region can go through the event, which concerns no other session, and the
  session is then fine with the link \<open>l\<close>.
\<close>

definition event_fine :: "u64 \<Rightarrow> net \<Rightarrow> nat \<Rightarrow> device_link option \<Rightarrow> region_event \<Rightarrow> bool" where
  "event_fine t n sid l e \<longleftrightarrow>
     event_defined e \<and> (\<forall>s. s \<noteq> sid \<longrightarrow> \<not> own_event s e)
     \<and> (\<forall>r effs bodies. region_step t e (nt_region n) = Some (r, effs)
          \<and> bodies = bodies_of sid n @ (case body_from sid e of None \<Rightarrow> [] | Some b \<Rightarrow> [b])
          \<longrightarrow> (case l of None \<Rightarrow> bodies = [] | Some l \<Rightarrow> link_ok sid bodies (rg_dev r) l))"

lemma net_ok_event:
  assumes "net_ok t rid n" "event_fine t n sid (map_of links sid) e"
    and "\<And>s. s \<noteq> sid \<Longrightarrow> map_of links s = link_of n s"
  shows "\<exists>r effs. region_run t [e] (nt_region n) = Some (r, effs) \<and> net_ok t rid
    \<lparr>nt_links = links, nt_region = r, nt_effects = nt_effects n @ effs, nt_trace = nt_trace n @ [e]\<rparr>"
proof -
  have ok: "region_ok (nt_region n)" using assms(1) by (simp add: net_ok_def)
  have def: "event_defined e" using assms(2) by (simp add: event_fine_def)
  from region_step_ok [OF ok this, of t] obtain r effs
    where st: "region_step t e (nt_region n) = Some (r, effs)" "region_ok r" by (auto simp: result_ok_def)
  define n' where "n' = \<lparr>nt_links = links, nt_region = r, nt_effects = nt_effects n @ effs,
    nt_trace = nt_trace n @ [e]\<rparr>"
  have n': "nt_region n' = r" "link_of n' s = map_of links s" "nt_trace n' = nt_trace n @ [e]"
    "nt_effects n' = nt_effects n @ effs" for s
    by (simp_all add: n'_def link_of_def)
  have "region_run t (nt_trace n') (boot rid) = Some (nt_region n', nt_effects n')"
    using assms(1) st(1) region_run_snoc by (simp add: n' net_ok_def)
  moreover have "session_fine n' s" for s
  proof (cases "s = sid")
    case True
    show ?thesis
      unfolding True using assms(2) st(1) bodies_of_more [OF n'(3), of sid]
      by (auto simp: event_fine_def session_fine_def n' split: option.splits)
  next
    case False
    then have own: "\<not> own_event s e" using assms(2) by (simp add: event_fine_def)
    note same_sessions_step [OF ok def own st(1)]
    moreover have "bodies_of s n' = bodies_of s n"
      using bodies_of_more [OF n'(3), of s] body_from_own [OF own] by simp
    moreover have "session_fine n s" using assms(1) by (simp add: net_ok_def)
    ultimately show ?thesis
      using assms(3) [OF False] by (auto simp: session_fine_def n' intro: link_ok_same split: option.splits)
  qed
  ultimately have "net_ok t rid n'" using st(2) by (simp add: net_ok_def n')
  with st(1) show ?thesis by (simp add: n'_def)
qed

lemma net_ok_silent:
  assumes "net_ok t rid n" "link_ok sid (bodies_of sid n) (rg_dev (nt_region n)) l'"
  shows "net_ok t rid (n\<lparr>nt_links := AList.update sid l' (nt_links n)\<rparr>)"
proof -
  let ?n = "n\<lparr>nt_links := AList.update sid l' (nt_links n)\<rparr>"
  have n: "nt_region ?n = nt_region n" "bodies_of s ?n = bodies_of s n" "link_of ?n s = (if s = sid then Some l' else link_of n s)" for s
    by (simp_all add: bodies_of_def link_of_def)
  have "session_fine ?n s" for s
    using assms unfolding session_fine_def n by (simp add: net_ok_def session_fine_def)
  with assms(1) show ?thesis by (simp add: net_ok_def)
qed

section \<open>The events of the sessions\<close>

lemma close_fine:
  assumes "region_ok (nt_region n)" "chain_ok (bodies_of sid n) l"
    and "chain_open (rc_phase l) \<Longrightarrow> lock (rg_dev (nt_region n)) sid \<noteq> None"
  shows "event_fine t n sid (Some l) (Connection (Close sid))"
  using assms unrouted_on_close [of "rg_dev (nt_region n)" sid]
  by (auto simp: event_fine_def link_ok_def region_ok_def)

lemma plain_fine:
  assumes "region_ok (nt_region n)" "link_ok sid (bodies_of sid n) (rg_dev (nt_region n)) l"
    and "a = Run_posted sid k \<or> a = Written sid"
  shows "event_fine t n sid (Some l) (Connection a)"
proof -
  have "same_sessions sid (rg_dev (nt_region n)) (dev_step a (rg_dev (nt_region n)))"
    using assms(3) by (auto simp: same_sessions_map)
  from link_ok_same [OF assms(2) this] assms(3) show ?thesis by (auto simp: event_fine_def)
qed

lemma body_fine:
  assumes "link_ok sid (bodies_of sid n) (rg_dev (nt_region n)) l" "body_done l = (l', Some b)"
  shows "event_fine t n sid (Some l') (Connection (Body clk sid b))"
proof -
  have opened: "chain_open (rc_phase l)" "chain_open (rc_phase l')"
    using assms(2) by (auto simp: body_done_def split: chain_phase.splits if_splits)
  then obtain se where "lock (rg_dev (nt_region n)) sid = Some se" using assms(1) by (auto simp: link_ok_def)
  moreover have "chain_ok (bodies_of sid n @ [b]) l'"
    using assms(1) chain_ok_body [OF _ assms(2)] by (simp add: link_ok_def)
  moreover have "lock (rg_dev (fst (device_message clk sid b (nt_region n)))) sid \<noteq> None"
    using calculation(1) on_body_tables(2) [OF calculation(1)] by (simp add: rg_dev_message)
  ultimately show ?thesis using opened by (auto simp: event_fine_def link_ok_def)
qed

lemma expire_fine:
  "link_ok sid (bodies_of sid n) (rg_dev (nt_region n)) l \<Longrightarrow> \<not> chain_open (rc_phase l)
     \<Longrightarrow> event_fine t n sid (Some l) (Connection (Expire sid))"
  by (auto simp: event_fine_def link_ok_def unrouted_def)

lemma accept_fine:
  "fresh (rg_dev (nt_region n)) sid \<Longrightarrow> bodies_of sid n = []
     \<Longrightarrow> event_fine t n sid (Some new_link) (Connection (Accept sid))"
  by (auto simp: event_fine_def link_ok_def do_accept_def new_link_def chain_ok_def)

definition step_fine :: "u64 \<Rightarrow> net \<Rightarrow> nat \<Rightarrow> device_link \<times> region_event list \<Rightarrow> bool" where
  "step_fine t n sid res \<longleftrightarrow>
     (case res of
        (l, []) \<Rightarrow> link_ok sid (bodies_of sid n) (rg_dev (nt_region n)) l
      | (l, [e]) \<Rightarrow> event_fine t n sid (Some l) e
      | _ \<Rightarrow> False)"

lemma header_done_phase:
  "header_done l = (l', c) \<Longrightarrow> rc_phase l' = (if c then Refused else rc_phase l)
     \<or> \<not> c \<and> rc_phase l = At_header \<and> chain_open (rc_phase l')"
  by (auto simp: header_done_def Let_def split: if_splits)

lemma link_step_fine:
  assumes "net_ok t rid n" "link_of n sid = Some l"
  shows "step_fine t n sid (link_step e n sid l)"
proof -
  have r: "region_ok (nt_region n)" using assms(1) by (simp add: net_ok_def)
  note l = net_ok_link [OF assms]
  have c: "chain_ok (bodies_of sid n) l" using l by (simp add: link_ok_def)
  have live: "chain_open (rc_phase l) \<Longrightarrow> lock (rg_dev (nt_region n)) sid \<noteq> None"
    using l by (simp add: link_ok_def)
  have broken: "event_fine t n sid (Some (l\<lparr>rc_phase := Broken\<rparr>)) (Connection (Close sid))" if "\<not> rc_ready l"
    by (rule close_fine [OF r chain_ok_broken [OF c that]]) simp
  have idle: "\<not> rc_ready l" if "rc_phase l = In_handshake"
    using c that by (auto simp: chain_ok_def enough_def)
  show ?thesis
  proof (cases e)
    case (Handshake_done ec s)
    have "link_ok sid (bodies_of sid n) (rg_dev (nt_region n)) (l\<lparr>rc_phase := At_header\<rparr>)"
      if "rc_phase l = In_handshake"
      using that chain_ok_handshake [OF c] live by (simp add: link_ok_def)
    with l broken idle show ?thesis by (simp add: Handshake_done handshake_done_def step_fine_def)
  next
    case (Bytes_in s bs)
    have "rc_phase (bytes_in bs l) = rc_phase l" by (simp add: bytes_in_def)
    with l chain_ok_bytes [OF c] live show ?thesis
      by (simp add: Bytes_in step_fine_def link_ok_def socket_open_def)
  next
    case (Read_ready s)
    have "rc_phase (read_completes l) = rc_phase l" by (simp add: read_completes_def)
    with l chain_ok_completes [OF c] show ?thesis
      by (simp add: Read_ready read_ready_def step_fine_def link_ok_def)
  next
    case (Header_read s)
    obtain l' closes where h: "header_done l = (l', closes)" by (cases "header_done l")
    have c': "chain_ok (bodies_of sid n) l'"
      using chain_ok_header [OF c] c h by (cases "rc_phase l = At_header") (auto simp: header_done_def)
    show ?thesis
    proof (cases closes)
      case True
      with header_done_phase [OF h] have "rc_phase l' = Refused" by simp
      with close_fine [OF r c'] True show ?thesis by (simp add: Header_read header_read_def h step_fine_def)
    next
      case False
      with header_done_phase [OF h] have "rc_phase l' = rc_phase l
        \<or> rc_phase l = At_header \<and> chain_open (rc_phase l')" by simp
      with False l live c' show ?thesis
        by (auto simp: Header_read header_read_def h step_fine_def link_ok_def)
    qed
  next
    case (Body_read clk s)
    obtain l' b where b: "body_done l = (l', b)" by (cases "body_done l")
    with body_done_other [of l] body_fine [OF l, of l'] l show ?thesis
      by (cases b) (simp_all add: Body_read body_read_def step_fine_def)
  next
    case (Send_failed s)
    have "chain_ok (bodies_of sid n) (l\<lparr>dl_failed := True\<rparr>)"
      using c by (cases "rc_phase l") (auto simp: chain_ok_def reads_on_def enough_def)
    from close_fine [OF r this] live l show ?thesis by (simp add: Send_failed write_completed_def step_fine_def)
  next
    case (Sent s)
    with plain_fine [OF r l] l show ?thesis by (simp add: write_completed_def step_fine_def)
  next
    case (Executor_ran k s)
    with plain_fine [OF r l] show ?thesis by (simp add: step_fine_def)
  next
    case (Session_freed s)
    with expire_fine [OF l] l show ?thesis by (simp add: step_fine_def unreferenced_def)
  qed (simp_all add: read_failed_def step_fine_def l broken)
qed

lemma net_step_silent: "links_step e n = (links, []) \<Longrightarrow> net_step t e n = Some (n\<lparr>nt_links := links\<rparr>)"
  by (simp add: net_step_def)

lemma net_step_event:
  assumes "links_step e n = (links, [ev])" "net_ok t rid n" "event_fine t n sid (map_of links sid) ev"
    and "\<And>s. s \<noteq> sid \<Longrightarrow> map_of links s = link_of n s"
  shows "\<exists>n'. net_step t e n = Some n' \<and> net_ok t rid n'"
  using net_ok_event [OF assms(2-4)] assms(1) by (fastforce simp: net_step_def)

lemma region_fine:
  assumes "net_ok t rid n" "event_defined ev" "\<And>s. \<not> own_event s ev"
  shows "event_fine t n sid (link_of n sid) ev"
proof -
  have ok: "region_ok (nt_region n)" "session_fine n sid" using assms(1) by (simp_all add: net_ok_def)
  have "same_sessions sid (rg_dev (nt_region n)) (rg_dev r)"
    if "region_step t ev (nt_region n) = Some (r, effs)" for r effs
    by (rule same_sessions_step [OF ok(1) assms(2,3) that])
  then show ?thesis
    using ok(2) assms(2,3) body_from_own [OF assms(3)]
    by (auto simp: event_fine_def session_fine_def intro: link_ok_same split: option.splits)
qed

lemma net_ok_step:
  assumes "net_ok t rid n" "net_defined e"
  shows "\<exists>n'. net_step t e n = Some n' \<and> net_ok t rid n'"
proof (cases "session_of e")
  case (Some sid)
  show ?thesis
  proof (cases "link_of n sid")
    case None
    then have "links_step e n = (nt_links n, [])" by (simp add: links_step_def Some)
    from net_step_silent [OF this] assms(1) show ?thesis by simp
  next
    case (Some l)
    obtain l' evs where st: "link_step e n sid l = (l', evs)" by (cases "link_step e n sid l")
    then have links: "links_step e n = (AList.update sid l' (nt_links n), evs)"
      by (simp add: links_step_def \<open>session_of e = Some sid\<close> Some)
    have fine: "step_fine t n sid (l', evs)" using link_step_fine [OF assms(1) Some, of e] st by simp
    then consider "evs = []" | ev where "evs = [ev]"
      by (auto simp: step_fine_def split: list.splits)
    then show ?thesis
    proof cases
      case 1
      with fine net_ok_silent [OF assms(1), of sid l'] net_step_silent [of e n _ t] links
      show ?thesis by (simp add: step_fine_def)
    next
      case 2
      have "event_fine t n sid (map_of (AList.update sid l' (nt_links n)) sid) ev"
        using fine by (simp add: 2 step_fine_def)
      from net_step_event [OF links [unfolded 2] assms(1) this] show ?thesis by (simp add: link_of_def)
    qed
  qed
next
  case None
  have plain: ?thesis if "links_step e n = (nt_links n, [ev])" "event_defined ev" "\<And>s. \<not> own_event s ev" for ev
    by (rule net_step_event [OF that(1) assms(1), of 0])
      (use region_fine [OF assms(1) that(2,3), of 0] in \<open>simp_all add: link_of_def\<close>)
  show ?thesis
  proof (cases e)
    case (Tcp_accepted ec sid)
    show ?thesis
    proof (cases "ec \<or> link_of n sid \<noteq> None \<or> \<not> fresh (rg_dev (nt_region n)) sid")
      case True
      then have "links_step e n = (nt_links n, [])" by (auto simp: links_step_def accept_done_def Tcp_accepted)
      from net_step_silent [OF this] assms(1) show ?thesis by simp
    next
      case False
      then have "bodies_of sid n = []"
        using assms(1) by (auto simp: net_ok_def session_fine_def dest: spec [of _ sid])
      with False have fine: "event_fine t n sid (map_of (AList.update sid new_link (nt_links n)) sid) (Connection (Accept sid))"
        by (simp add: accept_fine)
      have "links_step e n = (AList.update sid new_link (nt_links n), [Connection (Accept sid)])"
        using False by (auto simp: links_step_def accept_done_def Tcp_accepted)
      from net_step_event [OF this assms(1) fine] show ?thesis by (simp add: link_of_def)
    qed
  next
    case (Udp_in clk ec data)
    with plain [of "Datagram clk ec data"] assms(2) show ?thesis by (simp add: links_step_def)
  next
    case (Timer_fired clk)
    with plain [of "Tick clk"] show ?thesis by (simp add: links_step_def)
  qed (use None in simp_all)
qed

lemma net_run_append: "net_run t (as @ bs) n = Option.bind (net_run t as n) (net_run t bs)"
proof (induction as arbitrary: n)
  case (Cons e as)
  then show ?case by (cases "net_step t e n") simp_all
qed simp

lemma net_ok_new: "net_ok t rid (new_net rid)"
  by (simp add: net_ok_def new_net_def region_ok_boot session_fine_def link_of_def bodies_of_def
      List.map_filter_def)

lemma net_ok_run:
  assumes "net_ok t rid n" "\<forall>e \<in> set es. net_defined e"
  shows "\<exists>n'. net_run t es n = Some n' \<and> net_ok t rid n'"
  using assms
proof (induction es arbitrary: n)
  case (Cons e es)
  then obtain n1 where "net_step t e n = Some n1" "net_ok t rid n1"
    using net_ok_step [OF Cons.prems(1), of e] by auto
  with Cons show ?case by simp
qed simp

section \<open>Every complete frame is read\<close>

lemma link_of_update [simp]:
  "link_of (n\<lparr>nt_links := AList.update sid l (nt_links n)\<rparr>) s = (if s = sid then Some l else link_of n s)"
  by (simp add: link_of_def)

text \<open>One read, when enough bytes are there: it completes and its handler runs.\<close>

abbreviation own_reads :: "clock \<Rightarrow> nat \<Rightarrow> net_event set" where
  "own_reads clk sid \<equiv> {Read_ready sid, Header_read sid, Body_read clk sid}"

lemma link_after_step:
  "session_of e = Some sid \<Longrightarrow> link_of n sid = Some l \<Longrightarrow> net_step t e n = Some n'
     \<Longrightarrow> link_of n' sid = Some (fst (link_step e n sid l))"
  by (auto simp: net_step_def links_step_def link_of_def split: option.splits prod.splits)

definition read_handler :: "clock \<Rightarrow> nat \<Rightarrow> device_link \<Rightarrow> net_event" where
  "read_handler clk sid l = (if rc_phase l = At_header then Header_read sid else Body_read clk sid)"

definition after_read :: "clock \<Rightarrow> net \<Rightarrow> nat \<Rightarrow> device_link \<Rightarrow> device_link" where
  "after_read clk n sid l = fst (link_step (read_handler clk sid l) n sid (l\<lparr>rc_ready := True\<rparr>))"

lemma after_read_facts:
  assumes "chain_ok bodies l" "chain_open (rc_phase l)" "\<not> chain_waits l" "rc_phase l \<noteq> In_handshake"
  shows "length (rc_arrived (after_read clk n sid l)) < length (rc_arrived l)"
    "rc_received (after_read clk n sid l) = rc_received l"
    "rc_phase (after_read clk n sid l) = Refused \<or> chain_open (rc_phase (after_read clk n sid l))"
    "rc_phase (after_read clk n sid l) \<noteq> In_handshake"
    "dl_failed (after_read clk n sid l) = dl_failed l"
proof -
  have "0 < unat k" if "rc_phase l = At_body k" for k
    using assms(1) that by (auto simp: chain_ok_def unat_gt_0)
  then show "length (rc_arrived (after_read clk n sid l)) < length (rc_arrived l)"
    "rc_received (after_read clk n sid l) = rc_received l"
    "rc_phase (after_read clk n sid l) = Refused \<or> chain_open (rc_phase (after_read clk n sid l))"
    "rc_phase (after_read clk n sid l) \<noteq> In_handshake"
    "dl_failed (after_read clk n sid l) = dl_failed l"
    using assms(2-4)
    by (cases "rc_phase l"; auto simp: after_read_def read_handler_def header_read_def header_done_def
        body_read_def body_done_def chain_waits_def Let_def)+
qed

lemma read_progress:
  assumes "net_ok t rid n" "link_of n sid = Some l" "socket_open l" "rc_phase l \<noteq> In_handshake"
    and "\<not> chain_waits l"
  shows "\<exists>es n' l'. set es \<subseteq> own_reads clk sid \<and> net_run t es n = Some n' \<and> net_ok t rid n'
    \<and> link_of n' sid = Some l' \<and> length (rc_arrived l') < length (rc_arrived l)
    \<and> rc_received l' = rc_received l \<and> (rc_phase l' = Refused \<or> socket_open l')
    \<and> rc_phase l' \<noteq> In_handshake \<and> dl_failed l' = dl_failed l"
proof -
  let ?e = "read_handler clk sid l" and ?l = "l\<lparr>rc_ready := True\<rparr>"
  have opened: "chain_open (rc_phase l)" "\<not> dl_failed l" using assms(3) by (simp_all add: socket_open_def)
  have c: "chain_ok (bodies_of sid n) l" using net_ok_link [OF assms(1,2)] by (simp add: link_ok_def)
  have full: "enough l"
    using opened(1) assms(4,5) by (cases "rc_phase l") (auto simp: enough_def chain_waits_def)
  obtain n1 where n1: "net_step t (Read_ready sid) n = Some n1" "net_ok t rid n1"
    using net_ok_step [OF assms(1), of "Read_ready sid"] by auto
  have l1: "link_of n1 sid = Some ?l"
    using link_after_step [OF _ assms(2) n1(1)] assms(3) full by (simp add: read_ready_def read_completes_def)
  have e: "net_defined ?e" "session_of ?e = Some sid" "?e \<in> own_reads clk sid"
    by (simp_all add: read_handler_def)
  obtain n2 where n2: "net_step t ?e n1 = Some n2" "net_ok t rid n2"
    using net_ok_step [OF n1(2) e(1)] by auto
  have "link_of n2 sid = Some (after_read clk n sid l)"
    using link_after_step [OF e(2) l1 n2(1)] by (simp add: after_read_def read_handler_def)
  with after_read_facts [OF c opened(1) assms(5,4), of clk n sid] n1 n2 e(3) opened show ?thesis
    by (intro exI [of _ "[Read_ready sid, ?e]"] exI [of _ n2] exI [of _ "after_read clk n sid l"])
      (auto simp: socket_open_def)
qed

lemma reads_complete:
  assumes "net_ok t rid n" "link_of n sid = Some l" "rc_phase l \<noteq> In_handshake"
    and "rc_phase l = Refused \<or> socket_open l"
  shows "\<exists>es n' l'. set es \<subseteq> own_reads clk sid \<and> net_run t es n = Some n'
    \<and> net_ok t rid n' \<and> link_of n' sid = Some l' \<and> rc_received l' = rc_received l \<and> chain_waits l'"
  using assms
proof (induction "length (rc_arrived l)" arbitrary: n l rule: less_induct)
  case less
  show ?case
  proof (cases "chain_waits l")
    case True
    with less.prems show ?thesis by (intro exI [of _ "[]"]) auto
  next
    case False
    then have "socket_open l" using less.prems(4) by (auto simp: chain_waits_def)
    from read_progress [OF less.prems(1,2) this less.prems(3) False, of clk] obtain es1 n1 l1
      where e: "set es1 \<subseteq> own_reads clk sid" "net_run t es1 n = Some n1" "net_ok t rid n1"
        "link_of n1 sid = Some l1" "length (rc_arrived l1) < length (rc_arrived l)"
        "rc_received l1 = rc_received l" "rc_phase l1 = Refused \<or> socket_open l1"
        "rc_phase l1 \<noteq> In_handshake" by blast
    from less.hyps [OF e(5,3,4,8,7)] obtain es n' l'
      where "set es \<subseteq> own_reads clk sid" "net_run t es n1 = Some n'"
        "net_ok t rid n'" "link_of n' sid = Some l'" "rc_received l' = rc_received l1" "chain_waits l'"
      by blast
    with e show ?thesis
      by (intro exI [of _ "es1 @ es"] exI [of _ n'] exI [of _ l']) (auto simp: net_run_append)
  qed
qed

text \<open>
  After a failed write no read completes any more: with no handler queued, nothing that the
  connection's own reads do reaches the region, however many bytes arrived before.
\<close>

lemma nothing_read_after_failure:
  assumes "link_of n sid = Some l" "dl_failed l" "\<not> rc_ready l" "e \<in> own_reads clk sid"
  shows "net_step t e n = Some (n\<lparr>nt_links := AList.update sid l (nt_links n)\<rparr>)"
  using assms
  by (auto simp: net_step_def links_step_def link_of_def read_ready_def socket_open_def header_read_def
      header_done_def body_read_def body_done_def split: chain_phase.splits)

section \<open>Sessions are freed\<close>

lemma own_step:
  assumes "session_of e = Some sid" "link_of n sid = Some l" "link_step e n sid l = (l', [Connection a])"
    and "\<forall>u c v. a \<noteq> Send_cmd u c v" "\<forall>s clk b. a \<noteq> Body clk s b"
  shows "\<exists>n'. net_step t e n = Some n' \<and> link_of n' sid = Some l'
    \<and> rg_dev (nt_region n') = dev_step a (rg_dev (nt_region n))"
  using assms by (cases a) (simp_all add: net_step_def links_step_def link_of_def)

lemma unreferenced_freed:
  assumes "link_of n sid = Some l" "unreferenced n sid l"
  shows "\<exists>n'. net_step t (Session_freed sid) n = Some n' \<and> lock (rg_dev (nt_region n')) sid = None"
  using own_step [of "Session_freed sid" sid n l l "Expire sid" t] assms by auto

text \<open>
  Once the read chain of a session ended, its posted closures and the write in flight (which the closed
  socket fails) are all that keeps it; when they are done it is freed.
\<close>

lemma ended_session_freed:
  assumes "link_of n sid = Some l" "\<not> chain_open (rc_phase l)" "lock (rg_dev (nt_region n)) sid = Some se"
  shows "\<exists>es n'. set es \<subseteq> {Executor_ran 0 sid, Send_failed sid, Session_freed sid}
    \<and> net_run t es n = Some n' \<and> lock (rg_dev (nt_region n')) sid = None"
  using assms
proof (induction "length (se_posted se)" arbitrary: n se)
  case 0
  show ?case
  proof (cases "write_pending n sid l")
    case True
    then have "link_step (Send_failed sid) n sid l = (l\<lparr>dl_failed := True\<rparr>, [Connection (Close sid)])"
      by (simp add: write_completed_def)
    from own_step [OF _ 0(2) this, of t] obtain n1 where n1: "net_step t (Send_failed sid) n = Some n1"
      "link_of n1 sid = Some (l\<lparr>dl_failed := True\<rparr>)" "rg_dev (nt_region n1) = on_close sid (rg_dev (nt_region n))"
      by auto
    then have "unreferenced n1 sid (l\<lparr>dl_failed := True\<rparr>)"
      using 0 by (simp add: unreferenced_def write_pending_def)
    from unreferenced_freed [OF n1(2) this, of t] obtain n2 where
      "net_step t (Session_freed sid) n1 = Some n2" "lock (rg_dev (nt_region n2)) sid = None" by blast
    with n1(1) show ?thesis by (intro exI [of _ "[Send_failed sid, Session_freed sid]"] exI [of _ n2]) simp
  next
    case False
    with 0 have "unreferenced n sid l" by (simp add: unreferenced_def)
    from unreferenced_freed [OF 0(2) this, of t] obtain n2 where
      "net_step t (Session_freed sid) n = Some n2" "lock (rg_dev (nt_region n2)) sid = None" by blast
    then show ?thesis by (intro exI [of _ "[Session_freed sid]"] exI [of _ n2]) simp
  qed
next
  case (Suc k)
  from own_step [of "Executor_ran 0 sid" sid n l l "Run_posted sid 0" t] Suc.prems(1) obtain n1
    where n1: "net_step t (Executor_ran 0 sid) n = Some n1" "link_of n1 sid = Some l"
      "rg_dev (nt_region n1) = map_session sid (run_posted 0) (rg_dev (nt_region n))" by auto
  have "lock (rg_dev (nt_region n1)) sid = Some (run_posted 0 se)" "k = length (se_posted (run_posted 0 se))"
    using Suc.hyps(2) Suc.prems(3) by (auto simp: n1(3) map_session_def run_posted_def)
  from Suc.hyps(1) [OF this(2) n1(2) Suc.prems(2) this(1)] obtain es n' where
    "set es \<subseteq> {Executor_ran 0 sid, Send_failed sid, Session_freed sid}" "net_run t es n1 = Some n'"
    "lock (rg_dev (nt_region n')) sid = None" by blast
  with n1(1) show ?case by (intro exI [of _ "Executor_ran 0 sid # es"] exI [of _ n']) simp
qed

text \<open>A peer whose frame arrives in two pieces; for the witnesses.\<close>

definition example_frame :: bytes where
  "example_frame = write_frame FAULT_ACK []"

definition example_net_events :: "net_event list" where
  "example_net_events = [Tcp_accepted False 1, Handshake_done False 1, Bytes_in 1 (take 3 example_frame),
     Bytes_in 1 (drop 3 example_frame)]"

definition arrived_link :: device_link where
  "arrived_link = \<lparr>rc_phase = At_header, rc_ready = False, rc_arrived = example_frame, rc_received = example_frame,
     dl_failed = False\<rparr>"

lemma example_arrives:
  "\<exists>n. net_run t example_net_events (new_net rid) = Some n \<and> link_of n 1 = Some arrived_link"
proof -
  have "fresh (rg_dev (boot rid)) 1"
    by (simp add: boot_def rg_switch_def Let_def fresh_def lock_def new_server_def)
  then show ?thesis
    by (simp add: example_net_events_def net_step_def links_step_def new_net_def link_of_def new_link_def
        accept_done_def handshake_done_def arrived_link_def bytes_in_def socket_open_def)
qed

lemma example_frame_length: "length example_frame = 5"
  by (simp add: example_frame_def write_frame_def mem32_def Let_def)

lemma example_frame_read: "read_header example_frame = Got_body (body_of FAULT_ACK []) []"
  using read_header_frame [of "[]" FAULT_ACK "[]"] by (simp add: max_body_def example_frame_def)

lemma example_loop: "fst (read_loop example_frame) = [body_of FAULT_ACK []]"
  using read_loop_got [OF example_frame_read] by simp

lemma example_handled:
  "\<exists>es n l. net_run t (example_net_events @ es) (new_net rid) = Some n \<and> link_of n 1 = Some l
     \<and> chain_waits l \<and> rc_received l = example_frame \<and> (\<forall>e \<in> set (example_net_events @ es). net_defined e)"
proof -
  obtain n where n: "net_run t example_net_events (new_net rid) = Some n" "link_of n 1 = Some arrived_link"
    using example_arrives by blast
  have d: "\<forall>e \<in> set example_net_events. net_defined e" by (simp add: example_net_events_def)
  from net_ok_run [OF net_ok_new d, of t rid] n(1) have "net_ok t rid n" by simp
  from reads_complete [OF this n(2), of example_clock] obtain es n' l
    where "set es \<subseteq> own_reads example_clock 1" "net_run t es n = Some n'" "link_of n' 1 = Some l"
      "rc_received l = example_frame" "chain_waits l"
    by (auto simp: arrived_link_def socket_open_def)
  then show ?thesis
    using d n(1) by (intro exI [of _ es] exI [of _ n'] exI [of _ l]) (auto simp: net_run_append)
qed

section \<open>Properties\<close>

text \<open>
  C4: The connections refine the region: whatever the interleaving of accepts, handshakes, arriving
  bytes, completions and failures, the run is defined and is a run of the region, in which the messages
  of each session are, each once and in order, the first of those that its peer sent, however their
  bytes were cut into pieces; nothing before the handshake, and all of them once every byte that was
  sent arrived and no read can complete.
\<close>

theorem device_bytes_in_order:
  assumes "\<forall>e \<in> set es. net_defined e"
  shows "\<exists>n. net_run t es (new_net rid) = Some n
    \<and> region_run t (nt_trace n) (boot rid) = Some (nt_region n, nt_effects n)
    \<and> (\<forall>sid l. link_of n sid = Some l \<longrightarrow>
        (rc_phase l = In_handshake \<longrightarrow> bodies_of sid n = [])
        \<and> (\<forall>ms. (\<forall>(ty, p) \<in> set ms. length p < max_body)
            \<and> prefix (rc_received l) (concat (map (\<lambda>(ty, p). write_frame ty p) ms)) \<longrightarrow>
            prefix (bodies_of sid n) (map (\<lambda>(ty, p). body_of ty p) ms)
            \<and> (rc_received l = concat (map (\<lambda>(ty, p). write_frame ty p) ms) \<and> chain_waits l \<longrightarrow>
               bodies_of sid n = map (\<lambda>(ty, p). body_of ty p) ms)))"
proof -
  obtain n where n: "net_run t es (new_net rid) = Some n" "net_ok t rid n"
    using net_ok_run [OF net_ok_new assms] by blast
  have c: "chain_ok (bodies_of sid n) l" if "link_of n sid = Some l" for sid l
    using net_ok_link [OF n(2) that] by (simp add: link_ok_def)
  have "bodies_of sid n = []" if "link_of n sid = Some l" "rc_phase l = In_handshake" for sid l
    using c [OF that(1)] that(2) by (simp add: chain_ok_def)
  moreover have "prefix (bodies_of sid n) (map (\<lambda>(ty, p). body_of ty p) ms)"
    if "link_of n sid = Some l" "\<forall>(ty, p) \<in> set ms. length p < max_body"
      "prefix (rc_received l) (concat (map (\<lambda>(ty, p). write_frame ty p) ms))" for sid l ms
    by (rule chain_reader.handled_sent [OF c [OF that(1)] that(2,3)])
  moreover have "bodies_of sid n = map (\<lambda>(ty, p). body_of ty p) ms"
    if "link_of n sid = Some l" "\<forall>(ty, p) \<in> set ms. length p < max_body"
      "rc_received l = concat (map (\<lambda>(ty, p). write_frame ty p) ms)" "chain_waits l" for sid l ms
    using chain_waits_complete [OF c [OF that(1)] that(4)] read_loop_frames [OF that(2), of "[]"] that(3) by simp
  ultimately show ?thesis using n by (auto simp: net_ok_def)
qed

lemma device_bytes_in_order_witness:
  "\<exists>es n. net_run 20000 (example_net_events @ es) (new_net 1) = Some n
     \<and> bodies_of 1 n = [body_of FAULT_ACK []]"
proof -
  obtain es n l where n: "net_run 20000 (example_net_events @ es) (new_net 1) = Some n" "link_of n 1 = Some l"
    "chain_waits l" "rc_received l = example_frame" "\<forall>e \<in> set (example_net_events @ es). net_defined e"
    using example_handled by metis
  from device_bytes_in_order [OF n(5), of 20000 1] n(1,2) have
    "\<forall>ms. (\<forall>(ty, p) \<in> set ms. length p < max_body)
      \<and> prefix (rc_received l) (concat (map (\<lambda>(ty, p). write_frame ty p) ms)) \<longrightarrow>
      prefix (bodies_of 1 n) (map (\<lambda>(ty, p). body_of ty p) ms)
      \<and> (rc_received l = concat (map (\<lambda>(ty, p). write_frame ty p) ms) \<and> chain_waits l \<longrightarrow>
         bodies_of 1 n = map (\<lambda>(ty, p). body_of ty p) ms)"
    by auto
  from spec [OF this, of "[(FAULT_ACK, [])]"] n show ?thesis
    by (auto simp: example_frame_def max_body_def)
qed

text \<open>
  C10: No complete frame is lost or left as long as no write of the connection failed (its handler
  closes the socket): on every connection whose read chain goes on, in every such state of the
  server, the completions of its own reads alone lead, whatever else is pending, to a state in
  which the region handled every complete frame among the bytes that arrived (up to a length out of
  range), and then the chain waits for more.
\<close>

theorem complete_frames_handled:
  assumes "\<forall>e \<in> set es. net_defined e" "net_run t es (new_net rid) = Some n"
    and "link_of n sid = Some l" "chain_open (rc_phase l)" "rc_phase l \<noteq> In_handshake" "\<not> dl_failed l"
  shows "\<exists>es' n' l'. set es' \<subseteq> {Read_ready sid, Header_read sid, Body_read clk sid} \<and> net_run t es' n = Some n'
    \<and> link_of n' sid = Some l' \<and> rc_received l' = rc_received l \<and> chain_waits l'
    \<and> bodies_of sid n' = fst (read_loop (rc_received l))"
proof -
  have "net_ok t rid n" using net_ok_run [OF net_ok_new assms(1), of t rid] assms(2) by simp
  moreover have "socket_open l" using assms(4,6) by (simp add: socket_open_def)
  ultimately obtain es' n' l'
    where e: "set es' \<subseteq> own_reads clk sid" "net_run t es' n = Some n'" "net_ok t rid n'"
      "link_of n' sid = Some l'" "rc_received l' = rc_received l" "chain_waits l'"
    using reads_complete [OF _ assms(3,5) disjI2, of t rid clk] by blast
  moreover have "bodies_of sid n' = fst (read_loop (rc_received l'))"
    using net_ok_link [OF e(3,4)] e(6) by (intro chain_waits_complete) (simp_all add: link_ok_def)
  ultimately show ?thesis by auto
qed

lemma complete_frames_handled_witness:
  "\<exists>n es n'. net_run 20000 example_net_events (new_net 1) = Some n \<and> net_run 20000 es n = Some n'
     \<and> bodies_of 1 n' = [body_of FAULT_ACK []]"
proof -
  obtain n where n: "net_run 20000 example_net_events (new_net 1) = Some n" "link_of n 1 = Some arrived_link"
    using example_arrives by blast
  have "\<forall>e \<in> set example_net_events. net_defined e" by (simp add: example_net_events_def)
  from complete_frames_handled [OF this n, of example_clock] obtain es' n' l'
    where "net_run 20000 es' n = Some n'" "bodies_of 1 n' = fst (read_loop (rc_received arrived_link))"
    by (auto simp: arrived_link_def)
  with n(1) example_loop show ?thesis
    by (intro exI [of _ n] exI [of _ es'] exI [of _ n']) (simp add: arrived_link_def)
qed

text \<open>
  C9: Sessions live and die with their connections: while the read chain of a connection goes on its
  session object exists, so no message is dropped, and once the chain ended, by an error of handshake
  or read or a refused length, the server's table does not lead from the URI of the session to it,
  so that no command is posted to a closed connection under this URI; and what is left of the
  session's own operations, run to their end, then frees the object, so none is leaked.
\<close>

theorem sessions_follow_connections:
  assumes "\<forall>e \<in> set es. net_defined e" "net_run t es (new_net rid) = Some n" "link_of n sid = Some l"
  shows "(chain_open (rc_phase l) \<longrightarrow> lock (rg_dev (nt_region n)) sid \<noteq> None)
    \<and> (\<not> chain_open (rc_phase l) \<longrightarrow> (\<forall>se. lock (rg_dev (nt_region n)) sid = Some se
        \<longrightarrow> \<not> held_by (se_uri se) sid (rg_dev (nt_region n))
          \<and> (\<exists>es' n'. set es' \<subseteq> {Executor_ran 0 sid, Send_failed sid, Session_freed sid}
              \<and> net_run t es' n = Some n' \<and> lock (rg_dev (nt_region n')) sid = None)))"
proof -
  have "net_ok t rid n" using net_ok_run [OF net_ok_new assms(1), of t rid] assms(2) by simp
  from net_ok_link [OF this assms(3)] ended_session_freed [OF assms(3)] show ?thesis
    by (simp add: link_ok_def unrouted_def split: if_splits)
qed

lemma sessions_follow_connections_witness:
  "\<exists>n es' n'. net_run 20000 (example_net_events @ [Read_failed 1]) (new_net 1) = Some n
     \<and> net_run 20000 es' n = Some n' \<and> lock (rg_dev (nt_region n')) 1 = None"
proof -
  obtain n0 where n0: "net_run 20000 example_net_events (new_net 1) = Some n0" "link_of n0 1 = Some arrived_link"
    using example_arrives by blast
  have d: "\<forall>e \<in> set (example_net_events @ [Read_failed 1]). net_defined e" by (simp add: example_net_events_def)
  have "link_step (Read_failed 1) n0 1 arrived_link = (arrived_link\<lparr>rc_phase := Broken\<rparr>, [Connection (Close 1)])"
    by (simp add: read_failed_def arrived_link_def)
  from own_step [OF _ n0(2) this, of 20000] obtain n where
    n: "net_step 20000 (Read_failed 1) n0 = Some n" "link_of n 1 = Some (arrived_link\<lparr>rc_phase := Broken\<rparr>)" by auto
  have r: "net_run 20000 (example_net_events @ [Read_failed 1]) (new_net 1) = Some n"
    using n0(1) n(1) by (simp add: net_run_append)
  from sessions_follow_connections [OF d r n(2)]
  have "\<exists>es' n'. net_run 20000 es' n = Some n' \<and> lock (rg_dev (nt_region n')) 1 = None"
  proof (cases "lock (rg_dev (nt_region n)) 1")
    case None
    then show ?thesis by (intro exI [of _ "[]"]) simp
  next
    case (Some se)
    with sessions_follow_connections [OF d r n(2)] show ?thesis by auto
  qed
  with r show ?thesis by blast
qed

end
