(* ===== verification/Central_Store.thy ===== *)
theory Central_Store
  imports Proto
begin

text \<open>
  The store of the central server (\<^verbatim>\<open>central_store.hpp\<close>): for each region the last aggregate that
  it sent, and the list of the last alarms. Every operation holds the store's mutex.
\<close>

section \<open>State\<close>

record region_aggregate =
  agg_version :: u32
  agg_zone_power_mw :: "(u32 \<times> u32) list"
  agg_zone_summary :: "(u32 \<times> zone_device_summary) list"

definition empty_aggregate :: region_aggregate where
  "empty_aggregate = \<lparr>agg_version = 0, agg_zone_power_mw = [], agg_zone_summary = []\<rparr>"

record alarm_record =
  ar_region_id :: u32
  ar_ts_unix :: u32
  ar_device_type :: u8
  ar_zone_id :: u32
  ar_code :: u8
  ar_uri :: string
  ar_text :: string

record central_store =
  regions :: "(u32 \<times> region_aggregate) list"
  alarms :: "alarm_record list"

definition empty_store :: central_store where
  "empty_store = \<lparr>regions = [], alarms = []\<rparr>"

section \<open>Operations\<close>

fun store_powers :: "(u32 \<times> u32) list \<Rightarrow> (u32 \<times> u32) list \<Rightarrow> (u32 \<times> u32) list" where
  "store_powers m [] = m"
| "store_powers m (zp # zps) = store_powers (AList.update (fst zp) (snd zp) m) zps"

fun store_summaries ::
  "(u32 \<times> zone_device_summary) list \<Rightarrow> zone_device_summary list \<Rightarrow> (u32 \<times> zone_device_summary) list"
  where
  "store_summaries m [] = m"
| "store_summaries m (zs # zss) = store_summaries (AList.update (zs_zone_id zs) zs m) zss"

definition upsert_region ::
  "central_store \<Rightarrow> u32 \<Rightarrow> u32 \<Rightarrow> (u32 \<times> u32) list \<Rightarrow> zone_device_summary list \<Rightarrow> central_store"
  where
  "upsert_region s region_id version zone_power_sum zone_device_summary =
     s\<lparr>regions := upd_default empty_aggregate region_id
        (\<lambda>agg. agg\<lparr>agg_version := version,
                  agg_zone_power_mw := store_powers [] zone_power_sum,
                  agg_zone_summary := store_summaries [] zone_device_summary\<rparr>)
        (regions s)\<rparr>"

definition store_snapshot :: "central_store \<Rightarrow> (u32 \<times> region_aggregate) list" where
  "store_snapshot s = regions s"

definition MAX_ALARMS :: nat where
  "MAX_ALARMS = 2000"

definition push_alarm :: "central_store \<Rightarrow> alarm_record \<Rightarrow> central_store" where
  "push_alarm s a =
     (let as = alarms s @ [a]
      in s\<lparr>alarms := (if length as > MAX_ALARMS then drop (length as - MAX_ALARMS) as else as)\<rparr>)"

definition alarms_snapshot :: "central_store \<Rightarrow> alarm_record list" where
  "alarms_snapshot s = alarms s"

section \<open>Lemmas\<close>

lemma store_powers_lookup:
  "map_of (store_powers m zps) z =
     (case map_of (rev zps) z of None \<Rightarrow> map_of m z | Some p \<Rightarrow> Some p)"
  by (induction m zps rule: store_powers.induct)
    (auto simp: map_add_def split: option.splits)

lemma store_powers_distinct [simp]: "distinct (keys m) \<Longrightarrow> distinct (keys (store_powers m zps))"
  by (induction m zps rule: store_powers.induct) simp_all

lemma store_summaries_lookup:
  "map_of (store_summaries m zss) z =
     (case map_of (rev (map (\<lambda>zs. (zs_zone_id zs, zs)) zss)) z of None \<Rightarrow> map_of m z | Some p \<Rightarrow> Some p)"
  by (induction m zss rule: store_summaries.induct)
    (auto simp: map_add_def split: option.splits)

lemma store_summaries_distinct [simp]:
  "distinct (keys m) \<Longrightarrow> distinct (keys (store_summaries m zss))"
  by (induction m zss rule: store_summaries.induct) simp_all

lemma map_of_rev_distinct: "distinct (keys al) \<Longrightarrow> map_of (rev al) = map_of al"
  by (simp add: map_of_inject_set rev_map [symmetric] distinct_rev)

lemma store_powers_map: "distinct (keys zps) \<Longrightarrow> map_of (store_powers [] zps) = map_of zps"
  by (rule ext) (simp add: store_powers_lookup map_of_rev_distinct split: option.splits)

lemma upsert_region_lookup:
  "map_of (regions (upsert_region s rid ver zps zss)) =
     (map_of (regions s))(rid \<mapsto> \<lparr>agg_version = ver, agg_zone_power_mw = store_powers [] zps,
        agg_zone_summary = store_summaries [] zss\<rparr>)"
  by (cases "get_default empty_aggregate (regions s) rid") (simp add: upsert_region_def)

lemma alarms_upsert_region [simp]: "alarms (upsert_region s rid ver zps zss) = alarms s"
  by (simp add: upsert_region_def)

lemma regions_push_alarm [simp]: "regions (push_alarm s a) = regions s"
  by (simp add: push_alarm_def Let_def)

text \<open>The alarm list as the suffix of everything that was pushed.\<close>

definition last_n :: "nat \<Rightarrow> 'a list \<Rightarrow> 'a list" where
  "last_n n xs = drop (length xs - n) xs"

lemma last_n_short [simp]: "length xs \<le> n \<Longrightarrow> last_n n xs = xs"
  by (simp add: last_n_def)

lemma length_last_n: "length (last_n n xs) = min n (length xs)"
  by (simp add: last_n_def)

lemma set_last_n: "set (last_n n xs) \<subseteq> set xs"
  by (simp add: last_n_def set_drop_subset)

lemma last_n_snoc: "last_n n (last_n n xs @ [x]) = last_n n (xs @ [x])"
  by (cases "length xs \<le> n") (auto simp: last_n_def Suc_diff_le not_le)

lemma alarms_push_alarm: "alarms (push_alarm s a) = last_n MAX_ALARMS (alarms s @ [a])"
  by (simp add: push_alarm_def last_n_def Let_def)

section \<open>Well-formed stores\<close>

definition alarm_short :: "alarm_record \<Rightarrow> bool" where
  "alarm_short a \<longleftrightarrow> short_str (ar_uri a) \<and> short_str (ar_text a)"

definition store_ok :: "central_store \<Rightarrow> bool" where
  "store_ok s \<longleftrightarrow>
     distinct (keys (regions s))
     \<and> (\<forall>(rid, agg) \<in> set (regions s).
          distinct (keys (agg_zone_power_mw agg)) \<and> distinct (keys (agg_zone_summary agg)))
     \<and> length (alarms s) \<le> MAX_ALARMS \<and> list_all alarm_short (alarms s)"

lemma store_ok_empty: "store_ok empty_store"
  by (simp add: store_ok_def empty_store_def)

lemma store_ok_push_alarm: "store_ok s \<Longrightarrow> alarm_short a \<Longrightarrow> store_ok (push_alarm s a)"
  using set_last_n [of MAX_ALARMS "alarms s @ [a]"]
  by (auto simp: store_ok_def alarms_push_alarm length_last_n list_all_iff)

lemma store_ok_upsert_region:
  assumes "store_ok s"
  shows "store_ok (upsert_region s rid ver zps zss)"
proof -
  let ?s = "upsert_region s rid ver zps zss"
  have d: "distinct (keys (regions ?s))" using assms by (simp add: store_ok_def upsert_region_def)
  have "distinct (keys (agg_zone_power_mw agg)) \<and> distinct (keys (agg_zone_summary agg))"
    if "(i, agg) \<in> set (regions ?s)" for i agg
  proof -
    from that d have "map_of (regions ?s) i = Some agg" by simp
    then show ?thesis
      using assms by (auto simp: upsert_region_lookup store_ok_def map_of_eq_Some_iff split: if_splits)
  qed
  with assms d show ?thesis by (auto simp: store_ok_def)
qed

section \<open>The bounded log contract\<close>

text \<open>
  A log that keeps its newest \<open>cap\<close> entries; the alarm list of the store provides it. Its client
  lemma gives the contents after any number of pushes.
\<close>

locale bounded_log =
  fixes push :: "'s \<Rightarrow> 'a \<Rightarrow> 's" and entries :: "'s \<Rightarrow> 'a list" and cap :: nat
  assumes entries_push: "entries (push s a) = last_n cap (entries s @ [a])"
begin

lemma entries_fold:
  "entries (fold (\<lambda>a s. push s a) as s) = (if as = [] then entries s else last_n cap (entries s @ as))"
proof (induction as rule: rev_induct)
  case (snoc a as)
  then show ?case
    using last_n_snoc [of cap "entries s @ as" a] by (simp add: entries_push)
qed simp

lemma length_entries: "as \<noteq> [] \<Longrightarrow> length (entries (fold (\<lambda>a s. push s a) as s)) \<le> cap"
  by (simp add: entries_fold length_last_n)

end

interpretation alarm_log: bounded_log push_alarm alarms MAX_ALARMS
  by unfold_locales (rule alarms_push_alarm)

section \<open>Histories of store operations\<close>

datatype store_op =
    Op_region u32 u32 "(u32 \<times> u32) list" "zone_device_summary list"
  | Op_alarm alarm_record

fun store_step :: "store_op \<Rightarrow> central_store \<Rightarrow> central_store" where
  "store_step (Op_region rid ver zps zss) s = upsert_region s rid ver zps zss"
| "store_step (Op_alarm a) s = push_alarm s a"

text \<open>
  The abstract store keeps everything: the list of all alarms, and per region the data of the
  last synchronisation.
\<close>

fun alarms_of :: "store_op list \<Rightarrow> alarm_record list" where
  "alarms_of [] = []"
| "alarms_of (Op_alarm a # ops) = a # alarms_of ops"
| "alarms_of (Op_region _ _ _ _ # ops) = alarms_of ops"

definition aggregate_of ::
  "u32 \<Rightarrow> (u32 \<times> u32) list \<Rightarrow> zone_device_summary list \<Rightarrow> region_aggregate" where
  "aggregate_of ver zps zss = \<lparr>agg_version = ver, agg_zone_power_mw = store_powers [] zps,
     agg_zone_summary = store_summaries [] zss\<rparr>"

fun last_sync :: "u32 \<Rightarrow> store_op list \<Rightarrow> region_aggregate option" where
  "last_sync rid [] = None"
| "last_sync rid (Op_alarm a # ops) = last_sync rid ops"
| "last_sync rid (Op_region i ver zps zss # ops) =
     (case last_sync rid ops of
        Some agg \<Rightarrow> Some agg
      | None \<Rightarrow> if i = rid then Some (aggregate_of ver zps zss) else None)"

lemma regions_fold:
  "map_of (regions (fold store_step ops s)) rid =
     (case last_sync rid ops of None \<Rightarrow> map_of (regions s) rid | Some agg \<Rightarrow> Some agg)"
  by (induction rid ops arbitrary: s rule: last_sync.induct)
    (auto simp: upsert_region_lookup aggregate_of_def split: option.splits)

lemma alarms_fold_pushes:
  "alarms s = alarms s' \<Longrightarrow>
     alarms (fold store_step ops s) = alarms (fold (\<lambda>a s. push_alarm s a) (alarms_of ops) s')"
  by (induction ops arbitrary: s s' rule: alarms_of.induct) (simp_all add: alarms_push_alarm)

lemma alarms_fold:
  "length (alarms s) \<le> MAX_ALARMS
     \<Longrightarrow> alarms (fold store_step ops s) = last_n MAX_ALARMS (alarms s @ alarms_of ops)"
  by (simp add: alarms_fold_pushes [OF refl] alarm_log.entries_fold)

lemma store_ok_fold:
  "store_ok s \<Longrightarrow> list_all alarm_short (alarms_of ops) \<Longrightarrow> store_ok (fold store_step ops s)"
  by (induction ops arbitrary: s rule: alarms_of.induct)
    (simp_all add: store_ok_push_alarm store_ok_upsert_region)

section \<open>Properties\<close>

text \<open>
  C34: The store refines the unbounded history: after any sequence of operations the alarm list is
  the last 2000 alarms in the order in which they came, and each region holds exactly the data of
  its last synchronisation, whatever the version numbers were.
\<close>

theorem store_refines_history:
  "alarms (fold store_step ops empty_store) = last_n MAX_ALARMS (alarms_of ops)
   \<and> map_of (regions (fold store_step ops empty_store)) rid = last_sync rid ops"
  using alarms_fold [of empty_store ops] regions_fold [of ops empty_store rid]
  by (simp add: empty_store_def split: option.splits)

text \<open>
  The store stays well formed: region and zone keys are unique, never more than 2000 alarms
  are kept, and if the pushed alarms have strings that a message can carry, so have the kept ones.
\<close>

theorem store_invariant:
  assumes "list_all alarm_short (alarms_of ops)"
  shows "store_ok (fold store_step ops empty_store)"
  using assms by (simp add: store_ok_fold store_ok_empty)

definition example_alarm :: alarm_record where
  "example_alarm = \<lparr>ar_region_id = 1, ar_ts_unix = 1700000000, ar_device_type = 1, ar_zone_id = 1,
     ar_code = 9, ar_uri = ''sls://lamp-001'', ar_text = ''comm_lost''\<rparr>"

lemma store_invariant_witness:
  "store_ok (fold store_step [Op_region 1 1 [(1, 94000)] [], Op_alarm example_alarm] empty_store)"
  by (rule store_invariant) (simp add: alarm_short_def short_str_def example_alarm_def)

end
