(* ===== verification/Central_Server.thy ===== *)
theory Central_Server
  imports Central_Store Db_Writer Frame
begin

text \<open>
  The sessions of the central server (\<^verbatim>\<open>central_tls_server.hpp\<close>): aggregation, alarms and the
  admin snapshot. A session reads frames with the reader of \<open>Frame\<close>; the message handler takes
  the shared store and returns it with the calls made to the database writer and the frames
  handed to \<^verbatim>\<open>async_send\<close>. \<^verbatim>\<open>now_ms_utc()\<close> is an argument.
\<close>

section \<open>The admin snapshot\<close>

definition summary_or_zero :: "region_aggregate \<Rightarrow> u32 \<Rightarrow> zone_device_summary" where
  "summary_or_zero agg zid =
     (case map_of (agg_zone_summary agg) zid of
        Some zs \<Rightarrow> zs
      | None \<Rightarrow> \<lparr>zs_zone_id = zid, zs_lamp_total = 0, zs_lamp_on = 0, zs_lamp_fault = 0,
          zs_sensor_total = 0, zs_sensor_fault = 0\<rparr>)"

fun put_snapshot_zones :: "region_aggregate \<Rightarrow> bytes \<Rightarrow> (u32 \<times> u32) list \<Rightarrow> bytes" where
  "put_snapshot_zones agg out [] = out"
| "put_snapshot_zones agg out ((zid, pwr) # zones) =
     (let out = put_u32 out zid;
          out = put_u32 out pwr;
          zs = summary_or_zero agg zid;
          out = put_u16 out (zs_lamp_total zs);
          out = put_u16 out (zs_lamp_on zs);
          out = put_u16 out (zs_lamp_fault zs);
          out = put_u16 out (zs_sensor_total zs);
          out = put_u16 out (zs_sensor_fault zs)
      in put_snapshot_zones agg out zones)"

fun put_snapshot_regions :: "bytes \<Rightarrow> (u32 \<times> region_aggregate) list \<Rightarrow> bytes" where
  "put_snapshot_regions out [] = out"
| "put_snapshot_regions out ((rid, agg) # snap) =
     (let out = put_u32 out rid;
          out = put_u32 out (agg_version agg);
          out = put_u16 out (word_of_nat (length (agg_zone_power_mw agg)));
          out = put_snapshot_zones agg out (agg_zone_power_mw agg)
      in put_snapshot_regions out snap)"

fun put_snapshot_alarms :: "bytes \<Rightarrow> alarm_record list \<Rightarrow> bytes result" where
  "put_snapshot_alarms out [] = Inr out"
| "put_snapshot_alarms out (a # as) =
     (let out = put_u32 out (ar_region_id a);
          out = put_u32 out (ar_ts_unix a);
          out = put_u8 out (ar_device_type a);
          out = put_u32 out (ar_zone_id a);
          out = put_u8 out (ar_code a)
      in bind_result (put_str out (ar_uri a)) (\<lambda>out.
         bind_result (put_str out (ar_text a)) (\<lambda>out.
         put_snapshot_alarms out as)))"

definition encode_admin_snapshot :: "central_store \<Rightarrow> bytes result" where
  "encode_admin_snapshot store =
     (let snap = store_snapshot store;
          out = put_u16 [] (word_of_nat (length snap));
          out = put_snapshot_regions out snap;
          als = alarms_snapshot store;
          out = put_u16 out (word_of_nat (length als))
      in put_snapshot_alarms out als)"

section \<open>The message handler\<close>

record central_result =
  cr_store :: central_store
  cr_db :: "db_call list"
  cr_sent :: "(msg_type \<times> bytes) list"

definition no_effect :: "central_store \<Rightarrow> central_result" where
  "no_effect store = \<lparr>cr_store = store, cr_db = [], cr_sent = []\<rparr>"

definition on_region_sync :: "int \<Rightarrow> central_store \<Rightarrow> region_sync_up \<Rightarrow> central_result" where
  "on_region_sync now store up =
     \<lparr>cr_store = upsert_region store (up_region_id up) (up_version up) (up_zone_power_sum up)
        (up_zone_device_summary up),
      cr_db = [log_region_sync now (up_region_id up) (up_version up) (up_zone_power_sum up)],
      cr_sent = [(REGION_SYNC_ACK, encode_region_sync_ack
        \<lparr>sack_region_id = up_region_id up, sack_version = up_version up, sack_ok = 1\<rparr>)]\<rparr>"

definition record_of :: "alarm_up \<Rightarrow> alarm_record" where
  "record_of up =
     \<lparr>ar_region_id = al_region_id up, ar_ts_unix = al_ts_unix up,
      ar_device_type = al_device_type up, ar_zone_id = al_zone_id up, ar_code = al_code up,
      ar_uri = al_uri up, ar_text = al_text up\<rparr>"

definition on_alarm_up :: "central_store \<Rightarrow> alarm_up \<Rightarrow> central_result" where
  "on_alarm_up store up =
     (let ar = record_of up
      in \<lparr>cr_store = push_alarm store ar,
          cr_db = [log_alarm (ar_region_id ar) (ar_ts_unix ar) (ar_device_type ar) (ar_zone_id ar)
            (ar_code ar) (ar_uri ar) (ar_text ar)],
          cr_sent = [(ALARM_ACK, encode_alarm_ack
            \<lparr>aack_region_id = al_region_id up, aack_ts_unix = al_ts_unix up, aack_ok = 1\<rparr>)]\<rparr>)"

definition on_snapshot_req :: "central_store \<Rightarrow> central_result result" where
  "on_snapshot_req store =
     bind_result (encode_admin_snapshot store) (\<lambda>payload.
     Inr ((no_effect store)\<lparr>cr_sent := [(ADMIN_SNAPSHOT_ACK, payload)]\<rparr>))"

text \<open>The \<^verbatim>\<open>catch\<close> of the handler: a decode error is printed and has no other effect.\<close>

definition catch_decode :: "central_store \<Rightarrow> central_result result \<Rightarrow> central_result" where
  "catch_decode store r = (case r of Inl e \<Rightarrow> no_effect store | Inr res \<Rightarrow> res)"

definition central_on_message :: "int \<Rightarrow> central_store \<Rightarrow> bytes \<Rightarrow> central_result" where
  "central_on_message now store body =
     (case body of
        [] \<Rightarrow> no_effect store
      | t # p \<Rightarrow> catch_decode store
          (case msg_type_of t of
             Some REGION_SYNC_UP \<Rightarrow>
               bind_result (decode_region_sync_up p) (\<lambda>up. Inr (on_region_sync now store up))
           | Some ALARM_UP \<Rightarrow>
               bind_result (decode_alarm_up p) (\<lambda>up. Inr (on_alarm_up store up))
           | Some ADMIN_SNAPSHOT_REQ \<Rightarrow> on_snapshot_req store
           | _ \<Rightarrow> Inr (no_effect store)))"

section \<open>A session\<close>

text \<open>
  The whole session over the bytes its peer sends: header, body, handler, and again, until the
  stream fails or a length is refused. \<open>clock n\<close> is the time at which the \<open>n\<close>-th message is
  handled. The result carries the writer calls and the sent frames in order, and whether the end
  of the stream (rather than a refused length) ended the session.
\<close>

fun handle_bodies :: "(nat \<Rightarrow> int) \<Rightarrow> nat \<Rightarrow> central_store \<Rightarrow> bytes list \<Rightarrow> central_result" where
  "handle_bodies clock n store [] = no_effect store"
| "handle_bodies clock n store (b # bs) =
     (let r = central_on_message (clock n) store b;
          r' = handle_bodies clock (Suc n) (cr_store r) bs
      in r'\<lparr>cr_db := cr_db r @ cr_db r', cr_sent := cr_sent r @ cr_sent r'\<rparr>)"

definition central_session :: "(nat \<Rightarrow> int) \<Rightarrow> central_store \<Rightarrow> bytes \<Rightarrow> central_result \<times> bool" where
  "central_session clock store stream =
     (let (bodies, at_end) = read_loop stream in (handle_bodies clock 0 store bodies, at_end))"

section \<open>The handler as store operations\<close>

text \<open>Which operation of the store a message performs: at most one, and none if it does not decode.\<close>

definition store_ops :: "bytes \<Rightarrow> store_op list" where
  "store_ops body =
     (case body of
        [] \<Rightarrow> []
      | t # p \<Rightarrow>
          (case msg_type_of t of
             Some REGION_SYNC_UP \<Rightarrow>
               (case decode_region_sync_up p of
                  Inr up \<Rightarrow> [Op_region (up_region_id up) (up_version up) (up_zone_power_sum up)
                    (up_zone_device_summary up)]
                | Inl _ \<Rightarrow> [])
           | Some ALARM_UP \<Rightarrow>
               (case decode_alarm_up p of Inr up \<Rightarrow> [Op_alarm (record_of up)] | Inl _ \<Rightarrow> [])
           | _ \<Rightarrow> []))"

lemma no_effect_simps [simp]:
  "cr_store (no_effect s) = s" "cr_db (no_effect s) = []" "cr_sent (no_effect s) = []"
  by (simp_all add: no_effect_def)

lemma catch_decode_simps [simp]:
  "catch_decode s (Inl e) = no_effect s" "catch_decode s (Inr r) = r"
  by (simp_all add: catch_decode_def)

lemma store_of_snapshot [simp]: "cr_store (catch_decode s (on_snapshot_req s)) = s"
  by (cases "encode_admin_snapshot s") (simp_all add: on_snapshot_req_def)

lemma store_of_message: "cr_store (central_on_message now s body) = fold store_step (store_ops body) s"
  unfolding central_on_message_def store_ops_def
  by (cases body; simp split: option.splits msg_type.splits sum.splits)
    (auto simp: on_region_sync_def on_alarm_up_def Let_def)

lemma alarms_of_append: "alarms_of (xs @ ys) = alarms_of xs @ alarms_of ys"
  by (induction xs rule: alarms_of.induct) simp_all

lemma alarm_short_record:
  "decode_alarm_up p = Inr up \<Longrightarrow> alarm_short (record_of up)"
  by (auto simp: alarm_up.decode_eq alarm_up.run_iff alarm_short_def record_of_def)

lemma store_ops_short: "list_all alarm_short (alarms_of (store_ops body))"
  unfolding store_ops_def
  by (cases body; simp split: option.splits msg_type.splits sum.splits add: alarm_short_record)

lemma store_ok_message: "store_ok s \<Longrightarrow> store_ok (cr_store (central_on_message now s body))"
  by (simp add: store_of_message store_ok_fold store_ops_short)

section \<open>The snapshot layout\<close>

definition enc_snapshot_zone :: "region_aggregate \<Rightarrow> u32 \<times> u32 \<Rightarrow> bytes" where
  "enc_snapshot_zone agg zp =
     (let zs = summary_or_zero agg (fst zp)
      in enc_u32 (fst zp) @ enc_u32 (snd zp) @ enc_u16 (zs_lamp_total zs) @ enc_u16 (zs_lamp_on zs)
         @ enc_u16 (zs_lamp_fault zs) @ enc_u16 (zs_sensor_total zs) @ enc_u16 (zs_sensor_fault zs))"

definition enc_snapshot_region :: "u32 \<times> region_aggregate \<Rightarrow> bytes" where
  "enc_snapshot_region ra =
     enc_u32 (fst ra) @ enc_u32 (agg_version (snd ra))
     @ enc_u16 (word_of_nat (length (agg_zone_power_mw (snd ra))))
     @ concat (map (enc_snapshot_zone (snd ra)) (agg_zone_power_mw (snd ra)))"

definition enc_snapshot_alarm :: "alarm_record \<Rightarrow> bytes" where
  "enc_snapshot_alarm a =
     enc_u32 (ar_region_id a) @ enc_u32 (ar_ts_unix a) @ enc_u8 (ar_device_type a)
     @ enc_u32 (ar_zone_id a) @ enc_u8 (ar_code a) @ enc_str (ar_uri a) @ enc_str (ar_text a)"

definition snapshot_layout :: "central_store \<Rightarrow> bytes" where
  "snapshot_layout s =
     enc_u16 (word_of_nat (length (regions s))) @ concat (map enc_snapshot_region (regions s))
     @ enc_u16 (word_of_nat (length (alarms s))) @ concat (map enc_snapshot_alarm (alarms s))"

lemma put_snapshot_zones_eq:
  "put_snapshot_zones agg out zps = out @ concat (map (enc_snapshot_zone agg) zps)"
  by (induction agg out zps rule: put_snapshot_zones.induct)
    (simp_all add: put Let_def enc_snapshot_zone_def)

lemma put_snapshot_regions_eq:
  "put_snapshot_regions out snap = out @ concat (map enc_snapshot_region snap)"
  by (induction out snap rule: put_snapshot_regions.induct)
    (simp_all add: put Let_def enc_snapshot_region_def put_snapshot_zones_eq)

lemma put_snapshot_alarms_eq:
  "put_snapshot_alarms out as =
     (if list_all alarm_short as then Inr (out @ concat (map enc_snapshot_alarm as))
      else Inl String_too_long)"
  by (induction as arbitrary: out)
    (simp_all add: put Let_def enc_snapshot_alarm_def alarm_short_def)

lemma encode_admin_snapshot_eq:
  "encode_admin_snapshot s =
     (if list_all alarm_short (alarms s) then Inr (snapshot_layout s) else Inl String_too_long)"
  by (simp add: encode_admin_snapshot_def store_snapshot_def alarms_snapshot_def Let_def put
      put_snapshot_regions_eq put_snapshot_alarms_eq snapshot_layout_def)

section \<open>Reachable stores\<close>

text \<open>
  The store is shared by all sessions. Each handler runs at most one operation that changes it, under
  the mutex, so for the store an interleaving of sessions is a sequence of handled messages, with any
  bodies whatever; \<open>Central_Sessions\<close> proves it of overlapping handlers.
\<close>

inductive central_reachable :: "central_store \<Rightarrow> bool" where
  boot: "central_reachable empty_store"
| message: "central_reachable s \<Longrightarrow> central_reachable (cr_store (central_on_message now s body))"

lemma central_reachable_ok: "central_reachable s \<Longrightarrow> store_ok s"
  by (induction rule: central_reachable.induct) (simp_all add: store_ok_empty store_ok_message)

lemma on_snapshot_req_eq:
  "store_ok s \<Longrightarrow> catch_decode s (on_snapshot_req s)
     = (no_effect s)\<lparr>cr_sent := [(ADMIN_SNAPSHOT_ACK, snapshot_layout s)]\<rparr>"
  by (simp add: on_snapshot_req_def encode_admin_snapshot_eq store_ok_def)

lemma central_on_message_simps:
  "central_on_message now s [] = no_effect s"
  "central_on_message now s (body_of REGION_SYNC_UP p) = catch_decode s
     (bind_result (decode_region_sync_up p) (\<lambda>up. Inr (on_region_sync now s up)))"
  "central_on_message now s (body_of ALARM_UP p) = catch_decode s
     (bind_result (decode_alarm_up p) (\<lambda>up. Inr (on_alarm_up s up)))"
  "central_on_message now s (body_of ADMIN_SNAPSHOT_REQ p) = catch_decode s (on_snapshot_req s)"
  unfolding central_on_message_def body_of_def list.case msg_type_of_code by simp_all

lemma central_ignores:
  "t \<notin> {msg_code REGION_SYNC_UP, msg_code ALARM_UP, msg_code ADMIN_SNAPSHOT_REQ}
     \<Longrightarrow> central_on_message now s (t # p) = no_effect s"
  unfolding central_on_message_def
  by (auto simp: msg_type_of_eq_Some split: option.splits msg_type.splits)

lemma handle_bodies_append:
  "handle_bodies clock n s (xs @ ys) =
     (let r = handle_bodies clock n s xs; r' = handle_bodies clock (n + length xs) (cr_store r) ys
      in r'\<lparr>cr_db := cr_db r @ cr_db r', cr_sent := cr_sent r @ cr_sent r'\<rparr>)"
  by (induction clock n s xs rule: handle_bodies.induct) (simp_all add: Let_def)

section \<open>Properties\<close>

text \<open>
  Whatever messages the peers sent before, a snapshot request is always answered: the encoder
  throws on no reachable store, because every string in an alarm came through a 16-bit length.
\<close>

theorem snapshot_always_answered:
  assumes "central_reachable s"
  shows "central_on_message now s (body_of ADMIN_SNAPSHOT_REQ p)
    = \<lparr>cr_store = s, cr_db = [], cr_sent = [(ADMIN_SNAPSHOT_ACK, snapshot_layout s)]\<rparr>"
  using on_snapshot_req_eq [OF central_reachable_ok [OF assms]]
  by (simp add: central_on_message_simps no_effect_def)

lemma snapshot_always_answered_witness:
  "cr_sent (central_on_message 0 empty_store (body_of ADMIN_SNAPSHOT_REQ []))
     = [(ADMIN_SNAPSHOT_ACK, [0, 0, 0, 0])]"
  unfolding snapshot_always_answered [OF boot]
  by (simp add: snapshot_layout_def empty_store_def enc_u16_def put_u16_def)

text \<open>
  A message that a peer encoded has its full effect whatever bytes follow it: the region's
  aggregate is replaced, logged and acknowledged with its region and version; the alarm is
  stored, logged and acknowledged with its region and time.
\<close>

theorem valid_messages_processed:
  assumes "counts_fit up" "encode_alarm_up a = Inr pa"
  shows "central_on_message now s (body_of REGION_SYNC_UP (encode_region_sync_up up @ junk))
      = on_region_sync now s up
    \<and> central_on_message now s (body_of ALARM_UP (pa @ junk)) = on_alarm_up s a"
  by (simp add: central_on_message_simps decode_encode_region_sync_up [OF assms(1)]
      alarm_up.decode_encode [OF assms(2)])

definition example_alarm_up :: alarm_up where
  "example_alarm_up = \<lparr>al_region_id = 1, al_ts_unix = 1700000000, al_device_type = 1,
     al_zone_id = 1, al_code = 9, al_uri = ''u'', al_text = ''t''\<rparr>"

lemma encode_example_alarm: "encode_alarm_up example_alarm_up = Inr (enc_alarm_up example_alarm_up)"
  by (simp add: alarm_up.encode_eq short_str_def example_alarm_up_def)

lemma valid_messages_processed_witness:
  "central_on_message 3 empty_store (body_of ALARM_UP (enc_alarm_up example_alarm_up @ [9]))
     = on_alarm_up empty_store example_alarm_up"
proof -
  have "counts_fit example_sync" by (simp add: counts_fit_def example_sync_def)
  from valid_messages_processed [OF this encode_example_alarm] show ?thesis by blast
qed

text \<open>
  An alarm message that is cut short, and a message of a type that the central server does
  not handle, have no effect: nothing is stored, logged or sent.
\<close>

theorem broken_messages_ignored:
  assumes "encode_alarm_up a = Inr pa" "n < length pa"
    and "t \<notin> {msg_code REGION_SYNC_UP, msg_code ALARM_UP, msg_code ADMIN_SNAPSHOT_REQ}"
  shows "central_on_message now s (body_of ALARM_UP (take n pa)) = no_effect s
    \<and> central_on_message now s (t # p) = no_effect s"
  using alarm_up.decode_truncated [OF assms(1,2)] central_ignores [OF assms(3)]
  by (auto simp: central_on_message_simps)

lemma broken_messages_ignored_witness:
  "central_on_message 3 empty_store (body_of ALARM_UP (take 10 (enc_alarm_up example_alarm_up)))
     = no_effect empty_store
   \<and> central_on_message 3 empty_store [99] = no_effect empty_store"
proof -
  have "10 < length (enc_alarm_up example_alarm_up)" by (simp add: enc_alarm_up_def)
  from broken_messages_ignored [OF encode_example_alarm this, of 99] show ?thesis by simp
qed

text \<open>
  A session handles the frames of its peer exactly once, in order, up to the first frame
  whose length is out of range; that frame ends the session and nothing after it is looked at.
\<close>

theorem session_handles_frames:
  assumes "\<forall>(t, p) \<in> set ms. length p < max_body"
    and "max_body \<le> length big" "length big < 2 ^ 32 - 1"
  shows "central_session clock s (concat (map (\<lambda>(t, p). write_frame t p) ms))
      = (handle_bodies clock 0 s (map (\<lambda>(t, p). body_of t p) ms), True)
    \<and> central_session clock s
        (concat (map (\<lambda>(t, p). write_frame t p) ms) @ write_frame t big @ later)
      = (handle_bodies clock 0 s (map (\<lambda>(t, p). body_of t p) ms), False)"
  using read_loop_frames [OF assms(1), of "[]"]
    read_loop_frames [OF assms(1), of "write_frame t big @ later"]
    read_loop_oversize [OF assms(2,3), of t later]
  by (simp add: central_session_def)

lemma session_handles_frames_witness:
  "fst (central_session (\<lambda>_. 0) empty_store (write_frame ADMIN_SNAPSHOT_REQ []))
     = handle_bodies (\<lambda>_. 0) 0 empty_store [body_of ADMIN_SNAPSHOT_REQ []]"
proof -
  have "\<forall>(t, p) \<in> set [(ADMIN_SNAPSHOT_REQ, [])]. length p < max_body"
    by (simp add: max_body_def)
  from session_handles_frames [OF this, of "replicate max_body 0" "\<lambda>_. 0" empty_store]
  show ?thesis by (simp add: max_body_def)
qed

end
