(* ===== verification/Central_Sessions.thy ===== *)
theory Central_Sessions
  imports Central_Server "HOL-Library.Sublist"
begin

text \<open>
  All sessions of the central server at work on one store (\<^verbatim>\<open>CentralSession\<close> and
  \<^verbatim>\<open>CentralTlsServer::do_accept\<close> in \<^verbatim>\<open>central_tls_server.hpp\<close>). The sessions run on several
  threads. A session reads one message at a time, and its handler returns before it reads the next,
  but the handlers of different sessions overlap: each takes the mutex of the store and that of the
  database separately. A step is therefore one operation of a handler, beside an accepted connection,
  bytes that arrive, the completion of \<^verbatim>\<open>read_body\<close>, the completion of a write, or the loss of a
  connection.
\<close>

section \<open>State\<close>

text \<open>What a handler does, operation by operation, in the order of the code.\<close>

datatype central_op =
    Log_region_sync region_sync_up
  | Upsert_region region_sync_up
  | Push_alarm alarm_record
  | Log_alarm alarm_record
  | Copy_regions
  | Copy_alarms
  | Send_reply msg_type bytes
  | Send_snapshot

definition handler_ops :: "bytes \<Rightarrow> central_op list" where
  "handler_ops body =
     (case body of
        [] \<Rightarrow> []
      | t # p \<Rightarrow>
          (case msg_type_of t of
             Some REGION_SYNC_UP \<Rightarrow>
               (case decode_region_sync_up p of
                  Inl e \<Rightarrow> []
                | Inr up \<Rightarrow>
                    [Log_region_sync up, Upsert_region up,
                     Send_reply REGION_SYNC_ACK (encode_region_sync_ack
                       \<lparr>sack_region_id = up_region_id up, sack_version = up_version up, sack_ok = 1\<rparr>)])
           | Some ALARM_UP \<Rightarrow>
               (case decode_alarm_up p of
                  Inl e \<Rightarrow> []
                | Inr up \<Rightarrow>
                    [Push_alarm (record_of up), Log_alarm (record_of up),
                     Send_reply ALARM_ACK (encode_alarm_ack
                       \<lparr>aack_region_id = al_region_id up, aack_ts_unix = al_ts_unix up, aack_ok = 1\<rparr>)])
           | Some ADMIN_SNAPSHOT_REQ \<Rightarrow> [Copy_regions, Copy_alarms, Send_snapshot]
           | _ \<Rightarrow> []))"

text \<open>
  \<open>cp_stream\<close>: the bytes that arrived and were not read. \<open>cp_reading\<close>: the read chain goes on.
  \<open>cp_todo\<close>: what the handler under way has still to do. \<open>cp_copy\<close>: the locals of
  \<^verbatim>\<open>encode_admin_snapshot\<close>. \<open>cp_in_flight\<close>: the frames whose \<^verbatim>\<open>async_write_frame\<close> has not completed,
  as \<^verbatim>\<open>async_send\<close> keeps no queue. Ghost fields: \<open>cp_received\<close>, all bytes that arrived;
  \<open>cp_overlapped\<close>, that a write was started while another one was in flight, which asio forbids on one
  stream; \<open>cn_log\<close>, the messages whose handler was entered, with their session; \<open>cn_trace\<close>, the
  operations done, with session and time.
\<close>

record central_peer =
  cp_stream :: bytes
  cp_reading :: bool
  cp_todo :: "central_op list"
  cp_copy :: central_store
  cp_in_flight :: "(msg_type \<times> bytes) list"
  cp_received :: bytes
  cp_overlapped :: bool

record central =
  cn_store :: central_store
  cn_db :: "db_call list"
  cn_peers :: "central_peer list"
  cn_log :: "(nat \<times> bytes) list"
  cn_trace :: "(nat \<times> int \<times> central_op) list"

definition new_peer :: central_peer where
  "new_peer = \<lparr>cp_stream = [], cp_reading = True, cp_todo = [], cp_copy = empty_store,
     cp_in_flight = [], cp_received = [], cp_overlapped = False\<rparr>"

definition new_central :: central where
  "new_central = \<lparr>cn_store = empty_store, cn_db = [], cn_peers = [], cn_log = [], cn_trace = []\<rparr>"

section \<open>Steps\<close>

definition async_send :: "msg_type \<times> bytes \<Rightarrow> central_peer \<Rightarrow> central_peer" where
  "async_send m p =
     p\<lparr>cp_in_flight := cp_in_flight p @ [m], cp_overlapped := (cp_overlapped p \<or> cp_in_flight p \<noteq> [])\<rparr>"

text \<open>
  The effect of one operation on the store, on the database (with the time that \<^verbatim>\<open>now_ms_utc()\<close>
  gives), and on the session. An exception of the encoder ends the handler at the \<^verbatim>\<open>catch\<close>: nothing is
  sent.
\<close>

fun op_store :: "central_op \<Rightarrow> store_op list" where
  "op_store (Upsert_region up) =
     [Op_region (up_region_id up) (up_version up) (up_zone_power_sum up) (up_zone_device_summary up)]"
| "op_store (Push_alarm ar) = [Op_alarm ar]"
| "op_store _ = []"

fun op_db :: "int \<Rightarrow> central_op \<Rightarrow> db_call list" where
  "op_db now (Log_region_sync up) =
     [log_region_sync now (up_region_id up) (up_version up) (up_zone_power_sum up)]"
| "op_db now (Log_alarm ar) =
     [log_alarm (ar_region_id ar) (ar_ts_unix ar) (ar_device_type ar) (ar_zone_id ar) (ar_code ar)
        (ar_uri ar) (ar_text ar)]"
| "op_db now _ = []"

fun op_peer :: "central_store \<Rightarrow> central_op \<Rightarrow> central_peer \<Rightarrow> central_peer" where
  "op_peer s Copy_regions p = p\<lparr>cp_copy := (cp_copy p)\<lparr>regions := store_snapshot s\<rparr>\<rparr>"
| "op_peer s Copy_alarms p = p\<lparr>cp_copy := (cp_copy p)\<lparr>alarms := alarms_snapshot s\<rparr>\<rparr>"
| "op_peer s (Send_reply t payload) p = async_send (t, payload) p"
| "op_peer s Send_snapshot p =
     (case encode_admin_snapshot (cp_copy p) of
        Inl e \<Rightarrow> p
      | Inr payload \<Rightarrow> async_send (ADMIN_SNAPSHOT_ACK, payload) p)"
| "op_peer s _ p = p"

datatype central_event =
    Accepted
  | Arrived nat bytes
  | Body_read nat
  | Handler_op nat int
  | Written nat
  | Connection_lost nat

definition peer_step :: "nat \<Rightarrow> (central_peer \<Rightarrow> central_peer) \<Rightarrow> central \<Rightarrow> central" where
  "peer_step i f c = c\<lparr>cn_peers := (cn_peers c)[i := f (cn_peers c ! i)]\<rparr>"

definition enter_handler :: "nat \<Rightarrow> bytes \<Rightarrow> bytes \<Rightarrow> central \<Rightarrow> central" where
  "enter_handler i body rest c =
     (peer_step i (\<lambda>p. p\<lparr>cp_stream := rest, cp_todo := handler_ops body\<rparr>) c)\<lparr>cn_log := cn_log c @ [(i, body)]\<rparr>"

definition perform_op :: "nat \<Rightarrow> int \<Rightarrow> central_op \<Rightarrow> central_op list \<Rightarrow> central \<Rightarrow> central" where
  "perform_op i now op ops c =
     (peer_step i (\<lambda>p. op_peer (cn_store c) op (p\<lparr>cp_todo := ops\<rparr>)) c)
       \<lparr>cn_store := fold store_step (op_store op) (cn_store c), cn_db := cn_db c @ op_db now op,
        cn_trace := cn_trace c @ [(i, now, op)]\<rparr>"

fun central_step :: "central_event \<Rightarrow> central \<Rightarrow> central" where
  "central_step Accepted c = c\<lparr>cn_peers := cn_peers c @ [new_peer]\<rparr>"
| "central_step (Arrived i bs) c =
     peer_step i (\<lambda>p. p\<lparr>cp_stream := cp_stream p @ bs, cp_received := cp_received p @ bs\<rparr>) c"
| "central_step (Body_read i) c =
     (if i < length (cn_peers c) \<and> cp_reading (cn_peers c ! i) \<and> cp_todo (cn_peers c ! i) = [] then
        case read_header (cp_stream (cn_peers c ! i)) of
          Read_error \<Rightarrow> c
        | Bad_length \<Rightarrow> peer_step i (\<lambda>p. p\<lparr>cp_reading := False\<rparr>) c
        | Got_body body rest \<Rightarrow> enter_handler i body rest c
      else c)"
| "central_step (Handler_op i now) c =
     (if i < length (cn_peers c) then
        case cp_todo (cn_peers c ! i) of
          [] \<Rightarrow> c
        | op # ops \<Rightarrow> perform_op i now op ops c
      else c)"
| "central_step (Written i) c = peer_step i (\<lambda>p. p\<lparr>cp_in_flight := tl (cp_in_flight p)\<rparr>) c"
| "central_step (Connection_lost i) c = peer_step i (\<lambda>p. p\<lparr>cp_reading := False\<rparr>) c"

text \<open>
  The bodies whose handler session \<open>i\<close> entered and the operations it did. A list of messages with
  session and time is also a sequence of calls of the whole handler.
\<close>

definition handled_by :: "nat \<Rightarrow> central \<Rightarrow> bytes list" where
  "handled_by i c = map snd (filter (\<lambda>e. fst e = i) (cn_log c))"

definition ops_by :: "nat \<Rightarrow> central \<Rightarrow> central_op list" where
  "ops_by i c = map (snd \<circ> snd) (filter (\<lambda>e. fst e = i) (cn_trace c))"

definition bodies_of :: "nat \<Rightarrow> (nat \<times> int \<times> bytes) list \<Rightarrow> bytes list" where
  "bodies_of i ms = map (snd \<circ> snd) (filter (\<lambda>e. fst e = i) ms)"

fun replay :: "(nat \<times> int \<times> bytes) list \<Rightarrow> central_store \<Rightarrow> central_result" where
  "replay [] s = no_effect s"
| "replay ((i, now, b) # es) s =
     (let r = central_on_message now s b; r' = replay es (cr_store r)
      in r'\<lparr>cr_db := cr_db r @ cr_db r', cr_sent := cr_sent r @ cr_sent r'\<rparr>)"

section \<open>The operations of a handler\<close>

lemma handler_cases:
  obtains "handler_ops b = []" "\<And>now s. central_on_message now s b = no_effect s"
  | up where "handler_ops b = [Log_region_sync up, Upsert_region up, Send_reply REGION_SYNC_ACK
      (encode_region_sync_ack \<lparr>sack_region_id = up_region_id up, sack_version = up_version up, sack_ok = 1\<rparr>)]"
      "\<And>now s. central_on_message now s b = on_region_sync now s up"
  | up where "handler_ops b = [Push_alarm (record_of up), Log_alarm (record_of up), Send_reply ALARM_ACK
      (encode_alarm_ack \<lparr>aack_region_id = al_region_id up, aack_ts_unix = al_ts_unix up, aack_ok = 1\<rparr>)]"
      "\<And>now s. central_on_message now s b = on_alarm_up s up" "alarm_short (record_of up)"
  | "handler_ops b = [Copy_regions, Copy_alarms, Send_snapshot]"
      "\<And>now s. central_on_message now s b = catch_decode s (on_snapshot_req s)"
proof -
  show thesis
  proof (cases b)
    case Nil
    then show ?thesis by (simp add: that handler_ops_def central_on_message_def)
  next
    case (Cons t p)
    show ?thesis
    proof (cases "msg_type_of t")
      case None
      then show ?thesis by (simp add: that handler_ops_def central_on_message_def Cons)
    next
      case (Some m)
      show ?thesis
      proof (cases m)
        case REGION_SYNC_UP
        then show ?thesis
          using that(1) that(2) by (cases "decode_region_sync_up p") (simp_all add: handler_ops_def Cons Some central_on_message_def)
      next
        case ALARM_UP
        then show ?thesis
          using that(1) that(3) by (cases "decode_alarm_up p")
            (simp_all add: handler_ops_def Cons Some central_on_message_def alarm_short_record)
      next
        case ADMIN_SNAPSHOT_REQ
        then show ?thesis using that(4) by (simp add: handler_ops_def Cons Some central_on_message_def)
      qed (simp_all add: that(1) handler_ops_def central_on_message_def Cons Some)
    qed
  qed
qed

lemma handler_store: "cr_store (central_on_message now s b) = fold store_step (concat (map op_store (handler_ops b))) s"
  by (cases b rule: handler_cases) (simp_all add: on_region_sync_def on_alarm_up_def Let_def)

lemma handler_db: "cr_db (central_on_message now s b) = concat (map (op_db now) (handler_ops b))"
  by (cases b rule: handler_cases)
    (auto simp: on_region_sync_def on_alarm_up_def on_snapshot_req_def catch_decode_def Let_def
      bind_result_def split: sum.splits)

definition is_send :: "central_op \<Rightarrow> bool" where
  "is_send op \<longleftrightarrow> (case op of Send_reply t p \<Rightarrow> True | Send_snapshot \<Rightarrow> True | _ \<Rightarrow> False)"

definition stores :: "central_op \<Rightarrow> bool" where
  "stores op \<longleftrightarrow> op_store op \<noteq> []"

definition logs :: "central_op \<Rightarrow> bool" where
  "logs op \<longleftrightarrow> op_db 0 op \<noteq> []"

lemma at_most_one:
  "length (filter is_send (handler_ops b)) \<le> 1" "length (filter stores (handler_ops b)) \<le> 1"
  "length (filter logs (handler_ops b)) \<le> 1"
  by (cases b rule: handler_cases; simp add: is_send_def stores_def logs_def)+

lemma not_logs: "\<not> logs op \<Longrightarrow> op_db now op = []"
  by (cases op) (simp_all add: logs_def)

lemma one_reply: "length (cr_sent (central_on_message now s b)) \<le> 1"
  by (cases b rule: handler_cases)
    (auto simp: on_region_sync_def on_alarm_up_def on_snapshot_req_def catch_decode_def Let_def
      bind_result_def split: sum.splits)

lemma replay_store: "cr_store (replay es s) = fold store_step (concat (map (\<lambda>(i, now, b). concat (map op_store (handler_ops b))) es)) s"
  by (induction es s rule: replay.induct) (simp_all add: Let_def handler_store)

lemma replay_db: "cr_db (replay es s) = concat (map (\<lambda>(i, now, b). concat (map (op_db now) (handler_ops b))) es)"
  by (induction es s rule: replay.induct) (simp_all add: Let_def handler_db)

lemma replay_reachable: "central_reachable s \<Longrightarrow> central_reachable (cr_store (replay es s))"
  by (induction es s rule: replay.induct) (simp_all add: Let_def central_reachable.message)

section \<open>Every session on its own\<close>

lemma async_send_simps [simp]:
  "cp_stream (async_send m p) = cp_stream p" "cp_reading (async_send m p) = cp_reading p"
  "cp_received (async_send m p) = cp_received p" "cp_todo (async_send m p) = cp_todo p"
  "cp_copy (async_send m p) = cp_copy p" "cp_in_flight (async_send m p) = cp_in_flight p @ [m]"
  "cp_overlapped (async_send m p) \<longleftrightarrow> cp_overlapped p \<or> cp_in_flight p \<noteq> []"
  by (simp_all add: async_send_def)

lemma op_peer_simps [simp]:
  "cp_stream (op_peer s op p) = cp_stream p" "cp_reading (op_peer s op p) = cp_reading p"
  "cp_received (op_peer s op p) = cp_received p" "cp_todo (op_peer s op p) = cp_todo p"
  by (cases op; simp split: sum.split)+

lemma op_peer_sends:
  "length (cp_in_flight (op_peer s op p)) \<le> length (cp_in_flight p) + (if is_send op then 1 else 0)"
  "cp_overlapped (op_peer s op p) \<Longrightarrow> cp_overlapped p \<or> cp_in_flight p \<noteq> [] \<and> is_send op"
  by (cases op; auto simp: is_send_def split: sum.splits)+

text \<open>
  What holds of a session that entered the handler of \<open>bodies\<close> and did the operations \<open>ops\<close>.
\<close>

definition peer_ok :: "bytes list \<Rightarrow> central_op list \<Rightarrow> central_peer \<Rightarrow> bool" where
  "peer_ok bodies ops p \<longleftrightarrow>
     (\<forall>xs. if cp_reading p
        then fst (read_loop (cp_received p @ xs)) = bodies @ fst (read_loop (cp_stream p @ xs))
        else \<exists>later. fst (read_loop (cp_received p @ xs)) = bodies @ later)
     \<and> ops @ cp_todo p = concat (map handler_ops bodies)
     \<and> (cp_todo p \<noteq> [] \<longrightarrow> bodies \<noteq> [] \<and> suffix (cp_todo p) (handler_ops (last bodies)))
     \<and> length (cp_in_flight p) \<le> length (filter is_send ops)
     \<and> (cp_overlapped p \<longrightarrow> 2 \<le> length (filter is_send ops))"

lemma peer_ok_new: "peer_ok [] [] new_peer"
  by (simp add: peer_ok_def new_peer_def)

lemma peer_ok_arrived:
  "peer_ok bs ops p \<Longrightarrow> peer_ok bs ops (p\<lparr>cp_stream := cp_stream p @ x, cp_received := cp_received p @ x\<rparr>)"
  by (simp add: peer_ok_def split: if_splits)

lemma peer_ok_written: "peer_ok bs ops p \<Longrightarrow> peer_ok bs ops (p\<lparr>cp_in_flight := tl (cp_in_flight p)\<rparr>)"
  by (auto simp: peer_ok_def)

lemma peer_ok_stopped: "peer_ok bs ops p \<Longrightarrow> peer_ok bs ops (p\<lparr>cp_reading := False\<rparr>)"
  by (auto simp: peer_ok_def split: if_splits)

lemma peer_ok_body:
  assumes "peer_ok bs ops p" "cp_reading p" "cp_todo p = []" "read_header (cp_stream p) = Got_body b rest"
  shows "peer_ok (bs @ [b]) ops (p\<lparr>cp_stream := rest, cp_todo := handler_ops b\<rparr>)"
proof -
  have "fst (read_loop (cp_stream p @ xs)) = b # fst (read_loop (rest @ xs))" for xs
    by (rule read_loop_got) (rule read_header_more [OF assms(4)])
  then show ?thesis using assms by (auto simp: peer_ok_def)
qed

lemma peer_ok_op:
  assumes "peer_ok bs ops p" "cp_todo p = op # todo"
  shows "peer_ok bs (ops @ [op]) (op_peer s op (p\<lparr>cp_todo := todo\<rparr>))"
proof -
  let ?p = "op_peer s op (p\<lparr>cp_todo := todo\<rparr>)"
  have "suffix todo (op # todo)" by (simp add: suffix_def)
  then have "suffix todo (handler_ops (last bs))"
    using assms by (auto simp: peer_ok_def intro: suffix_order.trans)
  moreover have "length (cp_in_flight ?p) \<le> length (filter is_send (ops @ [op]))"
    using assms(1) op_peer_sends(1) [of s op "p\<lparr>cp_todo := todo\<rparr>"] by (auto simp: peer_ok_def)
  moreover have "2 \<le> length (filter is_send (ops @ [op]))" if "cp_overlapped ?p"
    using assms(1) op_peer_sends(2) [OF that] by (cases "cp_in_flight p") (auto simp: peer_ok_def)
  ultimately show ?thesis using assms by (simp add: peer_ok_def)
qed

lemma peer_ok_prefix: "\<exists>ops. peer_ok bodies ops p \<Longrightarrow> prefix bodies (fst (read_loop (cp_received p)))"
  unfolding peer_ok_def prefix_def
  by (cases "cp_reading p") (metis append_Nil2)+

interpretation peer_reader: framed_reader "\<lambda>bodies p. \<exists>ops. peer_ok bodies ops p" cp_received
  by unfold_locales (rule peer_ok_prefix)

section \<open>The invariant of the server\<close>

definition central_ok :: "central \<Rightarrow> bool" where
  "central_ok c \<longleftrightarrow>
     (\<forall>i < length (cn_peers c). peer_ok (handled_by i c) (ops_by i c) (cn_peers c ! i))
     \<and> (\<forall>e \<in> set (cn_log c). fst e < length (cn_peers c))
     \<and> (\<forall>e \<in> set (cn_trace c). fst e < length (cn_peers c))
     \<and> cn_store c = fold store_step (concat (map (\<lambda>(i, now, op). op_store op) (cn_trace c))) empty_store
     \<and> cn_db c = concat (map (\<lambda>(i, now, op). op_db now op) (cn_trace c))"

lemma central_ok_new: "central_ok new_central"
  by (simp add: central_ok_def new_central_def)

lemma peer_step_simps [simp]:
  "cn_peers (peer_step i f c) = (cn_peers c)[i := f (cn_peers c ! i)]" "cn_store (peer_step i f c) = cn_store c"
  "cn_db (peer_step i f c) = cn_db c" "cn_log (peer_step i f c) = cn_log c" "cn_trace (peer_step i f c) = cn_trace c"
  "handled_by j (peer_step i f c) = handled_by j c" "ops_by j (peer_step i f c) = ops_by j c"
  by (simp_all add: peer_step_def handled_by_def ops_by_def)

lemma enter_handler_simps [simp]:
  "cn_peers (enter_handler i b rest c)
     = (cn_peers c)[i := (cn_peers c ! i)\<lparr>cp_stream := rest, cp_todo := handler_ops b\<rparr>]"
  "cn_store (enter_handler i b rest c) = cn_store c" "cn_db (enter_handler i b rest c) = cn_db c"
  "cn_log (enter_handler i b rest c) = cn_log c @ [(i, b)]" "cn_trace (enter_handler i b rest c) = cn_trace c"
  "handled_by j (enter_handler i b rest c) = handled_by j c @ (if j = i then [b] else [])"
  "ops_by j (enter_handler i b rest c) = ops_by j c"
  by (auto simp: enter_handler_def handled_by_def ops_by_def)

lemma perform_op_simps [simp]:
  "cn_peers (perform_op i now op todo c)
     = (cn_peers c)[i := op_peer (cn_store c) op ((cn_peers c ! i)\<lparr>cp_todo := todo\<rparr>)]"
  "cn_store (perform_op i now op todo c) = fold store_step (op_store op) (cn_store c)"
  "cn_db (perform_op i now op todo c) = cn_db c @ op_db now op"
  "cn_log (perform_op i now op todo c) = cn_log c"
  "cn_trace (perform_op i now op todo c) = cn_trace c @ [(i, now, op)]"
  "handled_by j (perform_op i now op todo c) = handled_by j c"
  "ops_by j (perform_op i now op todo c) = ops_by j c @ (if j = i then [op] else [])"
  by (auto simp: perform_op_def handled_by_def ops_by_def)

lemma peer_step_ok:
  assumes "central_ok c" "\<And>bs ops p. peer_ok bs ops p \<Longrightarrow> peer_ok bs ops (f p)"
  shows "central_ok (peer_step i f c)"
  using assms by (cases "i < length (cn_peers c)") (auto simp: central_ok_def nth_list_update)

lemma central_ok_step: "central_ok c \<Longrightarrow> central_ok (central_step e c)"
proof (induction e c rule: central_step.induct)
  case (1 c)
  then have "handled_by (length (cn_peers c)) c = []" "ops_by (length (cn_peers c)) c = []"
    by (auto simp: handled_by_def ops_by_def central_ok_def filter_empty_conv)
  with 1 show ?case
    by (auto simp: central_ok_def nth_append less_Suc_eq handled_by_def ops_by_def peer_ok_new)
next
  case (3 i c)
  have "central_ok (enter_handler i b rest c)"
    if "i < length (cn_peers c)" "cp_reading (cn_peers c ! i)" "cp_todo (cn_peers c ! i) = []"
      "read_header (cp_stream (cn_peers c ! i)) = Got_body b rest" for b rest
    using 3 that peer_ok_body [OF _ that(2-4)] by (auto simp: central_ok_def nth_list_update)
  with 3 show ?case by (auto intro: peer_step_ok peer_ok_stopped split: recv.split)
next
  case (4 i now c)
  have "central_ok (perform_op i now op todo c)"
    if "i < length (cn_peers c)" "cp_todo (cn_peers c ! i) = op # todo" for op todo
    using 4 that peer_ok_op [OF _ that(2)] by (auto simp: central_ok_def nth_list_update)
  with 4 show ?case by (auto split: list.split)
qed (auto intro!: peer_step_ok peer_ok_arrived peer_ok_written peer_ok_stopped)

lemma central_ok_run: "central_ok c \<Longrightarrow> central_ok (fold central_step es c)"
  by (induction es arbitrary: c) (simp_all add: central_ok_step)

lemma central_run_ok: "central_ok (fold central_step es new_central)"
  by (rule central_ok_run [OF central_ok_new])

section \<open>Orders of the messages\<close>

text \<open>
  Each handler has at most one operation of a kind \<open>K\<close>, such as those on the store. \<open>in_order K c ms\<close>:
  the operations of kind \<open>K\<close> came in the order of the messages \<open>ms\<close>, which has of each session what it
  handled, without the message of a handler that still has its operation to do.
\<close>

definition awaited :: "(central_op \<Rightarrow> bool) \<Rightarrow> bytes list \<Rightarrow> central_peer \<Rightarrow> bytes list" where
  "awaited K bodies p = (if list_ex K (cp_todo p) then [last bodies] else [])"

definition in_order :: "(central_op \<Rightarrow> bool) \<Rightarrow> central \<Rightarrow> (nat \<times> int \<times> bytes) list \<Rightarrow> bool" where
  "in_order K c ms \<longleftrightarrow>
     filter (\<lambda>(i, now, op). K op) (cn_trace c)
       = concat (map (\<lambda>(i, now, b). map (\<lambda>op. (i, now, op)) (filter K (handler_ops b))) ms)
     \<and> (\<forall>i < length (cn_peers c).
          bodies_of i ms @ awaited K (handled_by i c) (cn_peers c ! i) = handled_by i c)
     \<and> (\<forall>e \<in> set ms. fst e < length (cn_peers c))"

lemma bodies_of_simps [simp]:
  "bodies_of i [] = []" "bodies_of i (ms @ ms') = bodies_of i ms @ bodies_of i ms'"
  "bodies_of i [(j, now, b)] = (if i = j then [b] else [])"
  by (auto simp: bodies_of_def)

lemma in_order_same:
  assumes "in_order K c ms" "cn_trace c' = cn_trace c" "cn_log c' = cn_log c"
    and "length (cn_peers c') = length (cn_peers c)"
    and "\<And>i. i < length (cn_peers c) \<Longrightarrow> cp_todo (cn_peers c' ! i) = cp_todo (cn_peers c ! i)"
  shows "in_order K c' ms"
proof -
  have "handled_by i c' = handled_by i c" for i using assms(3) by (simp add: handled_by_def)
  moreover have "awaited K bodies (cn_peers c' ! i) = awaited K bodies (cn_peers c ! i)"
    if "i < length (cn_peers c)" for i bodies
    using assms(5) [OF that] by (simp add: awaited_def)
  ultimately show ?thesis using assms(1-4) by (simp add: in_order_def)
qed

lemma in_order_peer_step:
  "in_order K c ms \<Longrightarrow> (\<And>p. cp_todo (f p) = cp_todo p) \<Longrightarrow> in_order K (peer_step i f c) ms"
  by (erule in_order_same; cases "i < length (cn_peers c)") (auto simp: nth_list_update)

lemma in_order_keeps:
  "in_order K c ms \<Longrightarrow> (\<And>p. cp_todo (f p) = cp_todo p) \<Longrightarrow> \<exists>ms'. in_order K (peer_step i f c) ms'"
  using in_order_peer_step by blast

lemma in_order_accepted:
  assumes "in_order K c ms" "central_ok c"
  shows "in_order K (c\<lparr>cn_peers := cn_peers c @ [new_peer]\<rparr>) ms"
proof -
  let ?n = "length (cn_peers c)"
  have "handled_by ?n c = []" "bodies_of ?n ms = []"
    using assms by (auto simp: handled_by_def bodies_of_def central_ok_def in_order_def filter_empty_conv)
  with assms(1) show ?thesis
    by (auto simp: in_order_def handled_by_def nth_append less_Suc_eq new_peer_def awaited_def)
qed

lemma in_order_enter:
  assumes "in_order K c ms" "i < length (cn_peers c)" "cp_todo (cn_peers c ! i) = []"
  shows "\<exists>ms'. in_order K (enter_handler i b rest c) ms'"
proof (cases "list_ex K (handler_ops b)")
  case True
  with assms have "in_order K (enter_handler i b rest c) ms"
    by (auto simp: in_order_def nth_list_update awaited_def)
  then show ?thesis ..
next
  case False
  then have "filter K (handler_ops b) = []" by (auto simp: filter_empty_conv list_ex_iff)
  with False assms have "in_order K (enter_handler i b rest c) (ms @ [(i, 0, b)])"
    by (auto simp: in_order_def nth_list_update awaited_def)
  then show ?thesis ..
qed

lemma in_order_perform:
  assumes "in_order K c ms" "central_ok c" "i < length (cn_peers c)" "cp_todo (cn_peers c ! i) = op # todo"
    and K: "\<And>b. length (filter K (handler_ops b)) \<le> 1"
  shows "\<exists>ms'. in_order K (perform_op i now op todo c) ms'"
proof (cases "K op")
  case True
  define b where "b = last (handled_by i c)"
  have "suffix (op # todo) (handler_ops b)"
    using assms(2-4) by (force simp: central_ok_def peer_ok_def b_def)
  then obtain before where b: "handler_ops b = before @ op # todo" by (auto simp: suffix_def)
  with K [of b] True have f: "filter K (handler_ops b) = [op]" "filter K todo = []" by auto
  then have "\<not> list_ex K todo" by (auto simp: filter_empty_conv list_ex_iff)
  with assms(1,3,4) True have "in_order K (perform_op i now op todo c) (ms @ [(i, now, b)])"
    by (auto simp: in_order_def nth_list_update f(1) b_def [symmetric] awaited_def)
  then show ?thesis ..
next
  case False
  with assms have "in_order K (perform_op i now op todo c) ms"
    by (auto simp: in_order_def nth_list_update awaited_def)
  then show ?thesis ..
qed

lemma in_order_step:
  assumes "in_order K c ms" "central_ok c" "\<And>b. length (filter K (handler_ops b)) \<le> 1"
  shows "\<exists>ms'. in_order K (central_step e c) ms'"
  using assms(1,2)
proof (induction e c rule: central_step.induct)
  case (1 c)
  then show ?case using in_order_accepted by auto
next
  case (3 i c)
  then show ?case by (auto intro: in_order_enter in_order_keeps split: recv.split)
next
  case (4 i now c)
  then show ?case using in_order_perform [OF _ _ _ _ assms(3)] by (auto split: list.split)
qed (auto intro: in_order_keeps)

lemma in_order_run:
  assumes "\<And>b. length (filter K (handler_ops b)) \<le> 1"
  shows "\<exists>ms. in_order K (fold central_step es new_central) ms"
proof (induction es rule: rev_induct)
  case Nil
  have "in_order K new_central []" by (simp add: in_order_def new_central_def)
  then show ?case by auto
next
  case (snoc e es)
  then show ?case using in_order_step [OF _ central_run_ok assms] by auto
qed

lemma concat_by_kind:
  assumes "\<And>op. \<not> K op \<Longrightarrow> (\<And>now. f now op = [])"
  shows "concat (map (\<lambda>(i, now, op). f now op) (filter (\<lambda>(i, now, op). K op) tr))
      = concat (map (\<lambda>(i, now, op). f now op) tr)"
    and "concat (map (f now) (filter K ops)) = concat (map (f now) ops)"
  by (induction tr) (auto simp: assms, induction ops, auto simp: assms)

lemma in_order_effect:
  assumes "in_order K c ms" "\<And>op now. \<not> K op \<Longrightarrow> f now op = []"
  shows "concat (map (\<lambda>(i, now, op). f now op) (cn_trace c))
    = concat (map (\<lambda>(i, now, b). concat (map (f now) (handler_ops b))) ms)"
proof -
  have "concat (map (\<lambda>(i, now, op). f now op) (concat (map (\<lambda>(i, now, b). map (\<lambda>op. (i, now, op)) (filter K (handler_ops b))) ms)))
      = concat (map (\<lambda>(i, now, b). concat (map (f now) (handler_ops b))) ms)"
    by (induction ms) (auto simp: comp_def concat_by_kind(2) [of K f, OF assms(2)])
  with assms(1) concat_by_kind(1) [of K f "cn_trace c", OF assms(2)] show ?thesis
    by (simp add: in_order_def)
qed

text \<open>A sequence of whole messages that explains store or database.\<close>

definition explains :: "(nat \<times> int \<times> bytes) list \<Rightarrow> central \<Rightarrow> bool" where
  "explains ms c \<longleftrightarrow> (\<forall>i < length (cn_peers c).
     \<exists>rest. handled_by i c = bodies_of i ms @ rest
       \<and> length rest \<le> (if cp_todo (cn_peers c ! i) = [] then 0 else 1))"

lemma in_order_explains: "in_order K c ms \<Longrightarrow> explains ms c"
  unfolding explains_def
proof (intro allI impI)
  fix i
  assume "in_order K c ms" "i < length (cn_peers c)"
  then have "handled_by i c = bodies_of i ms @ awaited K (handled_by i c) (cn_peers c ! i)"
    by (simp add: in_order_def)
  moreover have "length (awaited K (handled_by i c) (cn_peers c ! i)) \<le> (if cp_todo (cn_peers c ! i) = [] then 0 else 1)"
    by (auto simp: awaited_def)
  ultimately show "\<exists>rest. handled_by i c = bodies_of i ms @ rest
      \<and> length rest \<le> (if cp_todo (cn_peers c ! i) = [] then 0 else 1)" by blast
qed

lemma store_in_order:
  assumes "c = fold central_step es new_central"
  shows "\<exists>ms. explains ms c \<and> cn_store c = cr_store (replay ms empty_store)"
proof -
  obtain ms where ms: "in_order stores c ms" using in_order_run [OF at_most_one(2)] assms by blast
  have "op_store op = []" if "\<not> stores op" for op using that by (simp add: stores_def)
  from in_order_effect [where f = "\<lambda>now op. op_store op", OF ms this]
  have "cn_store c = cr_store (replay ms empty_store)"
    using central_run_ok [of es] by (simp add: assms [symmetric] central_ok_def replay_store)
  with in_order_explains [OF ms] show ?thesis by blast
qed

lemma db_in_order:
  assumes "c = fold central_step es new_central"
  shows "\<exists>ms. explains ms c \<and> cn_db c = cr_db (replay ms empty_store)"
proof -
  obtain ms where ms: "in_order logs c ms" using in_order_run [OF at_most_one(3)] assms by blast
  from in_order_effect [where f = op_db, OF ms not_logs]
  have "cn_db c = cr_db (replay ms empty_store)"
    using central_run_ok [of es] by (simp add: assms [symmetric] central_ok_def replay_db)
  with in_order_explains [OF ms] show ?thesis by blast
qed

lemma run_reachable: "central_reachable (cn_store (fold central_step es new_central))"
  using store_in_order [OF refl, of es] replay_reachable [OF central_reachable.boot] by metis

lemma run_store_ok: "store_ok (cn_store (fold central_step es new_central))"
  by (rule central_reachable_ok [OF run_reachable])

lemmas arrived_simp = central_step.simps(2)

lemma body_step:
  "i < length (cn_peers c) \<Longrightarrow> cp_reading (cn_peers c ! i) \<Longrightarrow> cp_todo (cn_peers c ! i) = []
     \<Longrightarrow> read_header (cp_stream (cn_peers c ! i)) = Got_body b rest
     \<Longrightarrow> central_step (Body_read i) c = enter_handler i b rest c"
  by simp

lemma op_step:
  "i < length (cn_peers c) \<Longrightarrow> cp_todo (cn_peers c ! i) = op # todo
     \<Longrightarrow> central_step (Handler_op i now) c = perform_op i now op todo c"
  by simp

section \<open>Runs of single handlers\<close>

declare central_step.simps [simp del]

lemma store_copied: "x\<lparr>regions := regions y, alarms := alarms y\<rparr> = y" for x y :: central_store
  by simp

lemma nth_update_within: "k < length xs \<Longrightarrow> xs[j := x] ! k = (if j = k then x else xs ! k)"
  by (cases "j < length xs") (auto simp: nth_list_update)

text \<open>A handler that no other one disturbs is the handler of \<open>Central_Server\<close>.\<close>

definition serve :: "nat \<Rightarrow> bytes \<Rightarrow> int \<Rightarrow> central_event list" where
  "serve i body now = Body_read i # replicate (length (handler_ops body)) (Handler_op i now)"

lemma handler_alone:
  assumes "i < length (cn_peers c)" "cp_reading (cn_peers c ! i)" "cp_todo (cn_peers c ! i) = []"
    and "read_header (cp_stream (cn_peers c ! i)) = Got_body b rest"
  shows "let c' = fold central_step (serve i b now) c; r = central_on_message now (cn_store c) b in
    cn_store c' = cr_store r \<and> cn_db c' = cn_db c @ cr_db r
    \<and> cp_in_flight (cn_peers c' ! i) = cp_in_flight (cn_peers c ! i) @ cr_sent r
    \<and> cp_todo (cn_peers c' ! i) = []"
proof -
  define c1 where "c1 = enter_handler i b rest c"
  have s: "fold central_step (serve i b now) c = fold central_step (replicate (length (handler_ops b)) (Handler_op i now)) c1"
    using body_step [OF assms] by (simp add: serve_def c1_def)
  have c1: "i < length (cn_peers c1)" "cp_todo (cn_peers c1 ! i) = handler_ops b" "cn_store c1 = cn_store c"
    "cn_db c1 = cn_db c" "cp_in_flight (cn_peers c1 ! i) = cp_in_flight (cn_peers c ! i)"
    using assms by (simp_all add: c1_def)
  show ?thesis unfolding s
    by (cases b rule: handler_cases)
      (simp_all add: c1 op_step on_region_sync_def on_alarm_up_def on_snapshot_req_def store_snapshot_def
        alarms_snapshot_def catch_decode_def store_copied Let_def split: sum.split)
qed

text \<open>
  The handlers of two alarms, one after the other in the store and the other way round in the
  database.
\<close>

lemma orders_can_differ:
  assumes "i \<noteq> j" "i < length (cn_peers c)" "j < length (cn_peers c)"
    and "cp_todo (cn_peers c ! i) = [Push_alarm a, Log_alarm a, reply]"
    and "cp_todo (cn_peers c ! j) = [Push_alarm b, Log_alarm b, reply']"
  shows "let c' = fold central_step [Handler_op i t1, Handler_op j t2, Handler_op j t3, Handler_op i t4] c in
    cn_store c' = push_alarm (push_alarm (cn_store c) a) b
    \<and> cn_db c' = cn_db c @ op_db t3 (Log_alarm b) @ op_db t4 (Log_alarm a)"
  using assms by (simp add: op_step Let_def)

text \<open>
  The snapshot request. While its handler is under way, events of other sessions may come between
  its operations: then the reply has the regions of one moment and the alarms of a later one.
\<close>

lemma request_ops: "handler_ops (body_of ADMIN_SNAPSHOT_REQ p) = [Copy_regions, Copy_alarms, Send_snapshot]"
  unfolding handler_ops_def body_of_def list.case msg_type_of_code by simp

lemma others_keep:
  assumes "cp_todo (cn_peers c ! i) \<noteq> []" "i < length (cn_peers c)" "\<forall>e \<in> set es. \<forall>now. e \<noteq> Handler_op i now"
  shows "cp_todo (cn_peers (fold central_step es c) ! i) = cp_todo (cn_peers c ! i)
    \<and> cp_copy (cn_peers (fold central_step es c) ! i) = cp_copy (cn_peers c ! i)
    \<and> i < length (cn_peers (fold central_step es c))"
  using assms
proof (induction es arbitrary: c)
  case (Cons e es)
  have "cp_todo (cn_peers (central_step e c) ! i) = cp_todo (cn_peers c ! i)
      \<and> cp_copy (cn_peers (central_step e c) ! i) = cp_copy (cn_peers c ! i)
      \<and> i < length (cn_peers (central_step e c))"
    using Cons.prems by (cases e)
      (auto simp: central_step.simps nth_append nth_update_within split: recv.split list.split)
  with Cons show ?case by simp
qed simp

lemma snapshot_reply:
  assumes "i < length (cn_peers c)" "cp_todo (cn_peers c ! i) = [Copy_regions, Copy_alarms, Send_snapshot]"
    and "c1 = fold central_step es1 (central_step (Handler_op i t1) c)" "\<forall>e \<in> set es1. \<forall>now. e \<noteq> Handler_op i now"
    and "c2 = fold central_step es2 (central_step (Handler_op i t2) c1)" "\<forall>e \<in> set es2. \<forall>now. e \<noteq> Handler_op i now"
    and "list_all alarm_short (alarms (cn_store c1))"
  shows "cp_in_flight (cn_peers (central_step (Handler_op i t3) c2) ! i) = cp_in_flight (cn_peers c2 ! i)
    @ [(ADMIN_SNAPSHOT_ACK, snapshot_layout \<lparr>regions = regions (cn_store c), alarms = alarms (cn_store c1)\<rparr>)]"
proof -
  let ?p = "\<lambda>c. cn_peers c ! i"
  have 1: "cp_todo (?p c1) = [Copy_alarms, Send_snapshot]" "regions (cp_copy (?p c1)) = regions (cn_store c)"
    "i < length (cn_peers c1)"
    using others_keep [OF _ _ assms(4), of "central_step (Handler_op i t1) c"] assms(1-3)
    by (simp_all add: op_step store_snapshot_def)
  then have 2: "cp_todo (?p c2) = [Send_snapshot]" "cp_copy (?p c2) = (cp_copy (?p c1))\<lparr>alarms := alarms (cn_store c1)\<rparr>"
    "i < length (cn_peers c2)"
    using others_keep [OF _ _ assms(6), of "central_step (Handler_op i t2) c1"] assms(5)
    by (simp_all add: op_step alarms_snapshot_def)
  have "cp_copy (?p c2) = \<lparr>regions = regions (cn_store c), alarms = alarms (cn_store c1)\<rparr>"
    using 1(2) by (simp add: 2(2))
  with 2 assms(7) show ?thesis by (simp add: op_step encode_admin_snapshot_eq)
qed

lemma request_served:
  assumes "i < length (cn_peers c)" "cn_peers c ! i = p" "cp_reading p" "cp_todo p = []" "store_ok (cn_store c)"
    and "cp_stream p = write_frame ADMIN_SNAPSHOT_REQ [] @ rest"
  shows "let c' = fold central_step (serve i (body_of ADMIN_SNAPSHOT_REQ []) now) c in
    cn_peers c' = (cn_peers c)[i := async_send (ADMIN_SNAPSHOT_ACK, snapshot_layout (cn_store c))
      (p\<lparr>cp_stream := rest, cp_copy := cn_store c, cp_todo := []\<rparr>)] \<and> cn_store c' = cn_store c"
proof -
  have "read_header (cp_stream p) = Got_body (body_of ADMIN_SNAPSHOT_REQ []) rest"
    unfolding assms(6) by (rule read_header_frame) (simp add: max_body_def)
  with assms show ?thesis
    by (simp add: store_copied serve_def request_ops body_step op_step store_snapshot_def alarms_snapshot_def
        encode_admin_snapshot_eq store_ok_def Let_def)
qed

text \<open>Two requests in a row, without and with the completion of the first reply in between.\<close>

abbreviation serve_request :: "nat \<Rightarrow> int \<Rightarrow> central_event list" where
  "serve_request i now \<equiv> serve i (body_of ADMIN_SNAPSHOT_REQ []) now"

lemma two_requests:
  assumes "i < length (cn_peers c)" "cn_peers c ! i = p" "cp_reading p" "cp_todo p = []" "store_ok (cn_store c)"
    and "cp_stream p = []"
    and "c1 = fold central_step (Arrived i (write_frame ADMIN_SNAPSHOT_REQ [] @ write_frame ADMIN_SNAPSHOT_REQ [])
           # serve_request i now) c"
  shows "cp_overlapped (cn_peers (fold central_step (serve_request i now') c1) ! i)"
    and "cp_in_flight p = [] \<Longrightarrow> \<not> cp_overlapped p
      \<Longrightarrow> \<not> cp_overlapped (cn_peers (fold central_step (Written i # serve_request i now') c1) ! i)"
proof -
  let ?f = "write_frame ADMIN_SNAPSHOT_REQ []" and ?m = "(ADMIN_SNAPSHOT_ACK, snapshot_layout (cn_store c))"
  define p1 where "p1 = p\<lparr>cp_stream := ?f @ ?f, cp_received := cp_received p @ ?f @ ?f\<rparr>"
  define c0 where "c0 = central_step (Arrived i (?f @ ?f)) c"
  define p2 where "p2 = async_send ?m (p1\<lparr>cp_stream := ?f, cp_copy := cn_store c, cp_todo := []\<rparr>)"
  have "cn_peers c0 = (cn_peers c)[i := p1]" "cn_store c0 = cn_store c"
    using assms(1,2,6) by (simp_all add: c0_def p1_def arrived_simp)
  then have c1: "cn_peers c1 = (cn_peers c)[i := p2]" "cn_store c1 = cn_store c"
    using request_served [of i c0 p1 ?f now] assms(1-5) by (simp_all add: assms(7) c0_def p1_def p2_def Let_def)
  have p2: "cp_reading p2" "cp_todo p2 = []" "cp_stream p2 = ?f @ []" "cp_in_flight p2 = cp_in_flight p @ [?m]"
    "cp_overlapped p2 \<longleftrightarrow> cp_overlapped p \<or> cp_in_flight p \<noteq> []"
    using assms(3) by (simp_all add: p2_def p1_def)
  show "cp_overlapped (cn_peers (fold central_step (serve_request i now') c1) ! i)"
    using request_served [of i c1 p2 "[]" now'] assms(1,5) c1 p2 by (simp add: Let_def)
  assume w: "cp_in_flight p = []" "\<not> cp_overlapped p"
  define p3 where "p3 = p2\<lparr>cp_in_flight := []\<rparr>"
  have c2: "cn_peers (central_step (Written i) c1) = (cn_peers c)[i := p3]" "cn_store (central_step (Written i) c1) = cn_store c"
    using assms(1) c1 p2(4) w by (simp_all add: central_step.simps p3_def)
  show "\<not> cp_overlapped (cn_peers (fold central_step (Written i # serve_request i now') c1) ! i)"
    using request_served [of i "central_step (Written i) c1" p3 "[]" now'] assms(1,5) c2 p2 w
    by (simp add: p3_def Let_def)
qed

text \<open>One request, answered; for the witnesses.\<close>

definition example_events :: "central_event list" where
  "example_events = [Accepted, Arrived 0 (write_frame ADMIN_SNAPSHOT_REQ []), Body_read 0,
     Handler_op 0 7, Handler_op 0 7, Handler_op 0 7]"

definition answered_central :: central where
  "answered_central = fold central_step example_events new_central"

lemma answered:
  "cn_peers answered_central = [async_send (ADMIN_SNAPSHOT_ACK, [0, 0, 0, 0])
     (new_peer\<lparr>cp_received := write_frame ADMIN_SNAPSHOT_REQ []\<rparr>)]"
  "cn_log answered_central = [(0, body_of ADMIN_SNAPSHOT_REQ [])]"
  "cn_store answered_central = empty_store"
proof -
  let ?f = "write_frame ADMIN_SNAPSHOT_REQ []"
  define p where "p = new_peer\<lparr>cp_stream := ?f, cp_received := ?f\<rparr>"
  define c where "c = new_central\<lparr>cn_peers := [p]\<rparr>"
  have c: "answered_central = fold central_step
      [Body_read 0, Handler_op 0 7, Handler_op 0 7, Handler_op 0 7] c"
    by (simp add: answered_central_def example_events_def c_def p_def new_central_def new_peer_def
        central_step.simps(1) arrived_simp peer_step_def)
  have l: "snapshot_layout empty_store = [0, 0, 0, 0]"
    by (simp add: snapshot_layout_def empty_store_def enc_u16_def put_u16_def)
  have r: "read_header ?f = Got_body (body_of ADMIN_SNAPSHOT_REQ []) []"
    using read_header_frame [of "[]" ADMIN_SNAPSHOT_REQ "[]"] by (simp add: max_body_def)
  have e: "cn_peers c = [p]" "cn_store c = empty_store" "cn_log c = []" by (simp_all add: c_def new_central_def)
  have p: "cp_reading p" "cp_stream p = ?f" "cp_todo p = []" by (simp_all add: p_def new_peer_def)
  have short: "list_all alarm_short (alarms empty_store)" by (simp add: empty_store_def)
  show "cn_peers answered_central = [async_send (ADMIN_SNAPSHOT_ACK, [0, 0, 0, 0])
      (new_peer\<lparr>cp_received := ?f\<rparr>)]"
    "cn_log answered_central = [(0, body_of ADMIN_SNAPSHOT_REQ [])]"
    "cn_store answered_central = empty_store"
    by (simp_all add: c body_step op_step e p r request_ops store_snapshot_def alarms_snapshot_def
        store_copied encode_admin_snapshot_eq short l)
      (simp add: p_def new_peer_def)
qed

section \<open>Properties\<close>

text \<open>
  C35: However the sessions of the central server overlap, message by message and operation by
  operation: each session enters the handler of the messages its peer sent, each once and in the
  order sent, however the bytes arrived in pieces; it does the operations of these handlers one after
  the other; and the store is that of handling whole messages one after the other, in an order that has
  each session's own messages in their order: all of them, except the one that a handler still under way
  has not yet come to store. The
  same holds of the calls to the database, but their order may be another one.
\<close>

theorem central_serializable:
  "let c = fold central_step es new_central in
     (\<forall>i < length (cn_peers c). \<forall>ms.
        (\<forall>(t, p) \<in> set ms. length p < max_body)
        \<and> prefix (cp_received (cn_peers c ! i)) (concat (map (\<lambda>(t, p). write_frame t p) ms))
        \<longrightarrow> prefix (handled_by i c) (map (\<lambda>(t, p). body_of t p) ms))
     \<and> (\<forall>i < length (cn_peers c). ops_by i c @ cp_todo (cn_peers c ! i) = concat (map handler_ops (handled_by i c)))
     \<and> (\<exists>ms. explains ms c \<and> cn_store c = cr_store (replay ms empty_store))
     \<and> (\<exists>ms. explains ms c \<and> cn_db c = cr_db (replay ms empty_store))"
proof -
  define c where "c = fold central_step es new_central"
  have ok: "peer_ok (handled_by i c) (ops_by i c) (cn_peers c ! i)" if "i < length (cn_peers c)" for i
    using central_run_ok [of es] that by (simp add: central_ok_def c_def)
  show ?thesis
    unfolding c_def [symmetric] Let_def
    using store_in_order [OF c_def] db_in_order [OF c_def] peer_reader.handled_sent [OF exI, OF ok] ok
    by (auto simp: peer_ok_def)
qed

lemma central_serializable_witness:
  "cn_log answered_central = [(0, body_of ADMIN_SNAPSHOT_REQ [])]
   \<and> prefix (handled_by 0 answered_central) [body_of ADMIN_SNAPSHOT_REQ []]
   \<and> cn_store answered_central = empty_store"
proof -
  have "prefix (handled_by 0 answered_central) (map (\<lambda>(t, p). body_of t p) [(ADMIN_SNAPSHOT_REQ, [])])"
    using central_serializable [of example_events, unfolded Let_def answered_central_def [symmetric], THEN conjunct1,
        rule_format, of 0 "[(ADMIN_SNAPSHOT_REQ, [])]"]
    by (simp add: answered max_body_def)
  with answered show ?thesis by simp
qed

text \<open>
  C36: Whether replies overlap depends on the peer and on the network. A session whose peer sends a
  single frame over its connection, as every client of the program does, never has two writes in
  flight. A peer that sends two requests at once makes the server start a second write on the same
  TLS stream while the first is in flight, in every state of the server in which the session waits
  for a message, if the second request is handled before the write of the first reply completes;
  if nothing was in flight and the write completes in between, the writes do not overlap.
\<close>

theorem replies_overlap_when_pipelined:
  assumes "i < length (cn_peers (fold central_step es new_central))"
    and "p = cn_peers (fold central_step es new_central) ! i"
    and "two = Arrived i (write_frame ADMIN_SNAPSHOT_REQ [] @ write_frame ADMIN_SNAPSHOT_REQ [])"
  shows "(length payload < max_body \<and> prefix (cp_received p) (write_frame t payload)
      \<longrightarrow> \<not> cp_overlapped p \<and> length (cp_in_flight p) \<le> 1)
    \<and> (cp_reading p \<and> cp_todo p = [] \<and> cp_stream p = []
      \<longrightarrow> cp_overlapped (cn_peers (fold central_step
              (es @ two # serve_request i now @ serve_request i now') new_central) ! i)
        \<and> (cp_in_flight p = [] \<and> \<not> cp_overlapped p
            \<longrightarrow> \<not> cp_overlapped (cn_peers (fold central_step
                  (es @ two # serve_request i now @ Written i # serve_request i now') new_central) ! i)))"
proof -
  let ?c = "fold central_step es new_central"
  have ok: "peer_ok (handled_by i ?c) (ops_by i ?c) p"
    using central_run_ok [of es] assms(1,2) by (simp add: central_ok_def)
  have "\<not> cp_overlapped p \<and> length (cp_in_flight p) \<le> 1"
    if "length payload < max_body" "prefix (cp_received p) (write_frame t payload)"
  proof -
    have "length (handled_by i ?c) \<le> 1" using peer_reader.handled_of_one_frame [OF exI that] ok by blast
    then have "length (filter is_send (concat (map handler_ops (handled_by i ?c)))) \<le> 1"
      using at_most_one(1) by (cases "handled_by i ?c") auto
    moreover have "length (filter is_send (ops_by i ?c)) \<le> length (filter is_send (concat (map handler_ops (handled_by i ?c))))"
      using ok unfolding peer_ok_def by (metis filter_append length_append le_add1)
    ultimately show ?thesis using ok by (auto simp: peer_ok_def)
  qed
  moreover note two_requests [OF assms(1) assms(2) [symmetric] _ _ run_store_ok _ refl]
  ultimately show ?thesis by (simp add: assms(3))
qed

lemma replies_overlap_when_pipelined_witness:
  "let f = write_frame ADMIN_SNAPSHOT_REQ [];
       run = \<lambda>es. fold central_step ([Accepted] @ es) new_central
   in cp_overlapped (cn_peers (run (Arrived 0 (f @ f) # serve_request 0 7 @ serve_request 0 8)) ! 0)
      \<and> \<not> cp_overlapped (cn_peers (run (Arrived 0 (f @ f) # serve_request 0 7 @ Written 0 # serve_request 0 8)) ! 0)
      \<and> map cp_in_flight (cn_peers answered_central) = [[(ADMIN_SNAPSHOT_ACK, [0, 0, 0, 0])]]
      \<and> \<not> cp_overlapped (cn_peers answered_central ! 0)"
proof -
  let ?f = "write_frame ADMIN_SNAPSHOT_REQ []"
  let ?p = "cn_peers answered_central ! 0"
  have a: "cn_peers (fold central_step [Accepted] new_central) = [new_peer]"
    by (simp add: new_central_def central_step.simps)
  have n: "cp_reading new_peer" "cp_stream new_peer = []" "cp_in_flight new_peer = []" "cp_todo new_peer = []"
    "\<not> cp_overlapped new_peer"
    by (simp_all add: new_peer_def)
  have "0 < length (cn_peers answered_central)" "prefix (cp_received ?p) ?f"
    by (simp_all add: answered)
  then have "\<not> cp_overlapped ?p"
    using replies_overlap_when_pipelined [of 0 example_events ?p _ "[]" ADMIN_SNAPSHOT_REQ]
    by (simp only: max_body_def answered_central_def [symmetric]) simp
  moreover have "0 < length [new_peer]" "new_peer = [new_peer] ! 0" by simp_all
  with n have "cp_overlapped (cn_peers (fold central_step
      ([Accepted] @ Arrived 0 (?f @ ?f) # serve_request 0 7 @ serve_request 0 8) new_central) ! 0)
    \<and> \<not> cp_overlapped (cn_peers (fold central_step
      ([Accepted] @ Arrived 0 (?f @ ?f) # serve_request 0 7 @ Written 0 # serve_request 0 8) new_central) ! 0)"
    using replies_overlap_when_pipelined [of 0 "[Accepted]" new_peer "Arrived 0 (?f @ ?f)" _ _ 7 8, unfolded a]
    by blast
  moreover have "map cp_in_flight (cn_peers answered_central) = [[(ADMIN_SNAPSHOT_ACK, [0, 0, 0, 0])]]"
    using n by (simp add: answered)
  ultimately show ?thesis unfolding Let_def by blast
qed

end
