(* ===== verification/Admin_Cli.thy ===== *)
theory Admin_Cli
  imports Central_Server "HOL-Library.Sublist"
begin

text \<open>
  The admin client (\<^verbatim>\<open>admin_cli.cpp\<close>): it sends one snapshot request, reads one frame and prints
  the report while it decodes. A reader of the client therefore returns the lines it printed
  together with its result or the exception; lines that were printed before an exception stay
  printed.
\<close>

section \<open>Readers that print\<close>

text \<open>The lines the client writes, with the values that it formats.\<close>

datatype cli_line =
    Title
  | Region_line u32 u32 u16
  | Zone_line u32 u32 u16 u16 u16 u16 u16
  | Alarms_line u16
  | Alarm_line u32 u32 u8 u32 u8 string string
  | Decode_fail string
  | Empty_reply
  | Unexpected_msg

type_synonym 'a cli = "bytes \<Rightarrow> cli_line list \<times> (exn + ('a \<times> bytes))"

definition reads :: "'a parser \<Rightarrow> 'a cli" where
  "reads p bs = ([], p bs)"

definition say :: "cli_line \<Rightarrow> unit cli" where
  "say l bs = ([l], Inr ((), bs))"

definition cli_bind :: "'a cli \<Rightarrow> ('a \<Rightarrow> 'b cli) \<Rightarrow> 'b cli" where
  "cli_bind m f bs =
     (case m bs of
        (out, Inl e) \<Rightarrow> (out, Inl e)
      | (out, Inr (x, rest)) \<Rightarrow> (out @ fst (f x rest), snd (f x rest)))"

fun repeat_cli :: "nat \<Rightarrow> unit cli \<Rightarrow> unit cli" where
  "repeat_cli 0 m = reads (ret ())"
| "repeat_cli (Suc n) m = cli_bind m (\<lambda>_. repeat_cli n m)"

section \<open>The report\<close>

definition print_zone :: "unit cli" where
  "print_zone =
     cli_bind (reads get_u32) (\<lambda>zid.
     cli_bind (reads get_u32) (\<lambda>pwr.
     cli_bind (reads get_u16) (\<lambda>lamp_total.
     cli_bind (reads get_u16) (\<lambda>lamp_on.
     cli_bind (reads get_u16) (\<lambda>lamp_fault.
     cli_bind (reads get_u16) (\<lambda>sens_total.
     cli_bind (reads get_u16) (\<lambda>sens_fault.
     say (Zone_line zid pwr lamp_total lamp_on lamp_fault sens_total sens_fault))))))))"

definition print_region :: "unit cli" where
  "print_region =
     cli_bind (reads get_u32) (\<lambda>rid.
     cli_bind (reads get_u32) (\<lambda>ver.
     cli_bind (reads get_u16) (\<lambda>zones.
     cli_bind (say (Region_line rid ver zones)) (\<lambda>_.
     repeat_cli (unat zones) print_zone))))"

definition print_regions :: "unit cli" where
  "print_regions =
     cli_bind (reads get_u16) (\<lambda>regions.
     cli_bind (say Title) (\<lambda>_.
     repeat_cli (unat regions) print_region))"

definition print_alarm :: "unit cli" where
  "print_alarm =
     cli_bind (reads get_u32) (\<lambda>rid.
     cli_bind (reads get_u32) (\<lambda>ts.
     cli_bind (reads get_u8) (\<lambda>dt.
     cli_bind (reads get_u32) (\<lambda>zid.
     cli_bind (reads get_u8) (\<lambda>code.
     cli_bind (reads get_str) (\<lambda>uri.
     cli_bind (reads get_str) (\<lambda>text.
     say (Alarm_line rid ts dt zid code uri text))))))))"

definition print_alarms :: "unit cli" where
  "print_alarms =
     cli_bind (reads get_u16) (\<lambda>acnt.
     cli_bind (say (Alarms_line acnt)) (\<lambda>_.
     repeat_cli (unat acnt) print_alarm))"

definition if_more :: "unit cli \<Rightarrow> unit cli" where
  "if_more m bs = (if bs = [] then ([], Inr ((), bs)) else m bs)"

definition print_snapshot :: "bytes \<Rightarrow> cli_line list" where
  "print_snapshot payload =
     (case cli_bind print_regions (\<lambda>_. if_more print_alarms) payload of
        (out, Inl e) \<Rightarrow> out @ [Decode_fail (what e)]
      | (out, Inr _) \<Rightarrow> out)"

section \<open>The client\<close>

text \<open>
  \<open>reply\<close> is what the server sends until the connection ends. The result is the bytes sent, the
  lines printed and the exit code; \<open>None\<close> stands for the uncaught exception of a failed read.
\<close>

definition admin_main :: "bytes \<Rightarrow> bytes \<times> cli_line list \<times> int option" where
  "admin_main reply =
     (let request = write_frame ADMIN_SNAPSHOT_REQ []
      in case read_frame reply of
        None \<Rightarrow> (request, [], None)
      | Some ([], _) \<Rightarrow> (request, [Empty_reply], Some 1)
      | Some (t # payload, _) \<Rightarrow>
          if msg_type_of t \<noteq> Some ADMIN_SNAPSHOT_ACK then (request, [Unexpected_msg], Some 1)
          else (request, print_snapshot payload, Some 0))"

section \<open>Reading back the layout\<close>

text \<open>What the report of a store should say.\<close>

definition zone_line :: "region_aggregate \<Rightarrow> u32 \<times> u32 \<Rightarrow> cli_line" where
  "zone_line agg zp =
     (let zs = summary_or_zero agg (fst zp)
      in Zone_line (fst zp) (snd zp) (zs_lamp_total zs) (zs_lamp_on zs) (zs_lamp_fault zs)
           (zs_sensor_total zs) (zs_sensor_fault zs))"

definition region_lines :: "u32 \<times> region_aggregate \<Rightarrow> cli_line list" where
  "region_lines ra =
     Region_line (fst ra) (agg_version (snd ra)) (word_of_nat (length (agg_zone_power_mw (snd ra))))
     # map (zone_line (snd ra)) (agg_zone_power_mw (snd ra))"

definition alarm_line :: "alarm_record \<Rightarrow> cli_line" where
  "alarm_line a = Alarm_line (ar_region_id a) (ar_ts_unix a) (ar_device_type a) (ar_zone_id a)
     (ar_code a) (ar_uri a) (ar_text a)"

definition region_report :: "central_store \<Rightarrow> cli_line list" where
  "region_report s = Title # concat (map region_lines (regions s))"

definition alarm_report :: "central_store \<Rightarrow> cli_line list" where
  "alarm_report s = Alarms_line (word_of_nat (length (alarms s))) # map alarm_line (alarms s)"

definition counts_small :: "central_store \<Rightarrow> bool" where
  "counts_small s \<longleftrightarrow> length (regions s) < 65536
     \<and> (\<forall>ra \<in> set (regions s). length (agg_zone_power_mw (snd ra)) < 65536)"

definition regions_layout :: "central_store \<Rightarrow> bytes" where
  "regions_layout s =
     enc_u16 (word_of_nat (length (regions s))) @ concat (map enc_snapshot_region (regions s))"

definition alarms_layout :: "central_store \<Rightarrow> bytes" where
  "alarms_layout s =
     enc_u16 (word_of_nat (length (alarms s))) @ concat (map enc_snapshot_alarm (alarms s))"

lemma snapshot_layout_split: "snapshot_layout s = regions_layout s @ alarms_layout s"
  by (simp add: snapshot_layout_def regions_layout_def alarms_layout_def)

lemma cli_bind_say [simp]: "cli_bind (say l) f bs = (l # fst (f () bs), snd (f () bs))"
  by (simp add: cli_bind_def say_def)

context codec
begin

lemma cli_step: "valid x \<Longrightarrow> cli_bind (reads dec) f (enc x @ rest) = f x rest"
  by (simp add: cli_bind_def reads_def dec_enc)

end

lemmas cli_wire = u8.cli_step u16.cli_step u32.cli_step str.cli_step

lemma repeat_cli_layout:
  assumes "\<And>x rest. x \<in> set xs \<Longrightarrow> m (enc x @ rest) = (out x, Inr ((), rest))"
  shows "repeat_cli (length xs) m (concat (map enc xs) @ rest) = (concat (map out xs), Inr ((), rest))"
  using assms by (induction xs) (simp_all add: reads_def ret_def cli_bind_def)

lemma print_zone_layout:
  "print_zone (enc_snapshot_zone agg zp @ rest) = ([zone_line agg zp], Inr ((), rest))"
  by (simp add: print_zone_def enc_snapshot_zone_def Let_def cli_wire say_def zone_line_def)

lemma print_region_layout:
  assumes "length (agg_zone_power_mw (snd ra)) < 65536"
  shows "print_region (enc_snapshot_region ra @ rest) = (region_lines ra, Inr ((), rest))"
  using repeat_cli_layout [of "agg_zone_power_mw (snd ra)" print_zone "enc_snapshot_zone (snd ra)"
      "\<lambda>zp. [zone_line (snd ra) zp]", OF print_zone_layout, of rest]
  by (simp add: print_region_def enc_snapshot_region_def cli_wire unat_of_nat_u16 [OF assms]
      region_lines_def del: unat_of_nat)

lemma print_regions_layout:
  assumes "counts_small s"
  shows "print_regions (regions_layout s @ rest) = (region_report s, Inr ((), rest))"
proof -
  have "print_region (enc_snapshot_region ra @ r) = (region_lines ra, Inr ((), r))"
    if "ra \<in> set (regions s)" for ra r
    using that assms by (simp add: counts_small_def print_region_layout)
  from repeat_cli_layout [of "regions s", OF this] assms show ?thesis
    by (simp add: print_regions_def regions_layout_def cli_wire unat_of_nat_u16 counts_small_def
        region_report_def del: unat_of_nat)
qed

lemma print_alarm_layout:
  "alarm_short a \<Longrightarrow> print_alarm (enc_snapshot_alarm a @ rest) = ([alarm_line a], Inr ((), rest))"
  by (simp add: print_alarm_def enc_snapshot_alarm_def cli_wire say_def alarm_line_def alarm_short_def)

lemma print_alarms_layout:
  assumes "store_ok s"
  shows "print_alarms (alarms_layout s @ rest) = (alarm_report s, Inr ((), rest))"
proof -
  have small: "length (alarms s) < 65536" using assms by (simp add: store_ok_def MAX_ALARMS_def)
  have "print_alarm (enc_snapshot_alarm a @ r) = ([alarm_line a], Inr ((), r))"
    if "a \<in> set (alarms s)" for a r
    using that assms by (simp add: store_ok_def list_all_iff print_alarm_layout)
  from repeat_cli_layout [of "alarms s", OF this] show ?thesis
    by (simp add: print_alarms_def alarms_layout_def cli_wire unat_of_nat_u16 [OF small]
        alarm_report_def del: unat_of_nat)
qed

lemma alarms_layout_nonempty [simp]: "alarms_layout s \<noteq> []"
  by (simp add: alarms_layout_def)

lemma print_snapshot_layout:
  assumes "store_ok s" "counts_small s"
  shows "print_snapshot (snapshot_layout s) = region_report s @ alarm_report s"
  using print_alarms_layout [OF assms(1), of "[]"]
  by (simp add: print_snapshot_def snapshot_layout_split cli_bind_def if_more_def
      print_regions_layout [OF assms(2)])

section \<open>Reports that are cut\<close>

text \<open>
  A reader is stable if more input changes nothing that it already did: a success stays the same
  success and leaves the additional bytes, a failure has printed a prefix of what it would print.
\<close>

definition stable :: "'a cli \<Rightarrow> bool" where
  "stable m \<longleftrightarrow> (\<forall>bs ys. case m bs of
       (out, Inr (x, rest)) \<Rightarrow> m (bs @ ys) = (out, Inr (x, rest @ ys))
     | (out, Inl e) \<Rightarrow> prefix out (fst (m (bs @ ys))))"

lemma stable_Inr: "stable m \<Longrightarrow> m bs = (out, Inr (x, rest)) \<Longrightarrow> m (bs @ ys) = (out, Inr (x, rest @ ys))"
  unfolding stable_def by (drule spec [of _ bs], drule spec [of _ ys]) simp

lemma stable_Inl: "stable m \<Longrightarrow> m bs = (out, Inl e) \<Longrightarrow> prefix out (fst (m (bs @ ys)))"
  unfolding stable_def by (drule spec [of _ bs], drule spec [of _ ys]) simp

lemma stable_reads:
  "(\<And>bs x rest ys. p bs = Inr (x, rest) \<Longrightarrow> p (bs @ ys) = Inr (x, rest @ ys)) \<Longrightarrow> stable (reads p)"
  by (auto simp: stable_def reads_def split: sum.splits)

lemma stable_say: "stable (say l)"
  by (simp add: stable_def say_def)

lemma stable_bind:
  assumes "stable m" "\<And>x. stable (f x)"
  shows "stable (cli_bind m f)"
proof -
  have "case cli_bind m f bs of
       (out, Inr (x, rest)) \<Rightarrow> cli_bind m f (bs @ ys) = (out, Inr (x, rest @ ys))
     | (out, Inl e) \<Rightarrow> prefix out (fst (cli_bind m f (bs @ ys)))" for bs ys
  proof (cases "m bs")
    case (Pair out r)
    show ?thesis
    proof (cases r)
      case (Inl e)
      then show ?thesis
        using stable_Inl [OF assms(1), of bs out e ys] Pair
        by (auto simp: cli_bind_def prefix_def split: prod.splits sum.splits)
    next
      case (Inr xr)
      then obtain x rest where "m bs = (out, Inr (x, rest))" using Pair by (cases xr) simp
      with stable_Inr [OF assms(1) this, of ys]
        stable_Inr [OF assms(2), of x rest _ _ _ ys] stable_Inl [OF assms(2), of x rest _ _ ys]
      show ?thesis by (cases "f x rest") (auto simp: cli_bind_def split: sum.splits)
    qed
  qed
  then show ?thesis by (simp add: stable_def)
qed

lemma stable_repeat: "stable m \<Longrightarrow> stable (repeat_cli n m)"
  by (induction n) (auto intro!: stable_bind stable_reads simp: ret_def)

context codec
begin

lemma stable_dec: "stable (reads dec)"
  by (rule stable_reads) (auto simp: dec_iff)

end

lemmas stable_intros = stable_bind stable_repeat stable_say u8.stable_dec u16.stable_dec
  u32.stable_dec str.stable_dec

lemma stable_print_regions: "stable print_regions"
  unfolding print_regions_def print_region_def print_zone_def by (intro stable_intros)

lemma stable_print_alarms: "stable print_alarms"
  unfolding print_alarms_def print_alarm_def by (intro stable_intros)

text \<open>A stable reader that consumes a layout exactly cannot succeed on a part that is cut short.\<close>

lemma stable_consumes:
  assumes "stable m" "m (lay @ rest) = (full, Inr ((), rest))" "m bs = (out, Inr (x, left))"
    and "bs @ extra = lay @ rest"
  shows "out = full \<and> left @ extra = rest"
  using stable_Inr [OF assms(1,3), of extra] assms(2,4) by simp

lemma print_cut_regions:
  assumes "counts_small s" "take n (regions_layout s @ rest) = bs"
  shows "(\<exists>out e. print_regions bs = (out, Inl e) \<and> prefix out (region_report s))
    \<or> (\<exists>left. print_regions bs = (region_report s, Inr ((), left)) \<and> bs = regions_layout s @ left)"
proof (cases "print_regions bs")
  case (Pair out r)
  have cut: "bs @ drop n (regions_layout s @ rest) = regions_layout s @ rest"
    using assms(2) by (metis append_take_drop_id)
  note lay = print_regions_layout [OF assms(1), of rest]
  show ?thesis
  proof (cases r)
    case (Inl e)
    then show ?thesis
      using stable_Inl [OF stable_print_regions, of bs out e "drop n (regions_layout s @ rest)"]
        Pair lay by (simp add: cut del: drop_append)
  next
    case (Inr xr)
    then obtain left where l: "print_regions bs = (out, Inr ((), left))"
      using Pair by (cases xr) simp
    have "out = region_report s \<and> left @ drop n (regions_layout s @ rest) = rest"
      by (rule stable_consumes [OF stable_print_regions lay l cut])
    with l cut show ?thesis by (metis append.assoc append_same_eq)
  qed
qed

lemma print_cut_alarms:
  assumes "store_ok s" "n < length (alarms_layout s)"
  shows "\<exists>out e. print_alarms (take n (alarms_layout s)) = (out, Inl e) \<and> prefix out (alarm_report s)"
proof (cases "print_alarms (take n (alarms_layout s))")
  case (Pair out r)
  let ?bs = "take n (alarms_layout s)" and ?cut = "drop n (alarms_layout s)"
  have lay: "print_alarms (alarms_layout s @ []) = (alarm_report s, Inr ((), []))"
    by (rule print_alarms_layout [OF assms(1)])
  have cut: "?bs @ ?cut = alarms_layout s @ []" by simp
  show ?thesis
  proof (cases r)
    case (Inl e)
    then show ?thesis
      using stable_Inl [OF stable_print_alarms, of ?bs out e ?cut] Pair lay by simp
  next
    case (Inr xr)
    then obtain left where "print_alarms ?bs = (out, Inr ((), left))"
      using Pair by (cases xr) simp
    from stable_consumes [OF stable_print_alarms lay this cut] assms(2) show ?thesis by simp
  qed
qed

lemma print_snapshot_cut:
  assumes "store_ok s" "counts_small s" "n < length (snapshot_layout s)"
  shows "(\<exists>out e. print_snapshot (take n (snapshot_layout s)) = out @ [Decode_fail (what e)]
        \<and> prefix out (region_report s @ alarm_report s))
    \<or> n = length (regions_layout s) \<and> print_snapshot (take n (snapshot_layout s)) = region_report s"
proof -
  let ?bs = "take n (snapshot_layout s)"
  have take: "take n (regions_layout s @ alarms_layout s) = ?bs" by (simp add: snapshot_layout_split)
  from print_cut_regions [OF assms(2) take] show ?thesis
  proof (elim disjE exE conjE)
    fix out e assume "print_regions ?bs = (out, Inl e)" "prefix out (region_report s)"
    then show ?thesis by (auto simp: print_snapshot_def cli_bind_def)
  next
    fix left assume l: "print_regions ?bs = (region_report s, Inr ((), left))"
      "?bs = regions_layout s @ left"
    let ?k = "n - length (regions_layout s)"
    have "length (regions_layout s) \<le> length ?bs" by (subst l(2)) simp
    then have k: "length (regions_layout s) \<le> n" "left = take ?k (alarms_layout s)"
      using l(2) by (simp_all add: snapshot_layout_split)
    have small: "?k < length (alarms_layout s)" using assms(3) k(1) by (simp add: snapshot_layout_split)
    from print_cut_alarms [OF assms(1) this] obtain out e
      where a: "print_alarms left = (out, Inl e)" "prefix out (alarm_report s)" by (auto simp: k(2))
    show ?thesis
    proof (cases "left = []")
      case True
      then have "n = length (regions_layout s)" using k small by auto
      with l True show ?thesis by (simp add: print_snapshot_def cli_bind_def if_more_def)
    next
      case False
      then have "print_snapshot ?bs = (region_report s @ out) @ [Decode_fail (what e)]"
        by (simp add: print_snapshot_def cli_bind_def if_more_def l(1) a(1))
      with a(2) show ?thesis by (metis same_prefix_prefix)
    qed
  qed
qed

section \<open>Properties\<close>

text \<open>
  The answer of the central server reaches the operator intact: for every reachable store whose
  regions and zones can be counted with 16 bits, the client's request is answered by one frame
  from which the client prints one line per region and zone with the stored values (zeros for a
  zone without device summary) and one line per stored alarm, and exits with code 0.
\<close>

theorem snapshot_reaches_operator:
  assumes "central_reachable s" "counts_small s" "length (snapshot_layout s) < 2 ^ 32 - 1"
    and "cr_sent (central_on_message now s (body_of ADMIN_SNAPSHOT_REQ [])) = [(t, payload)]"
  shows "admin_main (write_frame t payload)
    = (write_frame ADMIN_SNAPSHOT_REQ [], region_report s @ alarm_report s, Some 0)"
proof -
  have ok: "store_ok s" by (rule central_reachable_ok) fact
  have tp: "t = ADMIN_SNAPSHOT_ACK" "payload = snapshot_layout s"
    using assms(4) on_snapshot_req_eq [OF ok] by (simp_all add: central_on_message_simps)
  show ?thesis
    using read_frame_write_frame [OF assms(3), of ADMIN_SNAPSHOT_ACK "[]"]
    by (simp add: admin_main_def tp body_of_def print_snapshot_layout [OF ok assms(2)] del: msg_code.simps)
qed

definition example_store :: central_store where
  "example_store = cr_store (central_on_message 0 empty_store
     (body_of REGION_SYNC_UP (encode_region_sync_up example_sync)))"

lemma example_store_eq: "example_store = \<lparr>regions = [(1, \<lparr>agg_version = 7,
    agg_zone_power_mw = [(1, 94000)], agg_zone_summary = [(1, \<lparr>zs_zone_id = 1, zs_lamp_total = 1,
      zs_lamp_on = 1, zs_lamp_fault = 0, zs_sensor_total = 1, zs_sensor_fault = 0\<rparr>)]\<rparr>)], alarms = []\<rparr>"
proof -
  have "counts_fit example_sync" by (simp add: counts_fit_def example_sync_def)
  from decode_encode_region_sync_up [OF this, of "[]"] show ?thesis
    by (simp add: example_store_def central_on_message_simps on_region_sync_def example_sync_def
        upsert_region_def upd_default_def empty_store_def get_default_def)
qed

lemma snapshot_reaches_operator_witness:
  "snd (admin_main (write_frame ADMIN_SNAPSHOT_ACK (snapshot_layout example_store)))
     = ([Title, Region_line 1 7 1, Zone_line 1 94000 1 1 0 1 0, Alarms_line 0], Some 0)"
proof -
  have r: "central_reachable example_store"
    unfolding example_store_def by (intro central_reachable.intros)
  have c: "counts_small example_store" by (simp add: counts_small_def example_store_eq)
  have l: "length (snapshot_layout example_store) < 2 ^ 32 - 1"
    by (simp add: snapshot_layout_def example_store_eq enc_snapshot_region_def
        enc_snapshot_zone_def Let_def)
  have s: "cr_sent (central_on_message 0 example_store (body_of ADMIN_SNAPSHOT_REQ []))
      = [(ADMIN_SNAPSHOT_ACK, snapshot_layout example_store)]"
    by (simp add: central_on_message_simps on_snapshot_req_eq [OF central_reachable_ok [OF r]])
  from snapshot_reaches_operator [OF r c l s] show ?thesis
    by (simp add: region_report_def alarm_report_def region_lines_def zone_line_def Let_def
        example_store_eq summary_or_zero_def)
qed

text \<open>
  C37: A snapshot that is cut short is never taken for a complete one: the client prints only lines
  of the true report and then a decoding error, except when the payload ends exactly before the
  block of alarms, where it prints the report without alarms and no error.
\<close>

theorem snapshot_cut_detected:
  assumes "store_ok s" "counts_small s" "n < length (snapshot_layout s)"
  shows "(\<exists>out e. print_snapshot (take n (snapshot_layout s)) = out @ [Decode_fail (what e)]
        \<and> prefix out (region_report s @ alarm_report s))
    \<or> n = length (regions_layout s) \<and> print_snapshot (take n (snapshot_layout s)) = region_report s"
  using assms by (rule print_snapshot_cut)

lemma snapshot_cut_detected_witness:
  "\<exists>out e. print_snapshot (take 7 (snapshot_layout example_store)) = out @ [Decode_fail (what e)]
     \<and> prefix out (region_report example_store @ alarm_report example_store)"
proof -
  have ok: "store_ok example_store" by (simp add: store_ok_def example_store_eq)
  have c: "counts_small example_store" by (simp add: counts_small_def example_store_eq)
  have l: "length (regions_layout example_store) = 30"
    by (simp add: regions_layout_def example_store_eq enc_snapshot_region_def
        enc_snapshot_zone_def Let_def)
  then have "7 < length (snapshot_layout example_store)" by (simp add: snapshot_layout_split)
  from snapshot_cut_detected [OF ok c this] l show ?thesis by simp
qed

end
