(* ===== verification/Operator_View.thy ===== *)
theory Operator_View
  imports Admin_Cli Regional_Server
begin

text \<open>
  What a region sends upwards and what the operator sees of it: alarms and synchronisations of a
  region, handled by a session of the central server, and the report that the admin client prints.
\<close>

section \<open>Alarms\<close>

lemma length_enc_alarm_up:
  "length (enc_alarm_up a) = 18 + length (al_uri a) + length (al_text a)"
  by (simp add: enc_alarm_up_def)

lemma short_alarm_fits:
  assumes "short_str (al_uri a)" "short_str (al_text a)"
  shows "length (enc_alarm_up a) < max_body"
  using assms by (simp add: length_enc_alarm_up short_str_def max_body_def)

text \<open>A session whose peer sends one frame handles exactly that frame.\<close>

lemma session_one_frame:
  assumes "length p < max_body"
  shows "central_session clock s (write_frame t p) = (central_on_message (clock 0) s (body_of t p), True)"
proof -
  have "\<forall>(t, p) \<in> set [(t, p)]. length p < max_body" using assms by simp
  from read_loop_frames [OF this, of "[]"] show ?thesis
    by (simp add: central_session_def Let_def no_effect_def)
qed

lemma last_push_alarm: "alarms (push_alarm s a) \<noteq> [] \<and> last (alarms (push_alarm s a)) = a"
  by (simp add: push_alarm_def Let_def MAX_ALARMS_def)

lemma alarm_report_last: "alarms s \<noteq> [] \<Longrightarrow> last (alarm_report s) = alarm_line (last (alarms s))"
  by (simp add: alarm_report_def last_map)

section \<open>Synchronisations\<close>












section \<open>Properties\<close>

lemma reply_fits_frame:
  assumes "length p < 2 ^ 32 - 1"
  shows "reply_fits (take 4 (write_frame t p)) (body_of t p)"
  using unat_length_body_of [OF assms, of t] by (simp add: reply_fits_def write_frame_eq take_mem32)

lemma frame_parts: "take 4 (write_frame t p) @ body_of t p = write_frame t p"
  by (simp add: write_frame_eq take_mem32)

text \<open>
  C7: An alarm that a region raises, in any run from its start, reaches the operator if no other alarm
  of the region is under way from its posting to its acknowledgement and its connection is set up
  without error, whatever became of earlier alarms: the alarm client transmits one more frame; a
  session of the central server that reads this frame stores the alarm as the newest one, logs it
  and acknowledges it with its region and time; the client reads and decodes the bytes of that
  acknowledgement, and is ready for the next alarm; and the last line of the operator's report is
  the alarm.
\<close>

theorem region_alarm_reaches_operator:
  assumes "\<forall>e \<in> set es. event_defined e" "region_run t es (boot rid) = Some (r, out)"
    and "Alarm a \<in> set out" "central_reachable s" "counts_small s" "quiet ac"
  shows "let i = length (ac_chains ac); frame = write_frame ALARM_UP (enc_alarm_up a);
      res = fst (central_session clk s frame); s' = cr_store res;
      ack = \<lparr>aack_region_id = al_region_id a, aack_ts_unix = al_ts_unix a, aack_ok = 1\<rparr>;
      reply = concat (map (\<lambda>(t, p). write_frame t p) (cr_sent res));
      ac' = fold alarm_step (alarm_round i a (good_round (take 4 reply) (drop 4 reply))) ac
    in ac_written ac' = ac_written ac @ [(i, frame)]
       \<and> s' = push_alarm s (record_of a)
       \<and> cr_db res = [log_alarm (al_region_id a) (al_ts_unix a) (al_device_type a) (al_zone_id a)
            (al_code a) (al_uri a) (al_text a)]
       \<and> cr_sent res = [(ALARM_ACK, encode_alarm_ack ack)]
       \<and> ac_acks ac' = ac_acks ac @ [ack] \<and> quiet ac' \<and> ac_misused ac' = ac_misused ac
       \<and> last (print_snapshot (snapshot_layout s')) = alarm_line (record_of a)"
proof -
  let ?ack = "\<lparr>aack_region_id = al_region_id a, aack_ts_unix = al_ts_unix a, aack_ok = 1\<rparr>"
  have "alarm_ok (Alarm a)"
    using region_run_ok [OF region_ok_boot assms(1), of t rid] assms(2,3)
    by (auto simp: result_ok_def list_all_iff)
  then have short: "short_str (al_uri a)" "short_str (al_text a)" by (simp_all add: alarm_ok_def)
  have enc: "encode_alarm_up a = Inr (enc_alarm_up a)" by (simp add: alarm_up.encode_eq short)
  have session: "central_session clk s (write_frame ALARM_UP (enc_alarm_up a)) = (on_alarm_up s a, True)"
    using session_one_frame [OF short_alarm_fits [OF short]] alarm_up.decode_encode [OF enc, of "[]"]
    by (simp add: central_on_message_simps)
  have sent: "cr_sent (on_alarm_up s a) = [(ALARM_ACK, encode_alarm_ack ?ack)]"
    by (simp add: on_alarm_up_def Let_def)
  let ?p = "encode_alarm_ack ?ack"
  let ?hdr = "take 4 (write_frame ALARM_ACK ?p)"
  have fits: "reply_fits ?hdr (body_of ALARM_ACK ?p)"
    by (rule reply_fits_frame) (simp add: encode_alarm_ack_def put_u32_def put_u8_def)
  have drop: "drop 4 (write_frame ALARM_ACK ?p) = body_of ALARM_ACK ?p"
    by (simp add: write_frame_eq take_mem32)
  have "whole_round (good_round ?hdr (body_of ALARM_ACK ?p))"
    using fits unfolding whole_round_def by blast
  note round = round_outcome [OF assms(6) enc this refl refl]
  have "decode_alarm_ack (encode_alarm_ack x) = Inr x" for x
    using alarm_ack.decode_encode [of x _ "[]"] by simp
  then have ack: "reply_acks (good_round ?hdr (body_of ALARM_ACK ?p)) = [?ack]"
    by (simp add: reply_acks_def acks_in_def good_round_def body_of_def del: msg_code.simps)
  let ?s = "push_alarm s (record_of a)"
  have "central_reachable (cr_store (central_on_message (clk 0) s (body_of ALARM_UP (enc_alarm_up a))))"
    by (rule central_reachable.message) fact
  then have "store_ok ?s"
    using alarm_up.decode_encode [OF enc, of "[]"] central_reachable_ok
    by (simp add: central_on_message_simps on_alarm_up_def Let_def)
  moreover have "counts_small ?s" using assms(5) by (simp add: counts_small_def)
  ultimately have report: "last (print_snapshot (snapshot_layout ?s)) = alarm_line (record_of a)"
    using print_snapshot_layout last_push_alarm alarm_report_last [of ?s] by (simp add: alarm_report_def)
  have res: "cr_store (on_alarm_up s a) = ?s"
    "cr_db (on_alarm_up s a) = [log_alarm (al_region_id a) (al_ts_unix a) (al_device_type a) (al_zone_id a)
        (al_code a) (al_uri a) (al_text a)]"
    by (simp_all add: on_alarm_up_def record_of_def Let_def)
  show ?thesis
    using round report by (simp add: Let_def session sent drop ack res) (simp add: good_round_def)
qed

text \<open>A region that gets the fault marker of a sensor.\<close>

definition marker_run :: "region_event list" where
  "marker_run = [Datagram example_clock False (telemetry_packet ''s'' 3 0 254 0)]"

lemma marker_alarm:
  "\<exists>r out. region_run 500 marker_run (boot 1) = Some (r, out)
     \<and> Alarm \<lparr>al_region_id = 1, al_ts_unix = 1700000000, al_device_type = 2, al_zone_id = 3, al_code = 1,
          al_uri = ''s'', al_text = ''sensor_fault''\<rparr> \<in> set out"
proof -
  let ?t = "\<lparr>rd_uri = ''s'', rd_zone_id = 3, rd_lux = 0, rd_motion = 254, rd_temp10 = 0\<rparr>"
  have dec: "decode_telemetry (telemetry_packet ''s'' 3 0 254 0) = Some ?t"
    using telemetry_decoded [of "''s''" 3 0 254 0 "[]"] by (simp add: c_str_id)
  obtain reg lm where o: "on_reading 1000 ?t (rg_reg (boot 1), rg_last_motion (boot 1))
      = ((reg, lm), [Sensor_fault 3 ''s'' 1])"
    by (simp add: on_reading_def mark_sensor_fault_def motion_edge_def Let_def split: prod.split)
  have "rg_id (boot 1) = 1" by (simp add: boot_def Let_def)
  then show ?thesis
    by (simp add: marker_run_def datagram_def udp_receive_def dec o sensor_fault_def Let_def example_clock_def)
qed

lemma region_alarm_reaches_operator_witness:
  "\<exists>s'. last (print_snapshot (snapshot_layout s')) = Alarm_line 1 1700000000 2 3 1 ''s'' ''sensor_fault''"
proof -
  have d: "\<forall>e \<in> set marker_run. event_defined e"
    using telemetry_decoded [of "''s''" 3 0 254 0 "[]"] by (simp add: marker_run_def)
  obtain r out where run: "region_run 500 marker_run (boot 1) = Some (r, out)"
    "Alarm \<lparr>al_region_id = 1, al_ts_unix = 1700000000, al_device_type = 2, al_zone_id = 3, al_code = 1,
       al_uri = ''s'', al_text = ''sensor_fault''\<rparr> \<in> set out"
    using marker_alarm by blast
  have "counts_small empty_store" by (simp add: counts_small_def empty_store_def)
  moreover have "quiet new_alarms" by (simp add: quiet_def new_alarms_def)
  ultimately show ?thesis
    using region_alarm_reaches_operator [OF d run central_reachable.boot]
    unfolding Let_def by (fastforce simp: alarm_line_def record_of_def)
qed



end
