(* ===== verification/Programs.thy ===== *)
theory Programs
  imports Command_Line Db_Open Pqc_Tls Device_Net Central_Sessions Operator_View
begin

text \<open>
  The five programs as wholes, from \<^verbatim>\<open>argv\<close> to the point where their threads run the \<^verbatim>\<open>io_context\<close>
  (\<^verbatim>\<open>central_server.cpp\<close>, \<^verbatim>\<open>regional_server.cpp\<close>, \<^verbatim>\<open>luminaire_client.cpp\<close>, \<^verbatim>\<open>sensor_udp.cpp\<close>) or to
  their end (\<^verbatim>\<open>admin_cli.cpp\<close>): the order in which arguments, database, TLS contexts and sockets are set
  up, which failure ends which program, and the state in which it starts to serve. The operating
  system is a parameter: a record of the answers of SQLite, OpenSSL and the socket calls. Left out are
  signals and output.
\<close>

section \<open>The surroundings of a program\<close>

text \<open>
  \<open>w_ctx\<close>: a TLS context as asio constructs it. \<open>w_listen\<close>, \<open>w_bind\<close>: whether a TCP acceptor or a UDP
  socket can be bound to a port; \<open>w_udp_open\<close>: whether a UDP socket can be opened. \<open>w_dial\<close>: the
  outcome of resolving, connecting and the handshake with a host and port; where these succeed it
  maps what the client writes to the bytes that it can read until the stream ends, or \<open>None\<close> where
  the write fails. \<open>w_cores\<close>: what \<^verbatim>\<open>hardware_concurrency\<close> returns.
\<close>

datatype dial_error = Resolve_failed | Connect_failed | Handshake_failed

record ('k, 'c, 'a) world =
  w_sqlite :: sqlite_env
  w_ssl :: "('k, 'c) openssl"
  w_ctx :: "('k, 'c) ssl_ctx"
  w_listen :: "u16 \<Rightarrow> bool"
  w_bind :: "u16 \<Rightarrow> bool"
  w_udp_open :: bool
  w_make_address :: "string \<Rightarrow> 'a option"
  w_dial :: "string \<Rightarrow> string \<Rightarrow> dial_error + (bytes \<Rightarrow> bytes option)"
  w_cores :: nat

text \<open>The exceptions that can leave a \<^verbatim>\<open>main\<close>.\<close>

datatype cause =
    Argument start_error
  | Database db_error
  | Tls tls_error
  | Listen_failed u16
  | Bind_failed u16
  | Socket_failed
  | Dial dial_error
  | Stream_failed

datatype 'a outcome =
    Exited int
  | Terminated cause
  | Serving 'a

fun with_startup :: "'a startup \<Rightarrow> ('a \<Rightarrow> 'b outcome) \<Rightarrow> 'b outcome" where
  "with_startup Usage f = Exited 1"
| "with_startup (Thrown e) f = Terminated (Argument e)"
| "with_startup (Runs x) f = f x"

text \<open>A call that returns a state and perhaps throws, and one that only can throw.\<close>

definition attempt :: "'s \<times> 'e option \<Rightarrow> ('e \<Rightarrow> cause) \<Rightarrow> ('s \<Rightarrow> 'b outcome) \<Rightarrow> 'b outcome" where
  "attempt r c f = (case r of (s, None) \<Rightarrow> f s | (s, Some e) \<Rightarrow> Terminated (c e))"

definition require :: "bool \<Rightarrow> cause \<Rightarrow> 'b outcome \<Rightarrow> 'b outcome" where
  "require ok c f = (if ok then f else Terminated c)"

text \<open>
  The contexts as the constructors hand them to the set-up: a server's excludes SSL 2 and 3
  (\<^verbatim>\<open>set_options\<close>), a client's does not verify the certificate of its peer
  (\<^verbatim>\<open>set_verify_mode(verify_none)\<close>).
\<close>

definition server_context :: "('k, 'c, 'a) world \<Rightarrow> ('k, 'c) ssl_ctx" where
  "server_context w = (w_ctx w)\<lparr>no_sslv2 := True, no_sslv3 := True\<rparr>"

definition client_context :: "('k, 'c, 'a) world \<Rightarrow> ('k, 'c) ssl_ctx" where
  "client_context w = (w_ctx w)\<lparr>verify_peer := False\<rparr>"

definition new_tls :: "('k, 'c) ssl_ctx \<Rightarrow> ('k, 'c) tls_state" where
  "new_tls c = \<lparr>ctx = c, live = [], misused = False\<rparr>"

definition thread_count :: "('k, 'c, 'a) world \<Rightarrow> nat" where
  "thread_count w = max 2 (w_cores w)"

section \<open>The central server\<close>

record ('k, 'c) central_process =
  cp_port :: u16
  cp_db :: db_conn
  cp_tls :: "('k, 'c) tls_state"
  cp_central :: central
  cp_threads :: nat

text \<open>The constructor of \<^verbatim>\<open>CentralTlsServer\<close>: its acceptor is a member, so it is bound first.\<close>

definition central_tls_server ::
  "('k, 'c, 'a) world \<Rightarrow> central_args \<Rightarrow> (('k, 'c) tls_state \<Rightarrow> 'b outcome) \<Rightarrow> 'b outcome" where
  "central_tls_server w ca k =
     require (w_listen w (ct_port ca)) (Listen_failed (ct_port ca))
       (attempt (apply_pqc_server (w_ssl w) (ct_cert ca) (ct_key ca) (new_tls (server_context w))) Tls k)"

definition central_program ::
  "('k, 'c, 'a) world \<Rightarrow> string list \<Rightarrow> ('k, 'c) central_process outcome" where
  "central_program w argv =
     with_startup (central_main argv) (\<lambda>ca.
     attempt (db_start (w_sqlite w) ''schema.sql'' closed_conn) Database (\<lambda>db.
     central_tls_server w ca (\<lambda>tls.
     Serving \<lparr>cp_port = ct_port ca, cp_db = db, cp_tls = tls, cp_central = new_central,
       cp_threads = thread_count w\<rparr>)))"

section \<open>The regional server\<close>

record ('k, 'c) regional_process =
  rp_args :: regional_args
  rp_db :: db_conn
  rp_sync_tls :: "('k, 'c) tls_state"
  rp_sync :: sync_client
  rp_alarms :: alarm_client
  rp_device_tls :: "('k, 'c) tls_state"
  rp_net :: net
  rp_timeout_ms :: u64
  rp_threads :: nat

text \<open>The constructors of \<^verbatim>\<open>RegionSyncClient\<close>, \<^verbatim>\<open>RegionalDeviceServer\<close> and \<^verbatim>\<open>UdpTelemetryServer\<close>.\<close>

definition region_sync_client ::
  "('k, 'c, 'a) world \<Rightarrow> regional_args \<Rightarrow> (('k, 'c) tls_state \<times> sync_client \<times> alarm_client \<Rightarrow> 'b outcome)
     \<Rightarrow> 'b outcome" where
  "region_sync_client w ra k =
     attempt (apply_pqc_client (w_ssl w) (new_tls (client_context w))) Tls
       (\<lambda>tls. k (tls, new_sync (ra_region_id ra), new_alarms))"

definition regional_device_server ::
  "('k, 'c, 'a) world \<Rightarrow> regional_args \<Rightarrow> (('k, 'c) tls_state \<Rightarrow> 'b outcome) \<Rightarrow> 'b outcome" where
  "regional_device_server w ra k =
     require (w_listen w (ra_tls_port ra)) (Listen_failed (ra_tls_port ra))
       (attempt (apply_pqc_server (w_ssl w) (ra_cert ra) (ra_key ra) (new_tls (server_context w))) Tls k)"

definition udp_telemetry_server :: "('k, 'c, 'a) world \<Rightarrow> regional_args \<Rightarrow> 'b outcome \<Rightarrow> 'b outcome" where
  "udp_telemetry_server w ra k = require (w_bind w (ra_udp_port ra)) (Bind_failed (ra_udp_port ra)) k"

definition regional_program ::
  "('k, 'c, 'a) world \<Rightarrow> string list \<Rightarrow> ('k, 'c) regional_process outcome" where
  "regional_program w argv =
     with_startup (regional_main argv) (\<lambda>ra.
     attempt (db_start (w_sqlite w) ''schema.sql'' closed_conn) Database (\<lambda>db.
     region_sync_client w ra (\<lambda>(sync_tls, sync, alarms).
     let sync = start_sync True (empty_registry, empty_registry) sync
     in regional_device_server w ra (\<lambda>device_tls.
        udp_telemetry_server w ra
          (Serving \<lparr>rp_args = ra, rp_db = db, rp_sync_tls = sync_tls, rp_sync = sync, rp_alarms = alarms,
             rp_device_tls = device_tls, rp_net = new_net (ra_region_id ra),
             rp_timeout_ms = comm_lost_timeout_ms ra, rp_threads = thread_count w\<rparr>)))))"

section \<open>Lamp and sensor\<close>

text \<open>The stop timer, and for the lamp the reset timer, run if their durations are positive.\<close>

record ('k, 'c) lamp_process =
  lm_args :: lamp_args
  lm_tls :: "('k, 'c) tls_state"
  lm_lamp :: lamp
  lm_stop_timer :: bool
  lm_reset_timer :: bool

text \<open>The constructor of \<^verbatim>\<open>LuminaireClient\<close>, and then \<^verbatim>\<open>start\<close>.\<close>

definition luminaire_client ::
  "('k, 'c, 'a) world \<Rightarrow> (('k, 'c) tls_state \<times> lamp \<Rightarrow> 'b outcome) \<Rightarrow> 'b outcome" where
  "luminaire_client w k =
     attempt (apply_pqc_client (w_ssl w) (new_tls (client_context w))) Tls (\<lambda>tls. k (tls, new_lamp))"

definition lamp_program ::
  "('k, 'c, 'a) world \<Rightarrow> string list \<Rightarrow> ('k, 'c) lamp_process outcome" where
  "lamp_program w argv =
     with_startup (lamp_main argv) (\<lambda>la.
     luminaire_client w (\<lambda>(tls, lamp).
     Serving \<lparr>lm_args = la, lm_tls = tls, lm_lamp = Luminaire.start lamp,
       lm_stop_timer = (la_run_s la > 0), lm_reset_timer = (la_reset_after_s la > 0)\<rparr>))"

record 'a sensor_process =
  sp_args :: "'a sensor_args"
  sp_sensor :: sensor
  sp_stop_timer :: bool

text \<open>The socket is opened after the count of the arguments is checked and before they are read.\<close>

definition sensor_program :: "('k, 'c, 'a) world \<Rightarrow> string list \<Rightarrow> 'a sensor_process outcome" where
  "sensor_program w argv =
     (if length argv < 6 then Exited 1
      else require (w_udp_open w) Socket_failed
        (with_startup (sensor_main (w_make_address w) argv) (\<lambda>sa.
         Serving \<lparr>sp_args = sa, sp_sensor = boot_sensor, sp_stop_timer = (sa_run_s sa > 0)\<rparr>)))"

section \<open>The operator's client\<close>



section \<open>Lemmas\<close>

lemma attempt_serves: "attempt r c f = Serving x \<longleftrightarrow> snd r = None \<and> f (fst r) = Serving x"
  by (auto simp: attempt_def split: prod.splits option.splits)

lemma require_serves: "require ok c f = Serving x \<longleftrightarrow> ok \<and> f = Serving x"
  by (simp add: require_def)

lemma with_startup_serves: "with_startup st f = Serving x \<longleftrightarrow> (\<exists>a. st = Runs a \<and> f a = Serving x)"
  by (cases st) simp_all

lemmas stages = attempt_serves require_serves with_startup_serves

lemma attempt_ok [simp]: "snd r = None \<Longrightarrow> attempt r c f = f (fst r)"
  by (auto simp: attempt_def split: prod.splits)

lemma require_ok [simp]: "require True c f = f"
  by (simp add: require_def)

text \<open>
  What a client's and a server's context are when their set-up succeeded, where \<open>c\<close> is the context
  before it.
\<close>

definition tls_ready :: "('k, 'c) openssl \<Rightarrow> ('k, 'c) ssl_ctx \<Rightarrow> ('k, 'c) tls_state \<Rightarrow> bool" where
  "tls_ready ssl c s \<longleftrightarrow> hardened ssl c (ctx s) \<and> live s = [] \<and> \<not> misused s"

definition client_ready :: "('k, 'c, 'a) world \<Rightarrow> ('k, 'c) tls_state \<Rightarrow> bool" where
  "client_ready w s \<longleftrightarrow> tls_ready (w_ssl w) (client_context w) s \<and> \<not> verify_peer (ctx s)"

definition server_ready ::
  "('k, 'c, 'a) world \<Rightarrow> string \<Rightarrow> string \<Rightarrow> ('k, 'c) tls_state \<Rightarrow> bool" where
  "server_ready w cert_file key_file s \<longleftrightarrow>
     tls_ready (w_ssl w) (server_context w) s \<and> no_sslv2 (ctx s) \<and> no_sslv3 (ctx s)
     \<and> (\<exists>cert pkey. ctx_cert (ctx s) = Some cert \<and> read_x509 (w_ssl w) cert_file = Some cert
          \<and> ctx_key (ctx s) = Some pkey \<and> read_private_key (w_ssl w) key_file = Some pkey
          \<and> check_private_key (w_ssl w) (Some pkey) (Some cert))"

definition db_ready :: "db_conn \<Rightarrow> bool" where
  "db_ready c \<longleftrightarrow> dc_running c \<and> dc_handle c \<and> dc_stmts c = all_sql"

lemma client_set_up:
  "snd (apply_pqc_client (w_ssl w) (new_tls (client_context w))) = None
   \<Longrightarrow> client_ready w (fst (apply_pqc_client (w_ssl w) (new_tls (client_context w))))"
  by (simp add: apply_pqc_client_def new_tls_def client_ready_def tls_ready_def hardened_def
      client_context_def Let_def split: if_splits)

lemma server_set_up:
  assumes "snd (apply_pqc_server (w_ssl w) f g (new_tls (server_context w))) = None"
  shows "server_ready w f g (fst (apply_pqc_server (w_ssl w) f g (new_tls (server_context w))))"
proof -
  let ?ssl = "w_ssl w"
  let ?s = "\<lparr>ctx = (set_versions ?ssl (server_context w))\<lparr>groups := ''X25519MLKEM768'',
      sigalgs := ''ML-DSA-44''\<rparr>, live = [Pkey], misused = False\<rparr>"
  obtain pkey where k: "read_private_key ?ssl g = Some pkey"
    "apply_pqc_server ?ssl f g (new_tls (server_context w)) = load_cert ?ssl f pkey ?s"
    using assms
    by (auto simp: apply_pqc_server_def new_tls_def alloc_def [of Pkey] Let_def split: if_splits option.splits)
  let ?r = "load_cert ?ssl f pkey ?s"
  have "snd ?r = None" using assms by (simp only: k(2))
  with load_cert_outcome [of ?s ?ssl f pkey] obtain cert where r: "live (fst ?r) = []" "\<not> misused (fst ?r)"
    "read_x509 ?ssl f = Some cert" "check_private_key ?ssl (Some pkey) (Some cert)"
    "ctx (fst ?r) = (ctx ?s)\<lparr>ctx_cert := Some cert, ctx_key := Some pkey\<rparr>" by auto
  have "no_sslv2 (server_context w)" "no_sslv3 (server_context w)" by (simp_all add: server_context_def)
  then show ?thesis
    unfolding k(2) by (simp add: k(1) r server_ready_def tls_ready_def hardened_def)
qed

lemma db_set_up: "snd (db_start env f closed_conn) = None \<Longrightarrow> db_ready (fst (db_start env f closed_conn))"
  using db_start_runs [of env f closed_conn "fst (db_start env f closed_conn)"]
  by (simp add: prod_eq_iff closed_conn_def db_ready_def)

lemma central_serves:
  assumes "central_program w argv = Serving cp"
  shows "db_ready (cp_db cp)" "server_ready w (argv ! 2) (argv ! 3) (cp_tls cp)"
    "w_listen w (cp_port cp)" "cp_central cp = new_central" "2 \<le> cp_threads cp"
proof -
  obtain ca where ca: "central_main argv = Runs ca" "w_listen w (ct_port ca)"
    "snd (db_start (w_sqlite w) ''schema.sql'' closed_conn) = None"
    "snd (apply_pqc_server (w_ssl w) (ct_cert ca) (ct_key ca) (new_tls (server_context w))) = None"
    "cp = \<lparr>cp_port = ct_port ca, cp_db = fst (db_start (w_sqlite w) ''schema.sql'' closed_conn),
       cp_tls = fst (apply_pqc_server (w_ssl w) (ct_cert ca) (ct_key ca) (new_tls (server_context w))),
       cp_central = new_central, cp_threads = thread_count w\<rparr>"
    using assms by (auto simp: central_program_def central_tls_server_def stages)
  have "ct_cert ca = argv ! 2" "ct_key ca = argv ! 3"
    using ca(1) by (cases "stoi (argv ! 1)"; auto simp: central_main_def split: if_splits)+
  with ca db_set_up [OF ca(3)] server_set_up [OF ca(4)]
  show "db_ready (cp_db cp)" "server_ready w (argv ! 2) (argv ! 3) (cp_tls cp)"
    "w_listen w (cp_port cp)" "cp_central cp = new_central" "2 \<le> cp_threads cp"
    by (simp_all add: thread_count_def)
qed

lemma with_arg_runs: "with_arg r f = Runs x \<longleftrightarrow> (\<exists>a. r = Inr a \<and> f a = Runs x)"
  by (cases r) simp_all

lemma regional_serves:
  assumes "regional_program w argv = Serving rp"
  shows "db_ready (rp_db rp)" "client_ready w (rp_sync_tls rp)"
    "server_ready w (argv ! 7) (argv ! 8) (rp_device_tls rp)"
    "w_listen w (ra_tls_port (rp_args rp))" "w_bind w (ra_udp_port (rp_args rp))" "2 \<le> rp_threads rp"
    "sc_version (rp_sync rp) = 1" "rp_net rp = new_net (ra_region_id (rp_args rp))"
    "rp_timeout_ms rp = comm_lost_timeout_ms (rp_args rp)"
proof -
  obtain ra where ra: "regional_main argv = Runs ra" "w_listen w (ra_tls_port ra)" "w_bind w (ra_udp_port ra)"
    "snd (db_start (w_sqlite w) ''schema.sql'' closed_conn) = None"
    "snd (apply_pqc_client (w_ssl w) (new_tls (client_context w))) = None"
    "snd (apply_pqc_server (w_ssl w) (ra_cert ra) (ra_key ra) (new_tls (server_context w))) = None"
    "rp = \<lparr>rp_args = ra, rp_db = fst (db_start (w_sqlite w) ''schema.sql'' closed_conn),
       rp_sync_tls = fst (apply_pqc_client (w_ssl w) (new_tls (client_context w))),
       rp_sync = start_sync True (empty_registry, empty_registry) (new_sync (ra_region_id ra)), rp_alarms = new_alarms,
       rp_device_tls = fst (apply_pqc_server (w_ssl w) (ra_cert ra) (ra_key ra) (new_tls (server_context w))),
       rp_net = new_net (ra_region_id ra), rp_timeout_ms = comm_lost_timeout_ms ra,
       rp_threads = thread_count w\<rparr>"
    using assms by (auto simp: regional_program_def region_sync_client_def regional_device_server_def
        udp_telemetry_server_def stages Let_def)
  have "ra_cert ra = argv ! 7" "ra_key ra = argv ! 8"
    using ra(1) by (auto simp: regional_main_def with_arg_runs split: if_splits)
  with ra db_set_up [OF ra(4)] client_set_up [OF ra(5)] server_set_up [OF ra(6)]
  show "db_ready (rp_db rp)" "client_ready w (rp_sync_tls rp)"
    "server_ready w (argv ! 7) (argv ! 8) (rp_device_tls rp)"
    "w_listen w (ra_tls_port (rp_args rp))" "w_bind w (ra_udp_port (rp_args rp))" "2 \<le> rp_threads rp"
    "sc_version (rp_sync rp) = 1" "rp_net rp = new_net (ra_region_id (rp_args rp))"
    "rp_timeout_ms rp = comm_lost_timeout_ms (rp_args rp)"
    by (simp_all add: thread_count_def start_sync_def do_sync_once_def new_sync_def Let_def)
qed

lemma lamp_serves:
  assumes "lamp_program w argv = Serving lm"
  shows "client_ready w (lm_tls lm)" "lamp_reachable cf (lm_lamp lm)"
  using assms client_set_up [of w]
  by (auto simp: lamp_program_def luminaire_client_def stages intro: lamp_reachable.started)

lemma sensor_serves:
  assumes "sensor_program w argv = Serving sp"
  shows "w_udp_open w" "sensor_reachable cf (sp_sensor sp)"
  using assms by (auto simp: sensor_program_def stages intro: sensor_reachable.booted split: if_splits)

lemma serving_region_runs:
  assumes "regional_program w argv = Serving rp" "\<forall>e \<in> set es. net_defined e"
  shows "\<exists>n. net_run t es (rp_net rp) = Some n \<and> region_ok (nt_region n)"
  using net_ok_run [OF net_ok_new assms(2)] regional_serves(8) [OF assms(1)] by (fastforce simp: net_ok_def)

text \<open>Surroundings in which nothing refuses: the schema file is that of the repository.\<close>

definition sqlite_ok :: "sqlite_env \<Rightarrow> bool" where
  "sqlite_ok env \<longleftrightarrow> env_open env \<and> list_all (env_exec env) pragmas
     \<and> (case env_file env ''schema.sql'' of
          None \<Rightarrow> False | Some sql \<Rightarrow> env_exec env sql \<and> env_tables env (Some sql) = schema)"

definition ssl_ok :: "('k, 'c) openssl \<Rightarrow> string \<Rightarrow> string \<Rightarrow> bool" where
  "ssl_ok ssl cert_file key_file \<longleftrightarrow>
     set1_groups_list ssl ''X25519MLKEM768'' \<and> set1_sigalgs_list ssl ''ML-DSA-44''
     \<and> bio_new_file ssl cert_file \<and> bio_new_file ssl key_file
     \<and> (case (read_private_key ssl key_file, read_x509 ssl cert_file) of
          (Some k, Some c) \<Rightarrow> use_certificate ssl c \<and> use_private_key ssl k (Some c)
            \<and> check_private_key ssl (Some k) (Some c)
        | _ \<Rightarrow> False)"

lemma sqlite_ok_starts: "sqlite_ok env \<Longrightarrow> snd (db_start env ''schema.sql'' closed_conn) = None"
  by (auto simp: sqlite_ok_def closed_conn_def intro!: db_start_over_schema split: option.splits)

lemma ssl_ok_client: "ssl_ok ssl f g \<Longrightarrow> snd (apply_pqc_client ssl s) = None"
  by (simp add: ssl_ok_def apply_pqc_client_def Let_def)

lemma ssl_ok_server: "ssl_ok ssl f g \<Longrightarrow> snd (apply_pqc_server ssl f g s) = None"
  by (auto simp: ssl_ok_def apply_pqc_server_def load_cert_def attach_def Let_def split: option.splits)

lemma sensor_arguments_at:
  "ma host = Some addr \<Longrightarrow> port < 2 ^ 31 \<Longrightarrow> zone < 2 ^ 64 \<Longrightarrow> run_s < 2 ^ 31 \<Longrightarrow>
   sensor_main ma [prog, host, decimal port, uri, decimal zone, decimal run_s]
     = Runs \<lparr>sa_server = addr, sa_port = word_of_nat port, sa_run_s = int run_s,
          sa_config = \<lparr>sc_uri = uri, sc_zone = word_of_nat zone, sc_lux_threshold = 25,
            sc_temp_threshold_x10 = 10, sc_heartbeat_s = 30, sc_fault_prob_per_mille = 0,
            sc_fault_reset_after_s = 0\<rparr>\<rparr>"
  by (simp add: sensor_main_def numeral_arguments)

lemma central_program_ok:
  assumes "sqlite_ok (w_sqlite w)" "ssl_ok (w_ssl w) cert key" "w_listen w (word_of_nat cport)" "cport < 2 ^ 31"
  shows "\<exists>cp. central_program w [prog, decimal cport, cert, key] = Serving cp \<and> cp_port cp = word_of_nat cport"
  using assms
  by (simp add: central_program_def central_arguments central_tls_server_def sqlite_ok_starts ssl_ok_server)

lemma regional_program_ok:
  assumes "sqlite_ok (w_sqlite w)" "ssl_ok (w_ssl w) cert key"
    and "w_listen w (word_of_nat tls)" "w_bind w (word_of_nat udp)"
    and "tls < 2 ^ 31" "udp < 2 ^ 31" "cport < 2 ^ 31" "interval < 2 ^ 31" "rid < 2 ^ 64" "timeout < 2 ^ 64"
  shows "\<exists>rp. regional_program w [prog, decimal rid, decimal tls, decimal udp, host, decimal cport,
      decimal interval, cert, key, decimal timeout] = Serving rp
    \<and> rp_args rp = \<lparr>ra_region_id = word_of_nat rid, ra_tls_port = word_of_nat tls,
          ra_udp_port = word_of_nat udp, ra_central_host = host, ra_central_port = word_of_nat cport,
          ra_sync_interval_s = int interval, ra_cert = cert, ra_key = key,
          ra_comm_lost_timeout_s = word_of_nat timeout\<rparr>
    \<and> rp_net rp = new_net (word_of_nat rid) \<and> rp_timeout_ms rp = word_of_nat (timeout * 1000)
    \<and> rp_sync rp = start_sync True (empty_registry, empty_registry) (new_sync (word_of_nat rid))"
  using assms
  by (simp add: regional_program_def regional_arguments region_sync_client_def regional_device_server_def
      udp_telemetry_server_def sqlite_ok_starts ssl_ok_server ssl_ok_client [of _ cert key] Let_def
      comm_lost_timeout_ms_def)

lemma lamp_program_ok:
  assumes "ssl_ok (w_ssl w) cert key" "port < 2 ^ 31" "zone < 2 ^ 64" "run_s < 2 ^ 31"
  shows "\<exists>lm. lamp_program w [prog, host, decimal port, uri, decimal zone, decimal run_s] = Serving lm
    \<and> la_host (lm_args lm) = host \<and> la_port (lm_args lm) = word_of_nat port
    \<and> cf_uri (la_config (lm_args lm)) = uri \<and> cf_zone (la_config (lm_args lm)) = word_of_nat zone"
  using assms by (simp add: lamp_program_def luminaire_client_def lamp_arguments ssl_ok_client [of _ cert key])

lemma sensor_program_ok:
  assumes "w_udp_open w" "w_make_address w host = Some addr" "port < 2 ^ 31" "zone < 2 ^ 64" "run_s < 2 ^ 31"
  shows "\<exists>sp. sensor_program w [prog, host, decimal port, uri, decimal zone, decimal run_s] = Serving sp
    \<and> sa_server (sp_args sp) = addr \<and> sa_port (sp_args sp) = word_of_nat port
    \<and> sc_zone (sa_config (sp_args sp)) = word_of_nat zone"
  using assms by (simp add: sensor_program_def sensor_arguments_at)







text \<open>A machine on which everything is in place; for the witnesses.\<close>

definition example_world :: "(nat, nat, nat) world" where
  "example_world = \<lparr>w_sqlite = example_env, w_ssl = example_openssl, w_ctx = fresh_context,
     w_listen = (\<lambda>p. p \<in> {6000, 5555}), w_bind = (\<lambda>p. p = 7777), w_udp_open = True,
     w_make_address = (\<lambda>t. if t = ''host'' then Some 1 else None),
     w_dial = (\<lambda>host port. Inl Connect_failed), w_cores = 1\<rparr>"

lemma example_world_ok:
  "sqlite_ok (w_sqlite example_world)" "ssl_ok (w_ssl example_world) ''server.crt'' ''server.key''"
  by (simp_all add: example_world_def sqlite_ok_def example_env_def pragmas_def ssl_ok_def example_openssl_def)

section \<open>Properties\<close>

text \<open>
  C11: A program that gets to serve is set up completely. Both servers then have a database with
  all statements prepared, a TLS context restricted to hybrid key exchange and ML-DSA-44, without
  SSL 2 and 3, with the certificate and key of their files, which belong together, their ports, and
  at least two threads; the region's context towards the central server and the lamp's are
  restricted alike but verify no certificate; a version bound is TLS 1.3 exactly where OpenSSL
  granted it or it was before; lamp and sensor are in their initial reachable state; and the region
  then goes through every sequence of network events, datagrams with an unterminated URI excepted,
  without ever being ended by an exception.
\<close>

theorem serving_programs_ready:
  "(\<forall>cp. central_program w argv = Serving cp \<longrightarrow>
      db_ready (cp_db cp) \<and> server_ready w (argv ! 2) (argv ! 3) (cp_tls cp)
      \<and> w_listen w (cp_port cp) \<and> cp_central cp = new_central \<and> 2 \<le> cp_threads cp)
   \<and> (\<forall>rp es. regional_program w argv = Serving rp \<longrightarrow>
      db_ready (rp_db rp) \<and> client_ready w (rp_sync_tls rp)
      \<and> server_ready w (argv ! 7) (argv ! 8) (rp_device_tls rp)
      \<and> w_listen w (ra_tls_port (rp_args rp)) \<and> w_bind w (ra_udp_port (rp_args rp)) \<and> 2 \<le> rp_threads rp
      \<and> sc_version (rp_sync rp) = 1
      \<and> ((\<forall>e \<in> set es. net_defined e) \<longrightarrow>
          (\<exists>n. net_run (rp_timeout_ms rp) es (rp_net rp) = Some n \<and> region_ok (nt_region n))))
   \<and> (\<forall>lm. lamp_program w argv = Serving lm \<longrightarrow>
      client_ready w (lm_tls lm) \<and> lamp_reachable (la_config (lm_args lm)) (lm_lamp lm))
   \<and> (\<forall>sp. sensor_program w argv = Serving sp \<longrightarrow>
      w_udp_open w \<and> sensor_reachable (sa_config (sp_args sp)) (sp_sensor sp))"
proof (intro conjI allI impI)
  show "sensor_reachable (sa_config (sp_args sp)) (sp_sensor sp)" if "sensor_program w argv = Serving sp" for sp
    by (rule sensor_serves [OF that])
  show "\<exists>n. net_run (rp_timeout_ms rp) es (rp_net rp) = Some n \<and> region_ok (nt_region n)"
    if "regional_program w argv = Serving rp" "\<forall>e \<in> set es. net_defined e" for rp es
    by (rule serving_region_runs [OF that])
qed (fact central_serves regional_serves lamp_serves sensor_serves | erule central_serves regional_serves lamp_serves sensor_serves)+

definition example_regional_argv :: "string list" where
  "example_regional_argv = [''regional'', decimal 1, decimal 5555, decimal 7777, ''host'', decimal 6000,
     decimal 5, ''server.crt'', ''server.key'', decimal 20]"

lemma serving_programs_ready_witness:
  "\<exists>rp n. regional_program example_world example_regional_argv = Serving rp \<and> db_ready (rp_db rp)
     \<and> client_ready example_world (rp_sync_tls rp) \<and> net_run (rp_timeout_ms rp) example_net_events (rp_net rp) = Some n
     \<and> region_ok (nt_region n)"
proof -
  have "w_listen example_world (word_of_nat 5555)" "w_bind example_world (word_of_nat 7777)"
    by (simp_all add: example_world_def)
  from regional_program_ok [OF example_world_ok this, of 6000 5 1 20 "''regional''" "''host''"]
  obtain rp where rp: "regional_program example_world example_regional_argv = Serving rp"
    by (auto simp: example_regional_argv_def)
  have "\<forall>e \<in> set example_net_events. net_defined e" by (simp add: example_net_events_def)
  with serving_programs_ready [of example_world example_regional_argv] rp
  have "db_ready (rp_db rp)" "client_ready example_world (rp_sync_tls rp)"
    "\<exists>n. net_run (rp_timeout_ms rp) example_net_events (rp_net rp) = Some n \<and> region_ok (nt_region n)" by blast+
  with rp show ?thesis by blast
qed

text \<open>
  C12: A deployment comes up and fits together: where SQLite accepts the repository's schema, OpenSSL
  the key and certificate, and the ports are free, all four programs that keep running reach their
  serving state for all numeric arguments in range, the region synchronises with the host and port of
  the central server, lamp and sensor talk to the region's ports, the region and its synchronisation
  carry the same number, and the timeout for silent devices is the given seconds in milliseconds.
\<close>

theorem deployment_comes_up:
  assumes "sqlite_ok (w_sqlite w)" "ssl_ok (w_ssl w) cert key" "w_udp_open w" "w_make_address w host = Some addr"
    and "w_listen w (word_of_nat cport)" "w_listen w (word_of_nat tls)" "w_bind w (word_of_nat udp)"
    and "list_all (\<lambda>n. n < 2 ^ 31) [cport, tls, udp, interval, run_s]"
    and "list_all (\<lambda>n. n < 2 ^ 64) [rid, timeout, zone]"
  shows "\<exists>cp rp lm sp.
      central_program w [prog, decimal cport, cert, key] = Serving cp
    \<and> regional_program w [prog, decimal rid, decimal tls, decimal udp, host, decimal cport, decimal interval,
        cert, key, decimal timeout] = Serving rp
    \<and> lamp_program w [prog, host, decimal tls, uri, decimal zone, decimal run_s] = Serving lm
    \<and> sensor_program w [prog, host, decimal udp, uri', decimal zone, decimal run_s] = Serving sp
    \<and> ra_central_host (rp_args rp) = host \<and> ra_central_port (rp_args rp) = cp_port cp
    \<and> la_host (lm_args lm) = host \<and> la_port (lm_args lm) = ra_tls_port (rp_args rp)
    \<and> sa_server (sp_args sp) = addr \<and> sa_port (sp_args sp) = ra_udp_port (rp_args rp)
    \<and> cf_zone (la_config (lm_args lm)) = sc_zone (sa_config (sp_args sp))
    \<and> rg_id (nt_region (rp_net rp)) = word_of_nat rid \<and> sc_region_id (rp_sync rp) = word_of_nat rid
    \<and> rp_timeout_ms rp = word_of_nat (timeout * 1000)"
proof -
  have n: "cport < 2 ^ 31" "tls < 2 ^ 31" "udp < 2 ^ 31" "interval < 2 ^ 31" "run_s < 2 ^ 31"
    "rid < 2 ^ 64" "timeout < 2 ^ 64" "zone < 2 ^ 64" using assms(8,9) by simp_all
  have id: "rg_id (boot r) = r" for r by (simp add: boot_def Let_def)
  from central_program_ok [OF assms(1,2,5) n(1), of prog]
    regional_program_ok [OF assms(1,2,6,7) n(2,3,1,4,6,7), of prog host]
    lamp_program_ok [OF assms(2) n(2,8,5), of prog host uri] sensor_program_ok [OF assms(3,4) n(3,8,5), of prog uri']
  obtain cp rp lm sp where p: "central_program w [prog, decimal cport, cert, key] = Serving cp"
    "cp_port cp = word_of_nat cport"
    "regional_program w [prog, decimal rid, decimal tls, decimal udp, host, decimal cport, decimal interval,
        cert, key, decimal timeout] = Serving rp"
    "rp_args rp = \<lparr>ra_region_id = word_of_nat rid, ra_tls_port = word_of_nat tls,
          ra_udp_port = word_of_nat udp, ra_central_host = host, ra_central_port = word_of_nat cport,
          ra_sync_interval_s = int interval, ra_cert = cert, ra_key = key,
          ra_comm_lost_timeout_s = word_of_nat timeout\<rparr>"
    "rp_net rp = new_net (word_of_nat rid)" "rp_timeout_ms rp = word_of_nat (timeout * 1000)"
    "rp_sync rp = start_sync True (empty_registry, empty_registry) (new_sync (word_of_nat rid))"
    "lamp_program w [prog, host, decimal tls, uri, decimal zone, decimal run_s] = Serving lm"
    "la_host (lm_args lm) = host" "la_port (lm_args lm) = word_of_nat tls"
    "cf_zone (la_config (lm_args lm)) = word_of_nat zone"
    "sensor_program w [prog, host, decimal udp, uri', decimal zone, decimal run_s] = Serving sp"
    "sa_server (sp_args sp) = addr" "sa_port (sp_args sp) = word_of_nat udp"
    "sc_zone (sa_config (sp_args sp)) = word_of_nat zone" by blast
  show ?thesis
    by (intro exI [of _ cp] exI [of _ rp] exI [of _ lm] exI [of _ sp])
      (simp add: p new_net_def id start_sync_def do_sync_once_def new_sync_def Let_def)
qed

lemma deployment_comes_up_witness:
  "\<exists>cp lm. central_program example_world [''prog'', decimal 6000, ''server.crt'', ''server.key''] = Serving cp
     \<and> lamp_program example_world [''prog'', ''host'', decimal 5555, ''lamp1'', decimal 7, decimal 0] = Serving lm"
proof -
  have w: "w_udp_open example_world" "w_make_address example_world ''host'' = Some 1"
    "w_listen example_world (word_of_nat 6000)" "w_listen example_world (word_of_nat 5555)"
    "w_bind example_world (word_of_nat 7777)"
    by (simp_all add: example_world_def)
  have n: "list_all (\<lambda>n. n < 2 ^ 31) [6000, 5555, 7777, 5, 0 :: nat]"
    "list_all (\<lambda>n. n < 2 ^ 64) [1, 20, 7 :: nat]" by simp_all
  from deployment_comes_up [OF example_world_ok w n, of "''prog''" "''lamp1''" "''sensor1''"]
  show ?thesis by blast
qed



end
