(* ===== verification/Spec2Isabelle.thy ===== *)
theory Spec2Isabelle
  imports Street_Light Region_Log Registry_Races Programs
begin

text \<open>
  The Smart Lighting System: a formal development beside its C++ sources.

  \<^bold>\<open>The program.\<close> A city is divided into regions. Lamps (\<^verbatim>\<open>luminaire_client.cpp\<close>) hold a TLS
  connection to the server of their region, register, send status and fault reports and receive
  commands. Motion and light sensors (\<^verbatim>\<open>sensor_udp.cpp\<close>) send UDP datagrams to it. The regional
  server (\<^verbatim>\<open>regional_server.cpp\<close>) keeps a registry of its devices (\<^verbatim>\<open>registry.hpp\<close>), switches the
  lamps of a zone on and off with the motion signal, detects silent devices, logs to SQLite
  (\<^verbatim>\<open>db.cpp\<close>) and sends aggregates and alarms to the central server (\<^verbatim>\<open>region_sync_client.hpp\<close>). The
  central server (\<^verbatim>\<open>central_tls_server.hpp\<close>, \<^verbatim>\<open>central_store.hpp\<close>) stores them and answers the
  snapshot request of the operator's client (\<^verbatim>\<open>admin_cli.cpp\<close>). All TCP traffic is framed
  (\<^verbatim>\<open>framed_tls.hpp\<close>) and carries the messages of \<^verbatim>\<open>proto.hpp\<close>; TLS is set up by \<^verbatim>\<open>pqc_tls.hpp\<close>.

  \<^bold>\<open>How code became definitions.\<close> A function of the program is a HOL function under the program's
  name; a structure or class is a record, an enumeration a datatype. Integers keep their width
  (\<open>u8\<close>, \<open>u16\<close>, \<open>u32\<close>, \<open>u64\<close>) and wrap. A handler that asio runs to completion is one function from
  the state before to the state after, with what it hands to the outside (frames, datagrams,
  database events, alarms) as a returned list; a mutex-protected operation is one function for the
  same reason. Where handlers of several threads meet on shared state, they are also given operation
  by operation (\<open>Registry_Races\<close>, \<open>Central_Sessions\<close>, the closures of \<open>Write_Queue\<close>, the two reads and the
  alarm chains of \<open>Sync_Client\<close>), and the one function is their run without interference.
  Exceptions are values: \<open>Inl\<close> of a \<open>result\<close>, or an optional exception beside the
  state where the state changed before the throw. A \<^verbatim>\<open>std::unordered_map\<close> is an association list with
  distinct keys whose order is arbitrary; results that could depend on this order are shown not to.
  Time and random numbers are arguments. The order of events is a list of events or a reachability
  predicate, so a theorem about it covers every interleaving of handlers.

  \<^bold>\<open>Theories, from the bytes upwards.\<close>

  \<^item> \<open>Prelude\<close>: integers, bytes, results, readers that move a pointer, maps, and the lemmas about them
    that the components share.
  \<^item> \<open>Wire\<close>: \<^verbatim>\<open>put_*\<close>, \<^verbatim>\<open>get_*\<close> and the byte swaps of \<^verbatim>\<open>proto.hpp\<close>. The locale \<open>codec\<close> is the contract of a
    pair of encoder and reader (the reader accepts exactly the encodings and leaves the rest);
    \<open>counted_codec\<close> and \<open>message\<close> extend it to repetitions and to whole messages. They are interpreted
    on the primitive codecs here and on every message in \<open>Proto\<close>.
  \<^item> \<open>Proto\<close>: the messages, \<^verbatim>\<open>encode_*\<close> and \<^verbatim>\<open>decode_*\<close>; exactness of all codecs, the complete behaviour of
    the one decoder with a version fallback, and where the 16-bit counts overflow.
  \<^item> \<open>Frame\<close>: \<^verbatim>\<open>framed_tls.hpp\<close>; the reader recovers the frames that were written and stops at a length
    out of range. The locale \<open>framed_reader\<close> is the contract of a session whose bytes arrive in
    pieces; it is interpreted on the peers of \<open>Central_Sessions\<close> and on \<open>Read_Chain\<close>.
  \<^item> \<open>Read_Chain\<close>: the chain of asynchronous reads of a session, header and body in turn, over bytes that
    arrive in pieces of any size; it hands over the bodies of the whole stream. That a read completes
    and that its handler runs are separate steps.
  \<^item> \<open>Fsm\<close>: the transition tables. The locale \<open>fsm\<close> is interpreted on the machines of \<open>Regional_Server\<close>,
    \<open>Luminaire\<close> and \<open>Sensor\<close>.
  \<^item> \<open>Write_Queue\<close>: \<^verbatim>\<open>out_q_\<close> and \<^verbatim>\<open>writing_\<close> of device session and lamp; the locale \<open>serial_writer\<close> is the
    contract of a writer with one write in flight, and \<open>queue_step\<close> counts the writes in flight. The
    closure of \<^verbatim>\<open>queue_send\<close>, which several threads of the regional server can run at once, is also given in
    steps: \<open>two_writes_in_flight\<close> is the race.
  \<^item> \<open>Registry\<close>: \<^verbatim>\<open>registry.hpp\<close>. Invariant, both aggregations against their specifications and
    independent of the iteration order, the sweep for silent devices. The locale \<open>device_table\<close> is
    the contract on which the device server rests.
  \<^item> \<open>Central_Store\<close>: \<^verbatim>\<open>central_store.hpp\<close>; it refines the unbounded history of operations
    (locale \<open>bounded_log\<close>).
  \<^item> \<open>Central_Server\<close>: the session and its handlers in \<^verbatim>\<open>central_tls_server.hpp\<close>, and the snapshot.
  \<^item> \<open>Central_Sessions\<close>: all sessions of the central server on one store, with arriving bytes, writes in
    flight, and handlers that take the locks of store and database one after the other and so overlap.
    The store is that of handling whole messages in some order, the database in a perhaps different one
    (\<open>orders_can_differ\<close>); a snapshot can have alarms of a later moment than its regions
    (\<open>snapshot_reply\<close>); which peers make replies overlap.
  \<^item> \<open>Db_Writer\<close>: \<^verbatim>\<open>db.hpp\<close>, \<^verbatim>\<open>db.cpp\<close>: queue, worker, start, stop, and each event's statements and values.
  \<^item> \<open>Database\<close>: \<^verbatim>\<open>schema.sql\<close> and the prepared statements of \<^verbatim>\<open>db.cpp\<close> as data, and the SQL they use. The
    locale \<open>statement_log\<close> is what the writer relies on; it is interpreted on the tables, which are
    well typed and hold the history of the handled events.
  \<^item> \<open>Db_Open\<close>: \<^verbatim>\<open>DbWriter::start\<close> and \<^verbatim>\<open>stop\<close>: connection, pragmas, schema file and prepared statements, and
    what each failure leaves behind.
  \<^item> \<open>Admin_Cli\<close>: \<^verbatim>\<open>admin_cli.cpp\<close> from request to exit code, with the printed lines.
  \<^item> \<open>Telemetry\<close>, \<open>Udp_Server\<close>: the datagram and \<^verbatim>\<open>udp_telemetry_server.hpp\<close>; motion edges per sensor.
  \<^item> \<open>Device_Server\<close>: \<^verbatim>\<open>tls_device_server.hpp\<close>: sessions, handlers, session table, commands; an invariant
    over every interleaving of connections, executor and commands.
  \<^item> \<open>Sync_Client\<close>: \<^verbatim>\<open>region_sync_client.hpp\<close>: the chain of one synchronisation attempt, with the
    registry at each of its two reads (\<open>torn_synchronisation\<close>), and the alarms, whose chains continue on
    whatever stream the one member \<^verbatim>\<open>alarm_sock_\<close> holds. \<open>ac_misused\<close> records that a rule of asio's stream
    was broken, as alarms that meet do (\<open>posting_destroys_busy_stream\<close>, \<open>alarms_together_misuse\<close>);
    what happens after that is undefined, and the theorems are about alarms that do not meet.
  \<^item> \<open>Regional_Server\<close>: \<^verbatim>\<open>regional_server.cpp\<close>: the callbacks and the timer over the components above. A
    region is \<open>rg_dev\<close> (device server with registry), \<open>rg_last_motion\<close> (UDP server), \<open>rg_fsm\<close> and
    \<open>rg_active_lost\<close>.
  \<^item> \<open>Device_Net\<close>: the connections of a region from \<^verbatim>\<open>do_accept\<close> to the death of a session: handshakes,
    read chains, writes and their failures. A run over them is a run of the region: which
    connection events the region sees follows from bytes and completions.
  \<^item> \<open>Region_Log\<close>: the database calls of a region's run, composed with worker and tables: which alarms and
    devices can be found in the database afterwards.
  \<^item> \<open>Registry_Races\<close>: the handlers of a region as sequences of mutex-protected operations that several
    threads interleave. Handlers of different devices are serializable; a fault stays, in every
    schedule without a registration of the device, if no handler was under way when it was marked, but a
    status report that was under way can overwrite what the timer marked. Their runs without interference are the
    atomic handlers of the other theories.
  \<^item> \<open>Luminaire\<close>, \<open>Sensor\<close>: \<^verbatim>\<open>luminaire_client.cpp\<close>, \<^verbatim>\<open>sensor_udp.cpp\<close>; reachable states, what commands and
    ticks do, liveness of the lamp's timers.
  \<^item> \<open>Pqc_Tls\<close>: \<^verbatim>\<open>pqc_tls.hpp\<close> over a record of OpenSSL's answers, those of the two version calls included, which
    the code does not look at (\<open>refused_version_goes_unnoticed\<close>); ownership of the handles.
  \<^item> \<open>Lamp_Link\<close>, \<open>Sensor_Link\<close>, \<open>Operator_View\<close>: components run against each other: lamp and region
    (registration, motion to light to status), sensor and region (motion signal), region, central
    server and operator (synchronisation and alarms from the registry to the printed report).
  \<^item> \<open>Street_Light\<close>: sensor, region and lamp second after second, with the timer and the other connections of
    the region in between; the light follows the motion until an alarm puts the region into fault
    handling.
  \<^item> \<open>Command_Line\<close>: the arguments of every \<^verbatim>\<open>main\<close>, how \<^verbatim>\<open>std::stoi\<close> and \<^verbatim>\<open>std::stoul\<close> read them, and what the
    casts make of them.
  \<^item> \<open>Programs\<close>: every \<^verbatim>\<open>main\<close> as a whole, over a record of the answers of SQLite, OpenSSL and the socket
    calls: the order of the set-up, the exception that ends the program where a step fails, and the
    state in which it serves: \<open>new_net\<close> of \<open>Device_Net\<close>, \<open>new_central\<close> of \<open>Central_Sessions\<close>, a started lamp, a
    booted sensor. The operator's client is run against a serving central server.

  \<^bold>\<open>Termination and bounds.\<close> No definition has fuel that a theorem does not account for. Loops over
  lists and counts are structural or have a measure. Chains of asynchronous operations are runs over
  lists of completions: six completions bring a synchronisation back to its tick, and \<open>drain\<close>, whose
  first argument bounds the rounds of the worker, is shown to need as many as events are queued. A
  lamp is never without a next event, and the reads of a connection end with every complete frame
  handled.

  \<^bold>\<open>Hypotheses.\<close> Encoders throw on strings of 65536 or more characters and wrap counts from 65536 on; theorems
  that need it assume fewer; for the alarms of a running region it is proved.
  A datagram whose URI holds no terminator makes the C++ read past an array; the model has no value
  for it (\<open>None\<close>), and theorems about datagrams exclude it. The clock of a region is an argument; a
  theorem names what it needs of it.

  \<^bold>\<open>Not modelled.\<close> Threads: in the theories not named above a handler is atomic, \<open>Regional_Server\<close>,
  \<open>Device_Server\<close> and \<open>Device_Net\<close> among them; the state machine and the set of active losses of the regional
  server, which have no lock, are atomic everywhere, and so are the fields of one session. Data races in
  the sense of the C++ memory model are not represented. A write that was in flight when a socket was
  closed may still be reported as completed in \<open>Device_Net\<close>, which allows more runs than asio does.
  Name resolution,
  TLS handshakes and record layer: calls of asio and OpenSSL, present only as events with an
  outcome; whether a certificate is trusted does not arise, as every client sets \<^verbatim>\<open>verify_none\<close>.
  Signals, which end the sensor, and the unwinding after an exception has left a \<^verbatim>\<open>main\<close>. SQLite: \<open>Db_Writer\<close> takes the outcome of a statement as the parameter \<open>exec\<close>, refusals included;
  \<open>Database\<close> gives the meaning of the repository's SQL for one process with a working disk, so locks held by
  other processes, full disks and the numbers of \<^verbatim>\<open>AUTOINCREMENT\<close> are outside. Console output of the
  servers and devices. The sensor's count of seconds, an \<^verbatim>\<open>int\<close>, is unbounded
  here. The shell scripts under \<^verbatim>\<open>tests\<close> start the programs and search their logs; the one C++ tool
  there fills a datagram as the sensor does, with \<open>telemetry_packet\<close>.
\<close>

end
